(* ===== verification/Prelude.thy ===== *)
theory Prelude
  imports Main "HOL-Library.Multiset"
begin

text \<open>
  What every component shares: the error values of the Go code, the result type of a fallible
  Go function, and the generic list lemmas of the component proofs.

  A Go \<open>error\<close> is a value of \<open>go_error\<close>: a message, a message that wraps another error
  (\<open>fmt.Errorf("...: %w", err)\<close>), or one of the sentinel values the source tests with
  \<open>errors.Is\<close>. A function that returns \<open>(T, error)\<close> returns \<open>go_error + T\<close>; one that returns
  only \<open>error\<close> returns \<open>go_error option\<close>, where \<open>None\<close> is \<open>nil\<close>.
\<close>

named_theorems go_eval \<open>definitional equations that evaluate a model on a concrete input\<close>

datatype go_error =
    Err string
  | Wrapped string go_error
  | Ctx_Canceled
  | Ctx_Deadline
  | Net_Closed
  | Ws_Close nat
  | Divide_Panic

type_synonym 'a res = "go_error + 'a"

text \<open>\<open>err.Error()\<close>: the text of an error.\<close>

fun error_text :: "go_error \<Rightarrow> string" where
  "error_text (Err m) = m"
| "error_text (Wrapped m e) = m @ '': '' @ error_text e"
| "error_text Ctx_Canceled = ''context canceled''"
| "error_text Ctx_Deadline = ''context deadline exceeded''"
| "error_text Net_Closed = ''use of closed network connection''"
| "error_text (Ws_Close _) = ''websocket: close''"
| "error_text Divide_Panic = ''runtime error: integer divide by zero''"

text \<open>The innermost error, which is what \<open>errors.Is\<close> compares.\<close>

fun error_root :: "go_error \<Rightarrow> go_error" where
  "error_root (Wrapped _ e) = error_root e"
| "error_root e = e"

subsection \<open>Lists\<close>

lemma sorted_wrt_less_distinct:
  "sorted_wrt (<) (xs :: 'a :: linorder list) \<longleftrightarrow> sorted xs \<and> distinct xs"
  by (simp add: strict_sorted_iff)

lemma filter_True_conv: "(\<forall>x \<in> set xs. P x) \<Longrightarrow> filter P xs = xs"
  by simp

lemma sum_list_replicate_one: "(\<Sum>x \<leftarrow> xs. (1 :: int)) = int (length xs)"
  by (induction xs) auto

lemma split_at_separator:
  "c \<notin> set a \<Longrightarrow> c \<notin> set a' \<Longrightarrow> a @ c # b = a' @ c # b' \<Longrightarrow> a = a' \<and> b = b'"
proof (induction a arbitrary: a')
  case Nil
  then show ?case by (cases a') auto
next
  case (Cons x a)
  then show ?case by (cases a') auto
qed

end
