(* ===== verification/Go_Strings.thy ===== *)
theory Go_Strings
  imports Prelude
begin

text \<open>
  The parts of Go's \<open>strings\<close>, \<open>strconv\<close> and \<open>fmt\<close> packages the scraper uses, on byte strings
  (\<open>char list\<close>). Case mapping and white space follow the ASCII rules: every string that takes
  part in a decision of the code (exchange, market, symbol, interval, state, template) is ASCII;
  bytes of multi-byte runes are left alone.
\<close>

subsection \<open>Characters\<close>

definition is_space :: "char \<Rightarrow> bool" where
  "is_space c \<longleftrightarrow> (let n = (of_char c :: nat) in n = 32 \<or> 9 \<le> n \<and> n \<le> 13)"

definition is_digit :: "char \<Rightarrow> bool" where
  "is_digit c \<longleftrightarrow> (let n = (of_char c :: nat) in 48 \<le> n \<and> n \<le> 57)"

definition is_upper :: "char \<Rightarrow> bool" where
  "is_upper c \<longleftrightarrow> (let n = (of_char c :: nat) in 65 \<le> n \<and> n \<le> 90)"

definition is_lower :: "char \<Rightarrow> bool" where
  "is_lower c \<longleftrightarrow> (let n = (of_char c :: nat) in 97 \<le> n \<and> n \<le> 122)"

definition is_letter :: "char \<Rightarrow> bool" where
  "is_letter c \<longleftrightarrow> is_upper c \<or> is_lower c"

definition lower_char :: "char \<Rightarrow> char" where
  "lower_char c = (if is_upper c then char_of ((of_char c :: nat) + 32) else c)"

definition upper_char :: "char \<Rightarrow> char" where
  "upper_char c = (if is_lower c then char_of ((of_char c :: nat) - 32) else c)"

lemmas char_class_defs = is_space_def is_digit_def is_upper_def is_lower_def is_letter_def
  lower_char_def upper_char_def Let_def

lemma of_char_char_of_nat [simp]: "n < 256 \<Longrightarrow> (of_char (char_of n :: char) :: nat) = n"
  by simp

lemma code_lower_char: "(of_char (lower_char c) :: nat) = (if is_upper c then of_char c + 32 else of_char c)"
  by (auto simp: lower_char_def is_upper_def Let_def)

lemma code_upper_char: "(of_char (upper_char c) :: nat) = (if is_lower c then of_char c - 32 else of_char c)"
  by (auto simp: upper_char_def is_lower_def Let_def)

lemma char_eqI: "(of_char c :: nat) = of_char d \<Longrightarrow> c = d"
  by (metis char_of_char)

lemmas code_case = code_lower_char code_upper_char is_upper_def is_lower_def is_space_def Let_def

text \<open>The same on \<open>int\<close>, for evaluation: a \<open>nat\<close> would be counted in unary.\<close>

lemma int_of_char: "(of_char c :: int) = int (of_char c)"
  by (rule of_nat_of_char [symmetric])

lemma char_of_int: "(char_of (int n) :: char) = char_of n"
  by (rule char_of_nat)

lemma int_char_code [code]:
  "is_space c \<longleftrightarrow> (let n = (of_char c :: int) in n = 32 \<or> 9 \<le> n \<and> n \<le> 13)"
  "is_digit c \<longleftrightarrow> (let n = (of_char c :: int) in 48 \<le> n \<and> n \<le> 57)"
  "is_upper c \<longleftrightarrow> (let n = (of_char c :: int) in 65 \<le> n \<and> n \<le> 90)"
  "is_lower c \<longleftrightarrow> (let n = (of_char c :: int) in 97 \<le> n \<and> n \<le> 122)"
  unfolding int_of_char by (auto simp: is_space_def is_digit_def is_upper_def is_lower_def Let_def)

lemma int_case_code [code]:
  "lower_char c = (if is_upper c then char_of ((of_char c :: int) + 32) else c)"
  "upper_char c = (if is_lower c then char_of ((of_char c :: int) - 32) else c)"
proof -
  show "lower_char c = (if is_upper c then char_of ((of_char c :: int) + 32) else c)"
    using char_of_int [of "of_char c + 32"] unfolding int_of_char by (simp add: lower_char_def)
  have "is_lower c \<Longrightarrow> int (of_char c) - 32 = int (of_char c - 32)" by (simp add: is_lower_def Let_def of_nat_diff)
  then show "upper_char c = (if is_lower c then char_of ((of_char c :: int) - 32) else c)"
    unfolding int_of_char by (simp only: upper_char_def char_of_int cong: if_cong)
qed

lemma lower_char_lower [simp]: "lower_char (lower_char c) = lower_char c"
  by (rule char_eqI) (auto simp: code_case)

lemma upper_char_upper [simp]: "upper_char (upper_char c) = upper_char c"
  by (rule char_eqI) (auto simp: code_case)

lemma lower_char_upper [simp]: "lower_char (upper_char c) = lower_char c"
  by (rule char_eqI) (auto simp: code_case)

lemma upper_char_lower [simp]: "upper_char (lower_char c) = upper_char c"
  by (rule char_eqI) (auto simp: code_case)

lemma is_space_lower [simp]: "is_space (lower_char c) = is_space c"
  by (auto simp: code_case)

lemma is_space_upper [simp]: "is_space (upper_char c) = is_space c"
  by (auto simp: code_case)

subsection \<open>Trimming and case\<close>

definition trim_space :: "string \<Rightarrow> string" where
  "trim_space s = rev (dropWhile is_space (rev (dropWhile is_space s)))"

definition to_lower :: "string \<Rightarrow> string" where "to_lower s = map lower_char s"
definition to_upper :: "string \<Rightarrow> string" where "to_upper s = map upper_char s"

lemma dropWhile_map_inv: "(\<And>x. P (f x) = P x) \<Longrightarrow> dropWhile P (map f xs) = map f (dropWhile P xs)"
  by (induction xs) auto

lemma trim_lower: "trim_space (to_lower s) = to_lower (trim_space s)"
  by (simp add: trim_space_def to_lower_def dropWhile_map_inv rev_map)

lemma trim_upper: "trim_space (to_upper s) = to_upper (trim_space s)"
  by (simp add: trim_space_def to_upper_def dropWhile_map_inv rev_map)

lemma dropWhile_id: "xs = [] \<or> \<not> P (hd xs) \<Longrightarrow> dropWhile P xs = xs"
  by (cases xs) auto

lemma trim_trim [simp]: "trim_space (trim_space s) = trim_space s"
proof -
  let ?a = "dropWhile is_space s"
  let ?b = "dropWhile is_space (rev ?a)"
  have a: "?a = [] \<or> \<not> is_space (hd ?a)" using hd_dropWhile by blast
  have b: "?b = [] \<or> \<not> is_space (hd ?b)" using hd_dropWhile by blast
  have "rev ?b = [] \<or> \<not> is_space (hd (rev ?b))"
  proof (cases "?b = []")
    case False
    have "?a = rev ?b @ rev (takeWhile is_space (rev ?a))"
      by (metis rev_append rev_rev_ident takeWhile_dropWhile_id)
    then have "hd ?a = hd (rev ?b)" using False by (metis hd_append2 rev_is_Nil_conv)
    moreover have "?a \<noteq> []" using False by (metis dropWhile.simps(1) rev.simps(1))
    ultimately show ?thesis using a by metis
  qed simp
  then have "dropWhile is_space (rev ?b) = rev ?b" by (rule dropWhile_id)
  then show ?thesis using b by (simp add: trim_space_def dropWhile_id)
qed

lemma lower_lower [simp]: "to_lower (to_lower s) = to_lower s"
  by (simp add: to_lower_def)

lemma upper_upper [simp]: "to_upper (to_upper s) = to_upper s"
  by (simp add: to_upper_def)

lemma lower_upper [simp]: "to_lower (to_upper s) = to_lower s"
  by (simp add: to_lower_def to_upper_def)

lemma lower_Nil_iff [simp]: "to_lower s = [] \<longleftrightarrow> s = []"
  by (simp add: to_lower_def)

lemma upper_Nil_iff [simp]: "to_upper s = [] \<longleftrightarrow> s = []"
  by (simp add: to_upper_def)

text \<open>The two normal forms every key of the code goes through, and that they are stable.\<close>

definition norm_lower :: "string \<Rightarrow> string" where "norm_lower s = to_lower (trim_space s)"
definition norm_upper :: "string \<Rightarrow> string" where "norm_upper s = to_upper (trim_space s)"

lemma norm_lower_idem [simp]: "norm_lower (norm_lower s) = norm_lower s"
  by (simp add: norm_lower_def trim_lower)

lemma norm_upper_idem [simp]: "norm_upper (norm_upper s) = norm_upper s"
  by (simp add: norm_upper_def trim_upper)

lemma trim_norm_lower [simp]: "trim_space (norm_lower s) = norm_lower s"
  by (simp add: norm_lower_def trim_lower)

lemma trim_norm_upper [simp]: "trim_space (norm_upper s) = norm_upper s"
  by (simp add: norm_upper_def trim_upper)

lemma norm_lower_upper [simp]: "norm_lower (norm_upper s) = norm_lower s"
  by (simp add: norm_lower_def norm_upper_def trim_upper)

lemma norm_lower_to_lower [simp]: "to_lower (norm_lower s) = norm_lower s"
  by (simp add: norm_lower_def)

lemma norm_lower_trim [simp]: "norm_lower (trim_space s) = norm_lower s"
  by (simp add: norm_lower_def)

lemma lower_char_cases: "lower_char c = c \<or> is_lower (lower_char c)"
  by (cases "is_upper c") (simp_all add: lower_char_def is_upper_def is_lower_def Let_def)

lemma set_trim_space: "set (trim_space s) \<subseteq> set s"
  unfolding trim_space_def by (auto dest!: set_dropWhileD)

lemma norm_lower_free: "c \<notin> set s \<Longrightarrow> \<not> is_lower c \<Longrightarrow> c \<notin> set (norm_lower s)"
  using set_trim_space [of s] by (auto simp: norm_lower_def to_lower_def) (metis lower_char_cases subsetD)

subsection \<open>Searching and replacing\<close>

fun has_prefix :: "string \<Rightarrow> string \<Rightarrow> bool" where
  "has_prefix s [] = True"
| "has_prefix [] (p # ps) = False"
| "has_prefix (c # cs) (p # ps) = (c = p \<and> has_prefix cs ps)"

fun contains :: "string \<Rightarrow> string \<Rightarrow> bool" where
  "contains [] sub = (sub = [])"
| "contains (c # cs) sub = (has_prefix (c # cs) sub \<or> contains cs sub)"

text \<open>\<open>strings.ReplaceAll\<close> for a non-empty pattern: leftmost matches, not overlapping.\<close>

function replace_all :: "string \<Rightarrow> string \<Rightarrow> string \<Rightarrow> string" where
  "replace_all [] pat new = []"
| "replace_all (c # cs) pat new =
     (if pat \<noteq> [] \<and> has_prefix (c # cs) pat
      then new @ replace_all (drop (length pat) (c # cs)) pat new
      else c # replace_all cs pat new)"
  by pat_completeness auto
termination
  by (relation "measure (\<lambda>(s, pat, new). length s)") (auto simp: neq_Nil_conv)

lemma replace_all_absent: "\<not> contains s pat \<Longrightarrow> replace_all s pat new = s"
  by (induction s) auto

definition join :: "string \<Rightarrow> string list \<Rightarrow> string" where
  "join sep xs = (case xs of [] \<Rightarrow> [] | y # ys \<Rightarrow> y @ concat (map (\<lambda>z. sep @ z) ys))"

subsection \<open>Decimal numbers\<close>

definition digit_char :: "nat \<Rightarrow> char" where "digit_char d = char_of (48 + d)"
definition digit_val :: "char \<Rightarrow> nat" where "digit_val c = (of_char c :: nat) - 48"

fun itoa_nat :: "nat \<Rightarrow> string" where
  "itoa_nat n = (if n < 10 then [digit_char n] else itoa_nat (n div 10) @ [digit_char (n mod 10)])"

declare itoa_nat.simps [simp del]

definition itoa :: "int \<Rightarrow> string" where
  "itoa i = (if i < 0 then CHR ''-'' # itoa_nat (nat (- i)) else itoa_nat (nat i))"

definition digits_val :: "string \<Rightarrow> nat" where
  "digits_val s = foldl (\<lambda>acc c. 10 * acc + digit_val c) 0 s"

text \<open>
  \<open>strconv.Atoi\<close> and \<open>strconv.ParseInt(s, 10, 64)\<close>: an optional sign, at least one digit, only
  digits, and a value that fits 64 bits; \<open>None\<close> is the error.
\<close>

definition atoi :: "string \<Rightarrow> int option" where
  "atoi s =
     (let neg = (s \<noteq> [] \<and> hd s = CHR ''-'');
          ds = (if s \<noteq> [] \<and> (hd s = CHR ''-'' \<or> hd s = CHR ''+'') then tl s else s);
          n = int (digits_val ds)
      in if ds = [] \<or> (\<exists>c \<in> set ds. \<not> is_digit c) then None
         else if neg then (if n \<le> 9223372036854775808 then Some (- n) else None)
         else (if n \<le> 9223372036854775807 then Some n else None))"

text \<open>The same on \<open>int\<close>, for evaluation: a \<open>nat\<close> would be counted in unary.\<close>

definition digit_char_int :: "int \<Rightarrow> char" where "digit_char_int d = digit_char (nat d)"
definition digit_val_int :: "char \<Rightarrow> int" where "digit_val_int c = int (digit_val c)"

lemma digit_char_int_code [code]: "digit_char_int d = char_of (48 + max 0 d)"
proof -
  have "48 + max 0 d = int (48 + nat d)" by simp
  then show ?thesis by (simp only: digit_char_int_def digit_char_def char_of_int)
qed

lemma digit_val_int_code [code]: "digit_val_int c = max 0 ((of_char c :: int) - 48)"
  unfolding int_of_char by (simp add: digit_val_int_def digit_val_def)

function itoa_int :: "int \<Rightarrow> string" where
  "itoa_int n = (if n < 10 then [digit_char_int n] else itoa_int (n div 10) @ [digit_char_int (n mod 10)])"
  by pat_completeness auto
termination by (relation "measure nat") auto

declare itoa_int.simps [simp del]

lemma itoa_int_nat: "itoa_int (int n) = itoa_nat n"
proof (induction n rule: itoa_nat.induct)
  case (1 n)
  have d: "int n div 10 = int (n div 10)" "int n mod 10 = int (n mod 10)" by (simp_all add: zdiv_int zmod_int)
  show ?case
    using "1.IH" unfolding itoa_int.simps [of "int n"] itoa_nat.simps [of n] d by (auto simp: digit_char_int_def)
qed

lemma itoa_code [code]: "itoa i = (if i < 0 then CHR ''-'' # itoa_int (- i) else itoa_int i)"
  using itoa_int_nat [of "nat i"] itoa_int_nat [of "nat (- i)"] by (auto simp: itoa_def split: if_splits)

definition digits_int :: "string \<Rightarrow> int" where
  "digits_int s = foldl (\<lambda>acc c. 10 * acc + digit_val_int c) 0 s"

lemma digits_int_val: "digits_int s = int (digits_val s)"
proof -
  have "foldl (\<lambda>acc c. 10 * acc + int (digit_val c)) (int a) s = int (foldl (\<lambda>acc c. 10 * acc + digit_val c) a s)" for a
  proof (induction s arbitrary: a)
    case (Cons c s)
    have "10 * int a + int (digit_val c) = int (10 * a + digit_val c)" by simp
    then show ?case by (simp only: foldl_Cons Cons.IH)
  qed simp
  from this [of 0] show ?thesis by (simp add: digits_int_def digits_val_def digit_val_int_def)
qed

lemma atoi_code [code]:
  "atoi s =
     (let neg = (s \<noteq> [] \<and> hd s = CHR ''-'');
          ds = (if s \<noteq> [] \<and> (hd s = CHR ''-'' \<or> hd s = CHR ''+'') then tl s else s);
          n = digits_int ds
      in if ds = [] \<or> (\<exists>c \<in> set ds. \<not> is_digit c) then None
         else if neg then (if n \<le> 9223372036854775808 then Some (- n) else None)
         else (if n \<le> 9223372036854775807 then Some n else None))"
  by (simp only: atoi_def digits_int_val)

lemma digit_char_props:
  assumes "d < 10"
  shows "digit_val (digit_char d) = d" "is_digit (digit_char d)"
    "digit_char d \<noteq> CHR ''-''" "digit_char d \<noteq> CHR ''+''"
proof -
  have n: "(of_char (digit_char d) :: nat) = 48 + d" using assms by (simp add: digit_char_def)
  then show "digit_val (digit_char d) = d" "is_digit (digit_char d)"
    using assms by (simp_all add: digit_val_def is_digit_def)
  have "(of_char CHR ''-'' :: nat) = 45" "(of_char CHR ''+'' :: nat) = 43" by simp_all
  then show "digit_char d \<noteq> CHR ''-''" "digit_char d \<noteq> CHR ''+''"
    using n by auto
qed

lemma digits_val_itoa_nat: "digits_val (itoa_nat n) = n"
proof (induction n rule: itoa_nat.induct)
  case (1 n)
  then show ?case
    by (subst itoa_nat.simps) (auto simp: digits_val_def digit_char_props)
qed

lemma itoa_nat_digits: "c \<in> set (itoa_nat n) \<Longrightarrow> is_digit c"
proof (induction n rule: itoa_nat.induct)
  case (1 n)
  then show ?case
    by (subst (asm) (2) itoa_nat.simps) (auto simp: digit_char_props split: if_splits)
qed

lemma itoa_nat_nonempty: "itoa_nat n \<noteq> []"
  by (subst itoa_nat.simps) simp

lemma is_digit_not_sign: "is_digit c \<Longrightarrow> c \<noteq> CHR ''-'' \<and> c \<noteq> CHR ''+''"
  by (auto simp: is_digit_def)

lemma atoi_itoa: "- 9223372036854775808 \<le> i \<Longrightarrow> i \<le> 9223372036854775807 \<Longrightarrow> atoi (itoa i) = Some i"
proof -
  have hd: "\<And>n. hd (itoa_nat n) \<noteq> CHR ''-'' \<and> hd (itoa_nat n) \<noteq> CHR ''+''"
    using itoa_nat_digits itoa_nat_nonempty is_digit_not_sign hd_in_set by metis
  assume "- 9223372036854775808 \<le> i" "i \<le> 9223372036854775807"
  then show ?thesis
    using hd [of "nat i"] itoa_nat_digits [of _ "nat i"] itoa_nat_digits [of _ "nat (- i)"]
    by (auto simp: atoi_def itoa_def Let_def itoa_nat_nonempty digits_val_itoa_nat)
qed

lemma itoa_comma_free: "CHR '','' \<notin> set (itoa i)"
  using itoa_nat_digits [of "CHR '',''"] by (auto simp: itoa_def is_digit_def)

lemma itoa_nat_inj: "itoa_nat m = itoa_nat n \<Longrightarrow> m = n"
  by (metis digits_val_itoa_nat)

lemma itoa_inj: "itoa i = itoa j \<Longrightarrow> i = j"
proof -
  have hd: "\<And>n. hd (itoa_nat n) \<noteq> CHR ''-''"
    using itoa_nat_digits itoa_nat_nonempty is_digit_not_sign hd_in_set by metis
  assume eq: "itoa i = itoa j"
  show "i = j"
  proof (cases "i < 0 \<longleftrightarrow> j < 0")
    case True
    with eq show ?thesis by (auto simp: itoa_def dest!: itoa_nat_inj split: if_splits)
  next
    case False
    with eq hd show ?thesis by (auto simp: itoa_def split: if_splits) (metis list.sel(1))+
  qed
qed

subsection \<open>Quoting\<close>

definition hex_digit :: "nat \<Rightarrow> char" where
  "hex_digit d = (if d < 10 then char_of (48 + d) else char_of (87 + d))"

text \<open>\<open>%q\<close>: printable ASCII stands for itself; bytes of multi-byte runes are kept.\<close>

definition quote_char :: "char \<Rightarrow> string" where
  "quote_char c = (let n = (of_char c :: nat) in
     if n = 34 \<or> n = 92 then [CHR 0x5C, c]
     else if n = 7 then [CHR 0x5C, CHR ''a''] else if n = 8 then [CHR 0x5C, CHR ''b'']
     else if n = 9 then [CHR 0x5C, CHR ''t''] else if n = 10 then [CHR 0x5C, CHR ''n'']
     else if n = 11 then [CHR 0x5C, CHR ''v''] else if n = 12 then [CHR 0x5C, CHR ''f'']
     else if n = 13 then [CHR 0x5C, CHR ''r'']
     else if n < 32 \<or> n = 127 then [CHR 0x5C, CHR ''x'', hex_digit (n div 16), hex_digit (n mod 16)]
     else [c])"

definition go_quote :: "string \<Rightarrow> string" where
  "go_quote s = CHR 0x22 # concat (map quote_char s) @ [CHR 0x22]"

lemmas string_defs = norm_lower_def norm_upper_def trim_space_def to_lower_def to_upper_def

end
