(* ===== verification/Go_Time.thy ===== *)
theory Go_Time
  imports Prelude
begin

text \<open>
  Go's \<open>time\<close> package, as far as the scraper uses it. An instant is the number of
  nanoseconds since 1970-01-01T00:00:00Z (an unbounded \<open>int\<close>; the code normalises every
  instant with \<open>.UTC()\<close>, which does not move it). A \<open>time.Duration\<close> is a signed 64-bit
  count of nanoseconds: products wrap around, \<open>Time.Sub\<close> saturates. The UTC calendar is
  reduced to the year, the only field the year-sharded store depends on: \<open>year_of\<close> follows the
  400/100/4/1-year cycle arithmetic of Go's \<open>Time.Year\<close>, \<open>year_start\<close> is
  \<open>time.Date(y, 1, 1, 0, 0, 0, 0, time.UTC)\<close>.
\<close>

type_synonym time = int
type_synonym duration = int

definition wrap64 :: "int \<Rightarrow> int" where
  "wrap64 x = (x + 2 ^ 63) mod 2 ^ 64 - 2 ^ 63"

definition max_int64 :: int where "max_int64 = 9223372036854775807"
definition min_int64 :: int where "min_int64 = - 9223372036854775808"

lemma wrap64_id: "min_int64 \<le> x \<Longrightarrow> x \<le> max_int64 \<Longrightarrow> wrap64 x = x"
  by (simp add: wrap64_def min_int64_def max_int64_def)

lemma wrap64_range: "min_int64 \<le> wrap64 x \<and> wrap64 x \<le> max_int64"
proof -
  have "0 \<le> (x + 2 ^ 63) mod 2 ^ 64 \<and> (x + 2 ^ 63) mod 2 ^ 64 < (2 :: int) ^ 64" by simp
  then show ?thesis by (simp add: wrap64_def min_int64_def max_int64_def)
qed

subsection \<open>Instants and durations\<close>

text \<open>The zero \<open>time.Time\<close> is 0001-01-01T00:00:00Z.\<close>

definition zero_time :: time where "zero_time = - 62135596800000000000"

definition is_zero :: "time \<Rightarrow> bool" where "is_zero t \<longleftrightarrow> t = zero_time"

definition millisecond :: duration where "millisecond = 1000000"
definition second :: duration where "second = 1000000000"
definition minute :: duration where "minute = 60000000000"
definition hour :: duration where "hour = 3600000000000"

definition dur_mul :: "int \<Rightarrow> duration \<Rightarrow> duration" where
  "dur_mul n d = wrap64 (n * d)"

definition time_add :: "time \<Rightarrow> duration \<Rightarrow> time" where
  "time_add t d = t + d"

definition time_sub :: "time \<Rightarrow> time \<Rightarrow> duration" where
  "time_sub a b = (if a - b > max_int64 then max_int64
     else if a - b < min_int64 then min_int64 else a - b)"

definition unix_milli :: "time \<Rightarrow> int" where
  "unix_milli t = wrap64 (t div 1000000)"

definition of_unix_milli :: "int \<Rightarrow> time" where
  "of_unix_milli ms = ms * 1000000"

definition unix_nano :: "time \<Rightarrow> int" where
  "unix_nano t = wrap64 t"

text \<open>Go's \<open>/\<close> on integers truncates towards zero and panics on a zero divisor.\<close>

definition go_div :: "int \<Rightarrow> int \<Rightarrow> int res" where
  "go_div a b = (if b = 0 then Inl Divide_Panic else Inr (wrap64 (sgn a * sgn b * (\<bar>a\<bar> div \<bar>b\<bar>))))"

lemmas time_units = millisecond_def second_def minute_def hour_def

lemma unix_milli_of_unix_milli:
  "min_int64 \<le> ms \<Longrightarrow> ms \<le> max_int64 \<Longrightarrow> unix_milli (of_unix_milli ms) = ms"
  by (simp add: unix_milli_def of_unix_milli_def wrap64_id)

subsection \<open>The calendar as an interface\<close>

text \<open>
  What the year-sharded code relies on: the start instants of the years increase, and the year
  of an instant is the one whose start is the last not after it. Everything else the windowing
  and routing proofs need follows.
\<close>

locale calendar =
  fixes yr :: "time \<Rightarrow> int" and start :: "int \<Rightarrow> time"
  assumes start_mono: "start y < start (y + 1)"
    and yr_lower: "start (yr t) \<le> t"
    and yr_upper: "t < start (yr t + 1)"
begin

lemma start_less_nat: "start y < start (y + 1 + int n)"
proof (induction n)
  case 0
  show ?case using start_mono by simp
next
  case (Suc n)
  have "start (y + 1 + int n) < start (y + 1 + int (Suc n))"
    using start_mono [of "y + 1 + int n"] by (simp add: algebra_simps)
  with Suc show ?case by simp
qed

lemma start_less: "y < z \<Longrightarrow> start y < start z"
  using start_less_nat [of y "nat (z - y - 1)"] by simp

lemma start_le: "y \<le> z \<Longrightarrow> start y \<le> start z"
  using start_less [of y z] by (cases "y = z") auto

lemma yr_unique: "start y \<le> t \<Longrightarrow> t < start (y + 1) \<Longrightarrow> yr t = y"
proof (rule ccontr)
  assume lo: "start y \<le> t" and hi: "t < start (y + 1)" and "yr t \<noteq> y"
  then consider "yr t + 1 \<le> y" | "y + 1 \<le> yr t" by linarith
  then show False
  proof cases
    case 1
    then have "start (yr t + 1) \<le> start y" by (rule start_le)
    with yr_upper [of t] lo show False by linarith
  next
    case 2
    then have "start (y + 1) \<le> start (yr t)" by (rule start_le)
    with yr_lower [of t] hi show False by linarith
  qed
qed

lemma yr_start [simp]: "yr (start y) = y"
  by (rule yr_unique) (auto simp: start_mono)

lemma yr_mono: "s \<le> t \<Longrightarrow> yr s \<le> yr t"
proof (rule ccontr)
  assume "s \<le> t" and "\<not> yr s \<le> yr t"
  then have "start (yr t + 1) \<le> start (yr s)" by (intro start_le) simp
  with yr_upper [of t] yr_lower [of s] \<open>s \<le> t\<close> show False by linarith
qed

text \<open>An interval that ends no later than the next year's start stays in one year.\<close>

lemma yr_same: "s \<le> t \<Longrightarrow> t < start (yr s + 1) \<Longrightarrow> yr t = yr s"
  using yr_lower [of s] by (intro yr_unique) auto

end

subsection \<open>The Gregorian calendar\<close>

text \<open>Days from 0001-01-01 to the first of January of year \<open>y\<close>, and the nanoseconds of a day.\<close>

definition days_before_year :: "int \<Rightarrow> int" where
  "days_before_year y = 365 * (y - 1) + (y - 1) div 4 - (y - 1) div 100 + (y - 1) div 400"

definition day_ns :: int where "day_ns = 86400000000000"

definition unix_epoch_day :: int where "unix_epoch_day = 719162"

definition year_start :: "int \<Rightarrow> time" where
  "year_start y = (days_before_year y - unix_epoch_day) * day_ns"

definition year_of_day :: "int \<Rightarrow> int" where
  "year_of_day d =
     (let a = d div 146097; r = d mod 146097;
          b = r div 36524; b' = b - b div 4; r1 = r - 36524 * b';
          c = r1 div 1461; r2 = r1 - 1461 * c;
          e = r2 div 365; e' = e - e div 4
      in 1 + 400 * a + 100 * b' + 4 * c + e')"

definition year_of :: "time \<Rightarrow> int" where
  "year_of t = year_of_day (t div day_ns + unix_epoch_day)"

lemma days_before_year_parts:
  assumes "0 \<le> b" "b \<le> 3" "0 \<le> c" "c \<le> 24" "0 \<le> e" "e \<le> 3"
  shows "days_before_year (1 + 400 * a + 100 * b + 4 * c + e) = 146097 * a + 36524 * b + 1461 * c + 365 * e"
proof -
  let ?y = "400 * a + 100 * b + 4 * c + e"
  have "?y div 4 = 100 * a + 25 * b + c"
    by (rule int_div_pos_eq [where r = e]) (use assms in simp_all)
  moreover have "?y div 100 = 4 * a + b"
    by (rule int_div_pos_eq [where r = "4 * c + e"]) (use assms in simp_all)
  moreover have "?y div 400 = a"
    by (rule int_div_pos_eq [where r = "100 * b + 4 * c + e"]) (use assms in simp_all)
  ultimately show ?thesis by (simp add: days_before_year_def algebra_simps)
qed

text \<open>Every year is a sum of 400-, 100-, 4- and 1-year cycles.\<close>

lemma year_parts:
  obtains a b c e :: int where "y = 1 + 400 * a + 100 * b + 4 * c + e"
    "0 \<le> b" "b \<le> 3" "0 \<le> c" "c \<le> 24" "0 \<le> e" "e \<le> 3"
proof -
  define r where "r = (y - 1) mod 400"
  define s where "s = r mod 100"
  have r: "0 \<le> r" "r < 400" "y = 1 + 400 * ((y - 1) div 400) + r" by (simp_all add: r_def)
  have s: "0 \<le> s" "s < 100" "r = 100 * (r div 100) + s" by (simp_all add: s_def)
  have e: "0 \<le> s mod 4" "s mod 4 < 4" "s = 4 * (s div 4) + s mod 4" by simp_all
  show thesis
    by (rule that [of "(y - 1) div 400" "r div 100" "s div 4" "s mod 4"])
      (use r s e in linarith)+
qed

text \<open>A year has 365 or 366 days.\<close>

lemma days_before_year_step:
  "days_before_year y + 365 \<le> days_before_year (y + 1) \<and> days_before_year (y + 1) \<le> days_before_year y + 366"
proof -
  obtain a b c e where y: "y = 1 + 400 * a + 100 * b + 4 * c + e"
    and bnd: "0 \<le> b" "b \<le> 3" "0 \<le> c" "c \<le> 24" "0 \<le> e" "e \<le> 3"
    by (rule year_parts)
  note d = days_before_year_parts
  have now: "days_before_year y = 146097 * a + 36524 * b + 1461 * c + 365 * e"
    unfolding y by (rule d) (use bnd in auto)
  consider "e < 3" | "e = 3" "c < 24" | "e = 3" "c = 24" "b < 3" | "e = 3" "c = 24" "b = 3"
    using bnd by linarith
  then show ?thesis
  proof cases
    case 1
    then show ?thesis using now d [of b c "e + 1" a] bnd by (simp add: y)
  next
    case 2
    then show ?thesis using now d [of b "c + 1" 0 a] bnd by (simp add: y)
  next
    case 3
    then show ?thesis using now d [of "b + 1" 0 0 a] bnd by (simp add: y)
  next
    case 4
    then show ?thesis using now d [of 0 0 0 "a + 1"] by (simp add: y algebra_simps)
  qed
qed

lemma year_of_day_bounds:
  "days_before_year (year_of_day d) \<le> d \<and> d < days_before_year (year_of_day d + 1)"
proof -
  define a where "a = d div 146097"
  define r where "r = d mod 146097"
  define b where "b = r div 36524 - r div 36524 div 4"
  define r1 where "r1 = r - 36524 * b"
  define c where "c = r1 div 1461"
  define r2 where "r2 = r1 - 1461 * c"
  define e where "e = r2 div 365 - r2 div 365 div 4"
  note d = days_before_year_parts
  have y: "year_of_day d = 1 + 400 * a + 100 * b + 4 * c + e"
    by (simp add: year_of_day_def Let_def a_def r_def b_def r1_def c_def r2_def e_def)
  have r: "0 \<le> r" "r < 146097" "d = 146097 * a + r" by (simp_all add: r_def a_def)
  have b: "0 \<le> b" "b \<le> 3" "0 \<le> r1" "r1 < 36525" "b < 3 \<longrightarrow> r1 < 36524"
  proof -
    define q where "q = r div 36524"
    have q: "36524 * q \<le> r" "r < 36524 * q + 36524" "0 \<le> q" "q \<le> 4"
      using r unfolding q_def by linarith+
    have "b = (if q = 4 then 3 else q)" using q by (auto simp: b_def q_def)
    with q r show "0 \<le> b" "b \<le> 3" "0 \<le> r1" "r1 < 36525" "b < 3 \<longrightarrow> r1 < 36524"
      by (auto simp: r1_def split: if_splits)
  qed
  have c: "0 \<le> c" "c \<le> 24" "0 \<le> r2" "r2 < 1461" "c = 24 \<and> b < 3 \<longrightarrow> r2 < 1460"
    using b unfolding c_def r2_def by linarith+
  have e: "0 \<le> e" "e \<le> 3" "365 * e \<le> r2" "e < 3 \<longrightarrow> r2 < 365 * e + 365" "r2 < 365 * e + 366"
  proof -
    define q where "q = r2 div 365"
    have q: "365 * q \<le> r2" "r2 < 365 * q + 365" "0 \<le> q" "q \<le> 4"
      using c unfolding q_def by linarith+
    have "e = (if q = 4 then 3 else q)" using q by (auto simp: e_def q_def)
    with q c show "0 \<le> e" "e \<le> 3" "365 * e \<le> r2" "e < 3 \<longrightarrow> r2 < 365 * e + 365" "r2 < 365 * e + 366"
      by (auto split: if_splits)
  qed
  have dd: "d = 146097 * a + 36524 * b + 1461 * c + r2" using r by (simp add: r2_def r1_def)
  have now: "days_before_year (year_of_day d) = 146097 * a + 36524 * b + 1461 * c + 365 * e"
    unfolding y by (rule d) (use b c e in auto)
  have lower: "days_before_year (year_of_day d) \<le> d" using now dd e by linarith
  consider "e < 3" | "e = 3" "c < 24" | "e = 3" "c = 24" "b < 3" | "e = 3" "c = 24" "b = 3"
    using b c e by linarith
  then have "d < days_before_year (1 + 400 * a + 100 * b + 4 * c + e + 1)"
  proof cases
    case 1
    then show ?thesis using d [of b c "e + 1" a] b c e dd by (simp add: ac_simps)
  next
    case 2
    then show ?thesis using d [of b "c + 1" 0 a] b c dd by (simp add: ac_simps)
  next
    case 3
    then show ?thesis using d [of "b + 1" 0 0 a] b c dd by (simp add: ac_simps)
  next
    case 4
    then show ?thesis using d [of 0 0 0 "a + 1"] c dd by (simp add: algebra_simps)
  qed
  with lower show ?thesis by (simp add: y)
qed

lemma year_length: "year_start (y + 1) - year_start y \<le> 366 * day_ns"
  using days_before_year_step [of y] by (simp add: year_start_def day_ns_def)

interpretation cal: calendar year_of year_start
proof
  fix y :: int
  show "year_start y < year_start (y + 1)"
    using days_before_year_step [of y] by (simp add: year_start_def day_ns_def)
next
  fix t :: time
  let ?d = "t div day_ns + unix_epoch_day"
  have q: "(t div day_ns) * day_ns \<le> t" "t < (t div day_ns + 1) * day_ns"
    by (simp_all add: day_ns_def)
  have lo: "days_before_year (year_of t) - unix_epoch_day \<le> t div day_ns"
    and hi: "t div day_ns + 1 \<le> days_before_year (year_of t + 1) - unix_epoch_day"
    using year_of_day_bounds [of ?d] by (simp_all add: year_of_def)
  show "year_start (year_of t) \<le> t"
    using mult_right_mono [OF lo, of day_ns] q by (simp add: year_start_def day_ns_def)
  show "t < year_start (year_of t + 1)"
    using mult_right_mono [OF hi, of day_ns] q by (simp add: year_start_def day_ns_def)
qed

lemma year_of_examples:
  "year_of 0 = 1970" "year_of zero_time = 1"
  "year_of 1767225599999999999 = 2025" "year_of 1767225600000000000 = 2026"
  by (simp_all add: year_of_def year_of_day_def Let_def day_ns_def unix_epoch_day_def zero_time_def)

subsection \<open>Months\<close>

text \<open>
  \<open>Time.AddDate(0, n, 0)\<close>: the month moves by \<open>n\<close>, the day of the month stays, and a day that the
  month does not have runs over into the next one, as \<open>time.Date\<close> normalises it.
\<close>

definition is_leap :: "int \<Rightarrow> bool" where
  "is_leap y \<longleftrightarrow> y mod 4 = 0 \<and> (y mod 100 \<noteq> 0 \<or> y mod 400 = 0)"

definition days_before_month :: "int \<Rightarrow> int \<Rightarrow> int" where
  "days_before_month y m =
     [0, 31, 59, 90, 120, 151, 181, 212, 243, 273, 304, 334] ! nat (m - 1) + (if is_leap y \<and> 2 < m then 1 else 0)"

definition month_of_year_day :: "int \<Rightarrow> int \<Rightarrow> int" where
  "month_of_year_day y d = int (length (filter (\<lambda>m. days_before_month y m \<le> d) [1..12]))"

definition add_months :: "time \<Rightarrow> int \<Rightarrow> time" where
  "add_months t n =
     (let y = year_of t;
          day = (t - year_start y) div day_ns;
          m = month_of_year_day y day;
          k = m - 1 + n;
          y1 = y + k div 12;
          m1 = k mod 12 + 1
      in year_start y1 + (days_before_month y1 m1 + (day - days_before_month y m)) * day_ns + t mod day_ns)"

text \<open>Back from 2026-03-31 and from 2026-01-15, and from a leap day to the 29th of January.\<close>

lemma add_months_examples:
  "add_months (year_start 2026 + 89 * day_ns + 7) (- 1) = year_start 2026 + 61 * day_ns + 7"
  "add_months (year_start 2026 + 14 * day_ns) (- 1) = year_start 2025 + 348 * day_ns"
  "add_months (year_start 2024 + 59 * day_ns) (- 1) = year_start 2024 + 28 * day_ns"
  by code_simp+

end
