(* ===== verification/Models.thy ===== *)
theory Models
  imports Go_Strings Go_Time "HOL-Library.Word"
begin

text \<open>
  \<open>internal/models/models.go\<close> and the decoding of REST values shared by the collectors.

  A \<open>float64\<close> is its 64-bit IEEE 754 pattern. The code copies prices from the exchange to the
  store and to Kafka and never computes with them, so the only operation on a \<open>float64\<close> modelled
  here is the truncating conversion \<open>int64(x)\<close> that reads millisecond time stamps. The decimal
  conversion \<open>strconv.ParseFloat\<close> is the argument \<open>pf\<close> of the functions that use it.
\<close>

type_synonym float64 = "64 word"

record kline =
  k_time :: time
  k_symbol :: string
  k_market :: string
  k_exchange :: string
  k_interval :: string
  k_open_time :: time
  k_close_time :: time
  k_open :: float64
  k_high :: float64
  k_low :: float64
  k_close :: float64
  k_volume :: float64
  k_quote_volume :: float64
  k_num_trades :: int

record order_book =
  ob_time :: time
  ob_symbol :: string
  ob_market :: string
  ob_exchange :: string
  ob_bids :: string
  ob_asks :: string

record funding_rate =
  fr_time :: time
  fr_symbol :: string
  fr_market :: string
  fr_exchange :: string
  fr_rate :: float64
  fr_mark_price :: float64
  fr_next_time :: time

record open_interest =
  oi_time :: time
  oi_symbol :: string
  oi_value :: float64
  oi_period :: string
  oi_market :: string
  oi_exchange :: string

subsection \<open>Decoded JSON values\<close>

text \<open>What \<open>json.Unmarshal\<close> puts into an \<open>interface{}\<close>, and the \<open>json.Number\<close> the code also accepts.\<close>

datatype json =
    J_Null
  | J_Bool bool
  | J_Num float64
  | J_Number string
  | J_Str string
  | J_Arr "json list"
  | J_Obj "(string \<times> json) list"

fun json_type :: "json \<Rightarrow> string" where
  "json_type J_Null = ''<nil>''"
| "json_type (J_Bool _) = ''bool''"
| "json_type (J_Num _) = ''float64''"
| "json_type (J_Number _) = ''json.Number''"
| "json_type (J_Str _) = ''string''"
| "json_type (J_Arr _) = ''[]interface {}''"
| "json_type (J_Obj _) = ''map[string]interface {}''"

text \<open>
  \<open>int64(x)\<close> of a float: truncation towards zero; a value that does not fit (or a NaN or an
  infinity) gives the least integer, as on amd64.
\<close>

definition f64_exp :: "float64 \<Rightarrow> int" where "f64_exp x = (uint x div 2 ^ 52) mod 2048"
definition f64_mant :: "float64 \<Rightarrow> int" where "f64_mant x = uint x mod 2 ^ 52"
definition f64_neg :: "float64 \<Rightarrow> bool" where "f64_neg x \<longleftrightarrow> uint x div 2 ^ 63 = 1"

definition f64_to_int64 :: "float64 \<Rightarrow> int" where
  "f64_to_int64 x =
     (let e = f64_exp x;
          m = (if e = 0 then f64_mant x else f64_mant x + 2 ^ 52);
          v = (if e \<ge> 1075 then m * 2 ^ nat (e - 1075) else m div 2 ^ nat (1075 - e));
          s = (if f64_neg x then - v else v)
      in if e = 2047 \<or> s < min_int64 \<or> max_int64 < s then min_int64 else s)"

definition parse_int64 :: "string \<Rightarrow> int \<times> go_error option" where
  "parse_int64 s =
     (case atoi s of Some n \<Rightarrow> (n, None)
      | None \<Rightarrow>
        (let neg = (s \<noteq> [] \<and> hd s = CHR ''-'');
             ds = (if s \<noteq> [] \<and> (hd s = CHR ''-'' \<or> hd s = CHR ''+'') then tl s else s);
             pre = ''strconv.ParseInt: parsing '' @ go_quote s
         in if ds = [] \<or> (\<exists>c \<in> set ds. \<not> is_digit c)
            then (0, Some (Wrapped pre (Err ''invalid syntax'')))
            else (if neg then min_int64 else max_int64,
                  Some (Wrapped pre (Err ''value out of range'')))))"

fun to_int64 :: "json \<Rightarrow> int \<times> go_error option" where
  "to_int64 (J_Num x) = (f64_to_int64 x, None)"
| "to_int64 (J_Number s) = parse_int64 s"
| "to_int64 (J_Str s) = parse_int64 s"
| "to_int64 v = (0, Some (Err (''unsupported type '' @ json_type v)))"

definition to_int64_safe :: "json \<Rightarrow> int" where
  "to_int64_safe v = fst (to_int64 v)"

type_synonym float_parser = "string \<Rightarrow> float64 \<times> go_error option"

fun to_float_err :: "float_parser \<Rightarrow> json \<Rightarrow> float64 \<times> go_error option" where
  "to_float_err pf (J_Num x) = (x, None)"
| "to_float_err pf (J_Number s) = pf s"
| "to_float_err pf (J_Str s) = pf s"
| "to_float_err pf v = (0, Some (Err (''unsupported type '' @ json_type v)))"

definition to_float :: "float_parser \<Rightarrow> json \<Rightarrow> float64" where
  "to_float pf v = fst (to_float_err pf v)"

text \<open>A \<open>(value, error)\<close> pair as a result.\<close>

definition as_res :: "'a \<times> go_error option \<Rightarrow> 'a res" where
  "as_res p = (case snd p of None \<Rightarrow> Inr (fst p) | Some e \<Rightarrow> Inl e)"

lemma f64_to_int64_example: "f64_to_int64 0x4278E96F4F620000 = 1711929620000"
  by (simp add: f64_to_int64_def f64_exp_def f64_mant_def f64_neg_def Let_def min_int64_def max_int64_def)

end
