(* ===== verification/Backfill_Windows.thy ===== *)
theory Backfill_Windows
  imports Models
begin

text \<open>
  The pure core of \<open>internal/backfill/klines.go\<close>: a request is normalised and validated, its
  range is split at the starts of the UTC years (one database per year), an interval text is read
  as a duration, and the number of bars a window must hold is computed from it. Also the names of
  the database and the table the coverage check reads.
\<close>

record kline_request =
  rq_exchange :: string
  rq_market :: string
  rq_symbol :: string
  rq_interval :: string
  rq_start :: time
  rq_end :: time

record time_window =
  win_start :: time
  win_end :: time

definition win_year :: "time_window \<Rightarrow> int" where
  "win_year w = year_of (win_start w)"

definition normalize_kline_request :: "kline_request \<Rightarrow> kline_request" where
  "normalize_kline_request r =
     (let ex = norm_lower (rq_exchange r); iv = trim_space (rq_interval r)
      in r\<lparr>rq_exchange := (if ex = [] then ''binance'' else ex),
           rq_market := norm_lower (rq_market r),
           rq_symbol := norm_upper (rq_symbol r),
           rq_interval := (if iv = [] then ''1m'' else iv)\<rparr>)"

text \<open>
  \<open>intervalDuration\<close>: the last byte is the unit, the rest is \<open>strconv.Atoi\<close>. The products are
  64-bit and wrap around.
\<close>

definition interval_duration :: "string \<Rightarrow> duration res" where
  "interval_duration iv =
     (if length iv < 2 then Inl (Err (''invalid interval '' @ go_quote iv))
      else (case atoi (butlast iv) of
          None \<Rightarrow> Inl (Err (''invalid interval '' @ go_quote iv))
        | Some value \<Rightarrow>
          if value \<le> 0 then Inl (Err (''invalid interval '' @ go_quote iv))
          else if last iv = CHR ''s'' then Inr (dur_mul value second)
          else if last iv = CHR ''m'' then Inr (dur_mul value minute)
          else if last iv = CHR ''h'' then Inr (dur_mul value hour)
          else if last iv = CHR ''d'' then Inr (dur_mul (dur_mul value 24) hour)
          else if last iv = CHR ''w'' then Inr (dur_mul (dur_mul (dur_mul value 7) 24) hour)
          else if last iv = CHR ''M'' then Inr (dur_mul (dur_mul (dur_mul value 30) 24) hour)
          else Inl (Err (''invalid interval unit '' @ go_quote iv))))"

definition validate_kline_request :: "kline_request \<Rightarrow> go_error option" where
  "validate_kline_request r =
     (if rq_market r \<noteq> ''spot'' \<and> rq_market r \<noteq> ''futures'' then Some (Err ''market must be spot or futures'')
      else if rq_symbol r = [] then Some (Err ''symbol is required'')
      else if rq_interval r = [] then Some (Err ''interval is required'')
      else if \<not> rq_start r < rq_end r then Some (Err ''end must be after start'')
      else (case interval_duration (rq_interval r) of Inl e \<Rightarrow> Some e | Inr _ \<Rightarrow> None))"

definition expected_bar_count :: "time \<Rightarrow> time \<Rightarrow> string \<Rightarrow> int res" where
  "expected_bar_count s e iv =
     (case interval_duration iv of
        Inl er \<Rightarrow> Inl er
      | Inr dur \<Rightarrow>
        (let diff = time_sub e s
         in if diff < 0 then Inl (Err ''end must be >= start'') else go_div diff dur))"

definition covered_end_from_max_open_time :: "time \<Rightarrow> string \<Rightarrow> time res" where
  "covered_end_from_max_open_time maxo iv =
     (case interval_duration iv of Inl er \<Rightarrow> Inl er | Inr dur \<Rightarrow> Inr (time_add maxo dur))"

subsection \<open>Splitting a range by year\<close>

function split_loop :: "time \<Rightarrow> time \<Rightarrow> time_window list" where
  "split_loop cur e =
     (if cur < e
      then let next_year = year_start (year_of cur + 1);
               window_end = (if next_year < e then next_year else e)
           in \<lparr>win_start = cur, win_end = window_end\<rparr> # split_loop window_end e
      else [])"
  by pat_completeness auto
termination
proof (relation "measure (\<lambda>(cur, e). nat (e - cur))")
  fix cur e x xa :: int
  assume "cur < e" "x = year_start (year_of cur + 1)" "xa = (if x < e then x else e)"
  moreover have "cur < year_start (year_of cur + 1)" by (rule cal.yr_upper)
  ultimately show "((xa, e), cur, e) \<in> measure (\<lambda>(cur, e). nat (e - cur))" by auto
qed simp

declare split_loop.simps [simp del]

definition split_by_year :: "time \<Rightarrow> time \<Rightarrow> time_window list" where
  "split_by_year s e = (if \<not> s < e then [] else split_loop s e)"

subsection \<open>Names of the databases and tables the coverage check reads\<close>

definition database_for_year :: "string \<Rightarrow> string \<Rightarrow> int \<Rightarrow> string" where
  "database_for_year base exchange year =
     (let ex0 = norm_lower exchange; ex = (if ex0 = [] then ''binance'' else ex0);
          b0 = trim_space base; b1 = (if b0 = [] then ''{exchange}_{year}'' else b0);
          b2 = (if contains b1 ''{exchange}'' then replace_all b1 ''{exchange}'' ex else b1)
      in if contains b2 ''{year}'' then replace_all b2 ''{year}'' (itoa year)
         else b2 @ ''_'' @ itoa year)"

definition build_kline_table_name :: "string \<Rightarrow> string \<Rightarrow> string \<Rightarrow> string" where
  "build_kline_table_name market symbol interval =
     (let m = norm_lower market; m' = (if m \<noteq> ''futures'' then ''spot'' else m)
      in m' @ ''_klines_'' @ norm_lower symbol @ ''_'' @ norm_lower interval)"

subsection \<open>Rows of a REST answer\<close>

definition res_bind :: "'a res \<Rightarrow> ('a \<Rightarrow> 'b res) \<Rightarrow> 'b res" where
  "res_bind r f = (case r of Inl e \<Rightarrow> Inl e | Inr x \<Rightarrow> f x)"

definition wrap_err :: "string \<Rightarrow> 'a res \<Rightarrow> 'a res" where
  "wrap_err m r = (case r of Inl e \<Rightarrow> Inl (Wrapped m e) | Inr x \<Rightarrow> Inr x)"

definition rest_row_to_kline :: "float_parser \<Rightarrow> json list \<Rightarrow> string \<Rightarrow> string \<Rightarrow> string \<Rightarrow> kline res" where
  "rest_row_to_kline pf row symbol market interval =
     (if length row < 8
      then Inl (Err (''short row: need 8 fields, got '' @ itoa (int (length row))))
      else
        res_bind (wrap_err ''open time'' (as_res (to_int64 (row ! 0)))) (\<lambda>open_ms.
        res_bind (wrap_err ''close time'' (as_res (to_int64 (row ! 6)))) (\<lambda>close_ms.
        res_bind (as_res (to_float_err pf (row ! 1))) (\<lambda>open_v.
        res_bind (as_res (to_float_err pf (row ! 2))) (\<lambda>high_v.
        res_bind (as_res (to_float_err pf (row ! 3))) (\<lambda>low_v.
        res_bind (as_res (to_float_err pf (row ! 4))) (\<lambda>close_v.
        res_bind (as_res (to_float_err pf (row ! 5))) (\<lambda>vol.
        res_bind (as_res (to_float_err pf (row ! 7))) (\<lambda>qvol.
          Inr \<lparr>k_time = of_unix_milli open_ms, k_symbol = symbol, k_market = market,
               k_exchange = ''binance'', k_interval = interval,
               k_open_time = of_unix_milli open_ms, k_close_time = of_unix_milli close_ms,
               k_open = open_v, k_high = high_v, k_low = low_v, k_close = close_v,
               k_volume = vol, k_quote_volume = qvol, k_num_trades = 0\<rparr>)))))))))"

definition filter_klines_for_window :: "kline list \<Rightarrow> time_window \<Rightarrow> kline list" where
  "filter_klines_for_window ks w =
     filter (\<lambda>k. \<not> (k_open_time k < win_start w \<or> \<not> k_open_time k < win_end w)) ks"

subsection \<open>Lemmas: the windows of a range\<close>

lemma split_loop_done: "\<not> cur < e \<Longrightarrow> split_loop cur e = []"
  by (simp add: split_loop.simps)

lemma split_loop_step:
  "cur < e \<Longrightarrow> split_loop cur e =
     \<lparr>win_start = cur, win_end = min (year_start (year_of cur + 1)) e\<rparr>
       # split_loop (min (year_start (year_of cur + 1)) e) e"
  by (subst split_loop.simps) (simp add: Let_def min_def)

text \<open>
  The chain a window list has to be: it starts at \<open>s\<close>, ends at \<open>e\<close>, every window is not empty and
  lies in one year, and each window begins where the one before ends.
\<close>

fun window_chain :: "time \<Rightarrow> time \<Rightarrow> time_window list \<Rightarrow> bool" where
  "window_chain s e [] = (s = e)"
| "window_chain s e (w # ws) =
     (win_start w = s \<and> s < win_end w \<and> win_end w \<le> year_start (win_year w + 1)
      \<and> (ws = [] \<or> win_end w = year_start (win_year w + 1)) \<and> window_chain (win_end w) e ws)"

lemma split_loop_chain: "cur \<le> e \<Longrightarrow> window_chain cur e (split_loop cur e)"
proof (induction cur e rule: split_loop.induct)
  case (1 cur e)
  show ?case
  proof (cases "cur < e")
    case True
    let ?n = "min (year_start (year_of cur + 1)) e"
    have "window_chain ?n e (split_loop ?n e)"
    proof -
      let ?m = "if year_start (year_of cur + 1) < e then year_start (year_of cur + 1) else e"
      have m: "?m \<le> e" by simp
      have "window_chain ?m e (split_loop ?m e)" by (rule "1.IH" [OF True refl refl m])
      moreover have "?m = ?n" by (simp add: min_def)
      ultimately show ?thesis by (simp only:)
    qed
    moreover have "cur < ?n" using True cal.yr_upper [of cur] by simp
    moreover have "split_loop ?n e = [] \<or> ?n = year_start (year_of cur + 1)"
      by (auto simp: min_def split_loop_done)
    ultimately show ?thesis by (simp add: split_loop_step [OF True] win_year_def)
  next
    case False
    with "1.prems" show ?thesis by (simp add: split_loop_done)
  qed
qed

lemma window_chain_le: "window_chain s e ws \<Longrightarrow> s \<le> e"
  by (induction ws arbitrary: s) fastforce+

lemma window_chain_years:
  "window_chain s e ws \<Longrightarrow> w \<in> set ws \<Longrightarrow> win_start w \<le> t \<Longrightarrow> t < win_end w \<Longrightarrow> year_of t = win_year w"
proof (induction ws arbitrary: s)
  case (Cons v ws)
  then show ?case
    using cal.yr_same [of "win_start v" t] by (auto simp: win_year_def)
qed simp

lemma window_chain_bounds:
  "window_chain s e ws \<Longrightarrow> w \<in> set ws \<Longrightarrow> s \<le> win_start w \<and> win_start w < win_end w \<and> win_end w \<le> e"
proof (induction ws arbitrary: s)
  case (Cons v ws)
  then show ?case using window_chain_le [of "win_end v" e ws] by fastforce
qed simp

text \<open>The windows that hold an instant.\<close>

definition windows_at :: "time \<Rightarrow> time_window list \<Rightarrow> time_window list" where
  "windows_at t ws = filter (\<lambda>w. win_start w \<le> t \<and> t < win_end w) ws"

lemma windows_at_before: "window_chain s e ws \<Longrightarrow> t < s \<Longrightarrow> windows_at t ws = []"
  using window_chain_bounds [of s e ws] by (fastforce simp: windows_at_def filter_empty_conv)

lemma window_chain_once:
  "window_chain s e ws \<Longrightarrow> s \<le> t \<Longrightarrow> t < e \<Longrightarrow> length (windows_at t ws) = 1"
proof (induction ws arbitrary: s)
  case (Cons w ws)
  show ?case
  proof (cases "t < win_end w")
    case True
    then have "windows_at t ws = []" using Cons.prems by (auto intro: windows_at_before)
    with True Cons.prems show ?thesis by (simp add: windows_at_def)
  next
    case False
    with Cons.prems Cons.IH [of "win_end w"] show ?thesis by (simp add: windows_at_def)
  qed
qed simp

lemma window_chain_year_steps:
  "window_chain s e ws \<Longrightarrow> map win_year ws = map (\<lambda>i. year_of s + int i) [0..<length ws]"
proof (induction ws arbitrary: s)
  case (Cons w ws)
  have "map win_year ws = map (\<lambda>i. year_of s + int (Suc i)) [0..<length ws]"
  proof (cases "ws = []")
    case False
    then have "year_of (win_end w) = year_of s + 1" using Cons.prems by (auto simp: win_year_def)
    moreover have "map win_year ws = map (\<lambda>i. year_of (win_end w) + int i) [0..<length ws]"
      using Cons by simp
    ultimately show ?thesis by simp
  qed simp
  moreover have "[0..<length (w # ws)] = 0 # map Suc [0..<length ws]"
    by (simp add: map_Suc_upt upt_conv_Cons del: upt_Suc)
  moreover have "win_year w = year_of s" using Cons.prems by (simp add: win_year_def)
  ultimately show ?case by (simp add: o_def del: upt_Suc)
qed simp

lemma window_chain_last:
  "window_chain s e ws \<Longrightarrow> ws \<noteq> [] \<Longrightarrow> win_end (last ws) = e \<and> win_year (last ws) = year_of (e - 1)"
proof (induction ws arbitrary: s)
  case (Cons w ws)
  show ?case
  proof (cases "ws = []")
    case True
    then have "win_end w = e" "win_start w < e" "e \<le> year_start (year_of (win_start w) + 1)"
      using Cons.prems by (auto simp: win_year_def)
    then have "year_of (e - 1) = year_of (win_start w)" by (intro cal.yr_same) auto
    with True \<open>win_end w = e\<close> show ?thesis by (simp add: win_year_def)
  next
    case False
    moreover have "window_chain (win_end w) e ws" using Cons.prems by simp
    ultimately show ?thesis using Cons.IH [of "win_end w"] by simp
  qed
qed simp

lemma split_by_year_window_chain: "s < e \<Longrightarrow> window_chain s e (split_by_year s e)"
  by (simp add: split_by_year_def split_loop_chain)

lemma split_by_year_nonempty: "s < e \<Longrightarrow> split_by_year s e \<noteq> []"
  by (simp add: split_by_year_def split_loop_step)

lemma split_by_year_windows:
  "w \<in> set (split_by_year s e) \<Longrightarrow> s \<le> win_start w \<and> win_start w < win_end w \<and> win_end w \<le> e"
  using window_chain_bounds [OF split_by_year_window_chain, of s e w]
  by (cases "s < e") (auto simp: split_by_year_def)

lemma split_by_year_year:
  "w \<in> set (split_by_year s e) \<Longrightarrow> win_start w \<le> t \<Longrightarrow> t < win_end w \<Longrightarrow> year_of t = win_year w"
  using window_chain_years [OF split_by_year_window_chain, of s e w t]
  by (cases "s < e") (auto simp: split_by_year_def)

subsection \<open>Lemmas: durations\<close>

lemma dur_mul_exact: "0 \<le> n \<Longrightarrow> 0 \<le> d \<Longrightarrow> n * d \<le> max_int64 \<Longrightarrow> dur_mul n d = n * d"
  unfolding dur_mul_def by (rule wrap64_id) (auto simp: min_int64_def intro: order_trans [of _ 0])

text \<open>\<open>Time.Sub\<close> is exact on the windows of one year, far below its saturation at 292 years.\<close>

lemma time_sub_exact: "0 \<le> a - b \<Longrightarrow> a - b \<le> max_int64 \<Longrightarrow> time_sub a b = a - b"
  by (simp add: time_sub_def min_int64_def)

lemma go_div_exact: "0 \<le> a \<Longrightarrow> a \<le> max_int64 \<Longrightarrow> 0 < b \<Longrightarrow> go_div a b = Inr (a div b)"
proof -
  assume a: "0 \<le> a" "a \<le> max_int64" and b: "0 < b"
  have "0 \<le> a div b" "a div b \<le> a" using a b zdiv_mono2 [of a 1 b] by (simp_all add: pos_imp_zdiv_nonneg_iff)
  then have "wrap64 (a div b) = a div b" using a by (intro wrap64_id) (auto simp: min_int64_def)
  with a b show ?thesis by (cases "a = 0") (auto simp: go_div_def wrap64_def)
qed

lemma expected_bar_count_exact:
  assumes "interval_duration iv = Inr dur" "0 < dur" "s \<le> e" "e - s \<le> max_int64"
  shows "expected_bar_count s e iv = Inr ((e - s) div dur)"
  using assms time_sub_exact [of e s] go_div_exact [of "e - s" dur]
  by (simp add: expected_bar_count_def Let_def)

subsection \<open>Properties\<close>

text \<open>
  C21. The windows of a range are a partition of it by year: every window is inside the range and
  not empty, and an instant of the range lies in exactly one window, the one of its own UTC year,
  so a bar is looked up in, and written to, exactly one year database.
\<close>

theorem split_by_year_partition:
  assumes "s \<le> t" and "t < e"
  shows "(\<exists>w. windows_at t (split_by_year s e) = [w] \<and> win_year w = year_of t)
    \<and> (\<forall>w \<in> set (split_by_year s e). s \<le> win_start w \<and> win_start w < win_end w \<and> win_end w \<le> e)"
proof
  have "length (windows_at t (split_by_year s e)) = 1"
    using window_chain_once [OF split_by_year_window_chain] assms by fastforce
  then obtain w where w: "windows_at t (split_by_year s e) = [w]" by (auto simp: length_Suc_conv)
  then have "w \<in> set (windows_at t (split_by_year s e))" by simp
  then have "w \<in> set (split_by_year s e)" "win_start w \<le> t" "t < win_end w"
    by (auto simp: windows_at_def)
  then show "\<exists>w. windows_at t (split_by_year s e) = [w] \<and> win_year w = year_of t"
    using w split_by_year_year by auto
qed (use split_by_year_windows in blast)

theorem split_by_year_partition_witness:
  "\<exists>w. windows_at 1767225600000000000 (split_by_year 1767225540000000000 1767225720000000000) = [w]
     \<and> win_year w = 2026"
  using split_by_year_partition [of 1767225540000000000 1767225600000000000 1767225720000000000]
    year_of_examples(4) by simp

text \<open>
  A non-empty range gives one window for each year it touches, in order and without gaps:
  the years are consecutive from the year of the start to the year of the last instant before
  the end, and the last window ends where the range ends. The loop therefore ends after that
  many rounds.
\<close>

theorem split_by_year_years:
  assumes "s < e"
  shows "map win_year (split_by_year s e)
      = map (\<lambda>i. year_of s + int i) [0..<nat (year_of (e - 1) - year_of s + 1)]
    \<and> win_end (last (split_by_year s e)) = e"
proof
  let ?ws = "split_by_year s e"
  note chain = split_by_year_window_chain [OF assms]
  note ne = split_by_year_nonempty [OF assms]
  note steps = window_chain_year_steps [OF chain]
  have "win_year (last ?ws) = map win_year ?ws ! (length ?ws - 1)" using ne by (simp add: last_conv_nth)
  also have "\<dots> = year_of s + int (length ?ws - 1)" using steps ne by simp
  finally have "int (length ?ws) = year_of (e - 1) - year_of s + 1"
    using window_chain_last [OF chain ne] ne by (simp add: of_nat_diff Suc_leI)
  then show "map win_year ?ws = map (\<lambda>i. year_of s + int i) [0..<nat (year_of (e - 1) - year_of s + 1)]"
    using steps by (metis nat_int)
  show "win_end (last ?ws) = e" using window_chain_last [OF chain ne] by simp
qed

theorem split_by_year_years_witness:
  "map win_year (split_by_year 1767225540000000000 1767225720000000000) = [2025, 2026]"
  using split_by_year_years [of 1767225540000000000 1767225720000000000]
  by (simp add: year_of_def year_of_day_def Let_def day_ns_def unix_epoch_day_def upt_conv_Cons)

text \<open>
  The products of \<open>intervalDuration\<close> are not checked for overflow: an interval of
  \<open>2^53\<close> minutes passes the validation of a request, is read as the duration 0, and the
  coverage check of that request divides by it, which panics.
\<close>

theorem interval_overflow_panics:
  "interval_duration ''9007199254740992m'' = Inr 0
   \<and> validate_kline_request \<lparr>rq_exchange = ''binance'', rq_market = ''spot'', rq_symbol = ''BTCUSDT'',
        rq_interval = ''9007199254740992m'', rq_start = 0, rq_end = 1\<rparr> = None
   \<and> expected_bar_count 0 1 ''9007199254740992m'' = Inl Divide_Panic"
proof -
  have d: "interval_duration ''9007199254740992m'' = Inr 0"
    by (simp add: interval_duration_def atoi_def digits_val_def digit_val_def is_digit_def Let_def
        dur_mul_def minute_def wrap64_def)
  then show ?thesis
    by (simp add: validate_kline_request_def expected_bar_count_def Let_def go_div_def time_sub_def
        max_int64_def min_int64_def)
qed

end
