(* ===== verification/Backfill_Coverage.thy ===== *)
theory Backfill_Coverage
  imports Backfill_Windows
begin

text \<open>
  \<open>internal/backfill/coverage_segments.go\<close> and the merging of segments in \<open>klines.go\<close>: the open
  times of a batch of bars are deduplicated and sorted, then cut into runs of bars that follow each
  other at the interval's step inside one UTC year. A segment \<open>[start, end)\<close> with \<open>n\<close> rows stands for
  the \<open>n\<close> open times \<open>start, start + step, ...\<close>; \<open>seg_times\<close> spells them out, and the lemmas show that
  the segments of a batch are exactly its open times, cut as coarsely as the year boundary allows.
\<close>

record coverage_segment =
  cs_exchange :: string
  cs_market :: string
  cs_symbol :: string
  cs_interval :: string
  cs_year :: int
  cs_start :: time
  cs_end :: time
  cs_rows :: int
  cs_source :: string

definition coverage_segment_source :: string where
  "coverage_segment_source = ''historical_backfill''"

text \<open>\<open>coverageIntervalDuration\<close>: as \<open>intervalDuration\<close>, on the trimmed text, without weeks and months.\<close>

definition coverage_interval_duration :: "string \<Rightarrow> duration res" where
  "coverage_interval_duration iv0 =
     (let iv = trim_space iv0
      in if length iv < 2 then Inl (Err (''invalid interval '' @ go_quote iv))
      else (case atoi (butlast iv) of
          None \<Rightarrow> Inl (Err (''invalid interval '' @ go_quote iv))
        | Some value \<Rightarrow>
          if value \<le> 0 then Inl (Err (''invalid interval '' @ go_quote iv))
          else if last iv = CHR ''s'' then Inr (dur_mul value second)
          else if last iv = CHR ''m'' then Inr (dur_mul value minute)
          else if last iv = CHR ''h'' then Inr (dur_mul value hour)
          else if last iv = CHR ''d'' then Inr (dur_mul (dur_mul value 24) hour)
          else Inl (Err (''invalid interval unit '' @ go_quote iv))))"

definition new_coverage_segment :: "coverage_segment \<Rightarrow> time \<Rightarrow> time \<Rightarrow> int \<Rightarrow> coverage_segment" where
  "new_coverage_segment base start_at end_at n =
     base\<lparr>cs_year := year_of start_at, cs_start := start_at, cs_end := end_at, cs_rows := n\<rparr>"

text \<open>The first loop: skip zero open times, keep the first bar of each \<open>UnixNano\<close> key.\<close>

fun collect_open_times :: "kline list \<Rightarrow> int list \<Rightarrow> time list" where
  "collect_open_times [] seen = []"
| "collect_open_times (row # rows) seen =
     (let t = k_open_time row; key = unix_nano t
      in if is_zero t then collect_open_times rows seen
         else if key \<in> set seen then collect_open_times rows seen
         else t # collect_open_times rows (key # seen))"

text \<open>The second loop: \<open>start\<close>, \<open>prev\<close> and \<open>count\<close> describe the run being built.\<close>

fun segment_loop :: "coverage_segment \<Rightarrow> duration \<Rightarrow> time \<Rightarrow> time \<Rightarrow> int \<Rightarrow> time list \<Rightarrow> coverage_segment list" where
  "segment_loop base step start prev n [] = [new_coverage_segment base start (time_add prev step) n]"
| "segment_loop base step start prev n (current # rest) =
     (if current = time_add prev step \<and> year_of current = year_of prev
      then segment_loop base step start current (n + 1) rest
      else new_coverage_segment base start (time_add prev step) n
           # segment_loop base step current current 1 rest)"

definition segment_base :: "string \<Rightarrow> string \<Rightarrow> string \<Rightarrow> string \<Rightarrow> coverage_segment" where
  "segment_base exchange market symbol interval =
     \<lparr>cs_exchange = norm_lower exchange, cs_market = norm_lower market, cs_symbol = norm_upper symbol,
      cs_interval = trim_space interval, cs_year = 0, cs_start = zero_time, cs_end = zero_time,
      cs_rows = 0, cs_source = coverage_segment_source\<rparr>"

definition build_coverage_segments ::
  "string \<Rightarrow> string \<Rightarrow> string \<Rightarrow> string \<Rightarrow> kline list \<Rightarrow> coverage_segment list res" where
  "build_coverage_segments exchange market symbol interval rows =
     (case coverage_interval_duration interval of
        Inl e \<Rightarrow> Inl e
      | Inr step \<Rightarrow>
        if rows = [] then Inr []
        else (case sort (collect_open_times rows []) of
            [] \<Rightarrow> Inr []
          | t # ts \<Rightarrow> Inr (segment_loop (segment_base exchange market symbol interval) step t t 1 ts)))"

definition can_merge :: "coverage_segment \<Rightarrow> coverage_segment \<Rightarrow> bool" where
  "can_merge a b \<longleftrightarrow> cs_exchange a = cs_exchange b \<and> cs_market a = cs_market b
     \<and> cs_symbol a = cs_symbol b \<and> cs_interval a = cs_interval b \<and> cs_year a = cs_year b
     \<and> cs_source a = cs_source b \<and> cs_end a = cs_start b"

text \<open>\<open>appendCoverageSegments\<close>, one segment at a time: extend the last one or add a new one.\<close>

definition append_segment :: "coverage_segment list \<Rightarrow> coverage_segment \<Rightarrow> coverage_segment list" where
  "append_segment dst seg =
     (if dst \<noteq> [] \<and> can_merge (last dst) seg
      then butlast dst @ [(last dst)\<lparr>cs_end := cs_end seg, cs_rows := wrap64 (cs_rows (last dst) + cs_rows seg)\<rparr>]
      else dst @ [seg])"

definition append_coverage_segments :: "coverage_segment list \<Rightarrow> coverage_segment list \<Rightarrow> coverage_segment list" where
  "append_coverage_segments dst src = foldl append_segment dst src"

subsection \<open>What a segment stands for\<close>

definition seg_times :: "duration \<Rightarrow> coverage_segment \<Rightarrow> time list" where
  "seg_times step seg = map (\<lambda>i. cs_start seg + int i * step) [0..<nat (cs_rows seg)]"

text \<open>
  A segment is well formed for a step when it has at least one row, its end is the step after its
  last row, and all its rows are in its year.
\<close>

definition wf_segment :: "duration \<Rightarrow> coverage_segment \<Rightarrow> bool" where
  "wf_segment step seg \<longleftrightarrow> 1 \<le> cs_rows seg \<and> cs_end seg = cs_start seg + cs_rows seg * step
     \<and> (\<forall>t \<in> set (seg_times step seg). year_of t = cs_year seg)"

definition same_stream :: "coverage_segment \<Rightarrow> coverage_segment \<Rightarrow> bool" where
  "same_stream a b \<longleftrightarrow> cs_exchange a = cs_exchange b \<and> cs_market a = cs_market b
     \<and> cs_symbol a = cs_symbol b \<and> cs_interval a = cs_interval b \<and> cs_source a = cs_source b"

lemma seg_times_new [simp]:
  "seg_times step (new_coverage_segment base s e n) = map (\<lambda>i. s + int i * step) [0..<nat n]"
  by (simp add: seg_times_def new_coverage_segment_def)

lemma seg_times_snoc:
  "1 \<le> n \<Longrightarrow> map (\<lambda>i. s + int i * step) [0..<nat (n + 1)]
     = map (\<lambda>i. s + int i * step) [0..<nat n] @ [s + n * step]"
  by (simp add: nat_add_distrib)

lemma segment_loop_extend:
  "current = time_add prev step \<and> year_of current = year_of prev \<Longrightarrow>
   segment_loop base step start prev n (current # rest) = segment_loop base step start current (n + 1) rest"
  by (subst segment_loop.simps(2)) (rule if_P)

lemma segment_loop_cut:
  "\<not> (current = time_add prev step \<and> year_of current = year_of prev) \<Longrightarrow>
   segment_loop base step start prev n (current # rest)
     = new_coverage_segment base start (time_add prev step) n # segment_loop base step current current 1 rest"
  by (subst segment_loop.simps(2)) (rule if_not_P)

declare segment_loop.simps(2) [simp del]

text \<open>The loop invariant: the run so far is \<open>n\<close> rows from \<open>start\<close>, the last one at \<open>prev\<close>.\<close>

lemma segment_loop_times:
  "1 \<le> n \<Longrightarrow> prev = start + (n - 1) * step \<Longrightarrow>
   concat (map (seg_times step) (segment_loop base step start prev n ts))
     = map (\<lambda>i. start + int i * step) [0..<nat n] @ ts"
proof (induction base step start prev n ts rule: segment_loop.induct)
  case (2 base step start prev n current rest)
  show ?case
  proof (cases "current = time_add prev step \<and> year_of current = year_of prev")
    case True
    then have "current = start + n * step" using "2.prems" by (simp add: time_add_def algebra_simps)
    then show ?thesis
      using "2.IH"(1) [OF True] "2.prems" seg_times_snoc [of n start step]
      unfolding segment_loop_extend [OF True] by simp
  next
    case False
    then show ?thesis using "2.IH"(2) [OF False] by (simp add: segment_loop_cut [OF False])
  qed
qed simp

lemma segment_loop_wf:
  "1 \<le> n \<Longrightarrow> prev = start + (n - 1) * step \<Longrightarrow>
   (\<forall>i < nat n. year_of (start + int i * step) = year_of start) \<Longrightarrow>
   seg \<in> set (segment_loop base step start prev n ts) \<Longrightarrow> wf_segment step seg \<and> same_stream seg base"
proof (induction base step start prev n ts rule: segment_loop.induct)
  case (1 base step start prev n)
  then show ?case
    by (auto simp: wf_segment_def same_stream_def new_coverage_segment_def time_add_def seg_times_def algebra_simps)
next
  case (2 base step start prev n current rest)
  have closed: "wf_segment step (new_coverage_segment base start (time_add prev step) n)
      \<and> same_stream (new_coverage_segment base start (time_add prev step) n) base"
    using "2.prems"
    by (auto simp: wf_segment_def same_stream_def new_coverage_segment_def time_add_def seg_times_def algebra_simps)
  show ?case
  proof (cases "current = time_add prev step \<and> year_of current = year_of prev")
    case True
    then have cur: "current = start + n * step" using "2.prems" by (simp add: time_add_def algebra_simps)
    have "year_of prev = year_of start"
      using "2.prems"(1-3) by (auto dest: spec [of _ "nat (n - 1)"])
    then have "\<forall>i < nat (n + 1). year_of (start + int i * step) = year_of start"
      using "2.prems" True cur by (auto simp: less_Suc_eq nat_add_distrib)
    then show ?thesis using "2.IH"(1) [OF True] "2.prems"(1,4) cur unfolding segment_loop_extend [OF True] by simp
  next
    case False
    then show ?thesis using "2.IH"(2) [OF False] "2.prems"(4) closed unfolding segment_loop_cut [OF False] by auto
  qed
qed

text \<open>Two neighbours are never mergeable: a run is cut only at a gap or at a year boundary.\<close>

lemma segment_loop_hd:
  "segment_loop base step start prev n ts \<noteq> [] \<and> cs_start (hd (segment_loop base step start prev n ts)) = start
     \<and> cs_year (hd (segment_loop base step start prev n ts)) = year_of start"
  by (induction base step start prev n ts rule: segment_loop.induct)
    (auto simp: new_coverage_segment_def segment_loop.simps(2))

lemma successively_Cons_hd:
  "ys \<noteq> [] \<Longrightarrow> successively P (y # ys) \<longleftrightarrow> P y (hd ys) \<and> successively P ys"
  by (cases ys) auto

lemma segment_loop_maximal:
  "year_of prev = year_of start \<Longrightarrow>
   successively (\<lambda>a b. \<not> can_merge a b) (segment_loop base step start prev n ts)"
proof (induction base step start prev n ts rule: segment_loop.induct)
  case (2 base step start prev n current rest)
  show ?case
  proof (cases "current = time_add prev step \<and> year_of current = year_of prev")
    case True
    then show ?thesis using "2.IH"(1) [OF True] "2.prems" True unfolding segment_loop_extend [OF True] by simp
  next
    case False
    let ?rest = "segment_loop base step current current 1 rest"
    have "\<not> can_merge (new_coverage_segment base start (time_add prev step) n) (hd ?rest)"
      using False "2.prems" segment_loop_hd [of base step current current 1 rest]
      by (auto simp: can_merge_def new_coverage_segment_def)
    then show ?thesis unfolding segment_loop_cut [OF False]
      using "2.IH"(2) [OF False] segment_loop_hd [of base step current current 1 rest]
      by (simp add: successively_Cons_hd)
  qed
qed simp

subsection \<open>Merging\<close>

lemma seg_times_merge:
  assumes "wf_segment step a" "wf_segment step b" "cs_end a = cs_start b"
  shows "map (\<lambda>i. cs_start a + int i * step) [0..<nat (cs_rows a + cs_rows b)] = seg_times step a @ seg_times step b"
proof -
  have n: "nat (cs_rows a + cs_rows b) = nat (cs_rows a) + nat (cs_rows b)"
    using assms by (simp add: wf_segment_def nat_add_distrib)
  have "[0..<nat (cs_rows a) + nat (cs_rows b)]
      = [0..<nat (cs_rows a)] @ map (\<lambda>i. i + nat (cs_rows a)) [0..<nat (cs_rows b)]"
    using upt_add_eq_append [of 0 "nat (cs_rows a)" "nat (cs_rows b)"]
    unfolding map_add_upt by (simp add: add.commute [of "nat (cs_rows b)"])
  then show ?thesis
    using assms by (simp add: n seg_times_def wf_segment_def o_def algebra_simps)
qed

definition total_rows :: "coverage_segment list \<Rightarrow> int" where
  "total_rows segs = sum_list (map cs_rows segs)"

lemma total_rows_simps [simp]:
  "total_rows [] = 0" "total_rows (s # ss) = cs_rows s + total_rows ss"
  "total_rows (ss @ ts) = total_rows ss + total_rows ts"
  by (simp_all add: total_rows_def)

lemma total_rows_nonneg: "\<forall>s \<in> set segs. wf_segment step s \<Longrightarrow> 0 \<le> total_rows segs"
  by (induction segs) (auto simp: wf_segment_def)

lemma append_segment_cases:
  assumes "\<forall>s \<in> set dst. wf_segment step s" "wf_segment step seg"
    "total_rows dst + cs_rows seg \<le> max_int64"
  shows "concat (map (seg_times step) (append_segment dst seg))
       = concat (map (seg_times step) dst) @ seg_times step seg
    \<and> (\<forall>s \<in> set (append_segment dst seg). wf_segment step s)
    \<and> total_rows (append_segment dst seg) = total_rows dst + cs_rows seg"
proof (cases "dst \<noteq> [] \<and> can_merge (last dst) seg")
  case True
  define pre a where "pre = butlast dst" and "a = last dst"
  have dst: "dst = pre @ [a]" using True by (simp add: pre_def a_def)
  have wf: "wf_segment step a" "wf_segment step seg" and pre: "\<forall>s \<in> set pre. wf_segment step s"
    using assms dst by auto
  have m: "cs_end a = cs_start seg" "cs_year a = cs_year seg" using True by (auto simp: a_def can_merge_def)
  have rows: "wrap64 (cs_rows a + cs_rows seg) = cs_rows a + cs_rows seg"
    using wf total_rows_nonneg [OF pre] assms(3)
    by (intro wrap64_id) (auto simp: dst wf_segment_def min_int64_def)
  define ab where "ab = a\<lparr>cs_end := cs_end seg, cs_rows := cs_rows a + cs_rows seg\<rparr>"
  have eq: "append_segment dst seg = pre @ [ab]"
    using True by (simp add: append_segment_def ab_def rows flip: pre_def a_def)
  have times: "seg_times step ab = seg_times step a @ seg_times step seg"
    using seg_times_merge [OF wf m(1)] by (simp add: ab_def seg_times_def)
  have "wf_segment step ab"
    using wf m times by (auto simp: wf_segment_def ab_def algebra_simps)
  then show ?thesis using times pre unfolding eq by (simp add: dst ab_def)
next
  case False
  with assms show ?thesis by (auto simp: append_segment_def)
qed

lemma append_coverage_segments_times:
  assumes "\<forall>s \<in> set dst. wf_segment step s" "\<forall>s \<in> set src. wf_segment step s"
    "total_rows dst + total_rows src \<le> max_int64"
  shows "concat (map (seg_times step) (append_coverage_segments dst src))
       = concat (map (seg_times step) dst) @ concat (map (seg_times step) src)
    \<and> (\<forall>s \<in> set (append_coverage_segments dst src). wf_segment step s)
    \<and> total_rows (append_coverage_segments dst src) = total_rows dst + total_rows src"
  using assms
proof (induction src arbitrary: dst)
  case (Cons seg src)
  have "0 \<le> total_rows src" using Cons.prems by (intro total_rows_nonneg) auto
  then have step: "concat (map (seg_times step) (append_segment dst seg))
       = concat (map (seg_times step) dst) @ seg_times step seg
    \<and> (\<forall>s \<in> set (append_segment dst seg). wf_segment step s)
    \<and> total_rows (append_segment dst seg) = total_rows dst + cs_rows seg"
    using Cons.prems by (intro append_segment_cases) auto
  then show ?case
    using Cons.IH [of "append_segment dst seg"] Cons.prems by (simp add: append_coverage_segments_def)
qed (simp add: append_coverage_segments_def)

subsection \<open>The open times of a batch\<close>

definition batch_times :: "kline list \<Rightarrow> time set" where
  "batch_times rows = {t \<in> k_open_time ` set rows. \<not> is_zero t}"

text \<open>Instants whose \<open>UnixNano\<close> does not wrap: the years 1678 to 2261.\<close>

definition nano_range :: "time \<Rightarrow> bool" where
  "nano_range t \<longleftrightarrow> min_int64 \<le> t \<and> t \<le> max_int64"

lemma collect_open_times_set:
  "\<forall>t \<in> batch_times rows. nano_range t \<Longrightarrow>
   set (collect_open_times rows seen) = {t \<in> batch_times rows. t \<notin> set seen}"
proof (induction rows seen rule: collect_open_times.induct)
  case (2 row rows seen)
  let ?t = "k_open_time row"
  have key: "\<not> is_zero ?t \<Longrightarrow> unix_nano ?t = ?t"
    using "2.prems" by (auto simp: batch_times_def nano_range_def unix_nano_def wrap64_id)
  have rest: "\<forall>t \<in> batch_times rows. nano_range t" using "2.prems" by (auto simp: batch_times_def)
  consider "is_zero ?t" | "\<not> is_zero ?t" "?t \<in> set seen" | "\<not> is_zero ?t" "?t \<notin> set seen" by blast
  then show ?case
  proof cases
    case 1
    then show ?thesis using "2.IH"(1) [OF refl refl 1 rest] by (auto simp: batch_times_def)
  next
    case 2
    then show ?thesis using "2.IH"(2) [OF refl refl 2(1) _ rest] key by (auto simp: batch_times_def Let_def)
  next
    case 3
    then show ?thesis using "2.IH"(3) [OF refl refl 3(1) _ rest] key by (auto simp: batch_times_def Let_def)
  qed
qed (simp add: batch_times_def)

lemma collect_open_times_nano:
  "distinct (map unix_nano (collect_open_times rows seen)) \<and> unix_nano ` set (collect_open_times rows seen) \<inter> set seen = {}"
  by (induction rows seen rule: collect_open_times.induct) (auto simp: Let_def)

lemma collect_open_times_distinct: "distinct (collect_open_times rows seen)"
  using collect_open_times_nano [of rows seen] by (simp add: distinct_map)

lemma finite_batch_times [simp]: "finite (batch_times rows)"
  by (simp add: batch_times_def)

lemma sort_collect_open_times:
  "\<forall>t \<in> batch_times rows. nano_range t \<Longrightarrow>
   sort (collect_open_times rows []) = sorted_list_of_set (batch_times rows)"
  using collect_open_times_set [of rows "[]"] collect_open_times_distinct [of rows "[]"]
  by (intro sorted_distinct_set_unique) simp_all

lemma build_coverage_segments_cases:
  assumes "build_coverage_segments exchange market symbol interval rows = Inr segs"
    and "coverage_interval_duration interval = Inr step"
  shows "concat (map (seg_times step) segs) = sort (collect_open_times rows [])
    \<and> (\<forall>s \<in> set segs. wf_segment step s \<and> same_stream s (segment_base exchange market symbol interval))
    \<and> successively (\<lambda>a b. \<not> can_merge a b) segs"
proof (cases "sort (collect_open_times rows [])")
  case Nil
  then show ?thesis using assms
    by (cases rows) (auto simp: build_coverage_segments_def split: if_splits)
next
  case (Cons t ts)
  let ?base = "segment_base exchange market symbol interval"
  have "rows \<noteq> []" using Cons by auto
  then have segs: "segs = segment_loop ?base step t t 1 ts"
    using assms Cons by (simp add: build_coverage_segments_def)
  have "concat (map (seg_times step) segs) = t # ts"
    using segment_loop_times [of 1 t t step ?base ts] by (simp add: segs)
  moreover have "\<forall>s \<in> set segs. wf_segment step s \<and> same_stream s ?base"
    using segment_loop_wf [of 1 t t step _ ?base ts] by (simp add: segs)
  ultimately show ?thesis using Cons segment_loop_maximal [of t t ?base step 1 ts] by (simp add: segs)
qed

lemma build_coverage_segments_total:
  assumes "\<forall>s \<in> set segs. wf_segment step s"
  shows "total_rows segs = int (length (concat (map (seg_times step) segs)))"
  using assms by (induction segs) (auto simp: seg_times_def wf_segment_def)

subsection \<open>Properties\<close>

text \<open>
  C20. The segments of a batch are exactly its bars: the open times the segments stand for, in
  order, are the sorted distinct non-zero open times of the rows (whatever the order and the
  duplicates of the answer); every segment lies in one year and ends one step after its last row;
  and no two neighbours could be merged, so a cut is a gap or a year boundary.
\<close>

theorem build_coverage_segments_exact:
  assumes "coverage_interval_duration interval = Inr step"
    and "\<forall>t \<in> batch_times rows. nano_range t"
  shows "\<exists>segs. build_coverage_segments exchange market symbol interval rows = Inr segs
    \<and> concat (map (seg_times step) segs) = sorted_list_of_set (batch_times rows)
    \<and> (\<forall>s \<in> set segs. wf_segment step s)
    \<and> successively (\<lambda>a b. \<not> can_merge a b) segs
    \<and> total_rows segs = int (card (batch_times rows))"
proof -
  obtain segs where segs: "build_coverage_segments exchange market symbol interval rows = Inr segs"
    using assms(1)
    by (cases "rows = []"; cases "sort (collect_open_times rows [])") (auto simp: build_coverage_segments_def)
  note parts = build_coverage_segments_cases [OF segs assms(1)]
  then show ?thesis
    using segs build_coverage_segments_total [of segs step] sort_collect_open_times [OF assms(2)]
    by auto
qed

definition bar_at :: "time \<Rightarrow> kline" where
  "bar_at t = \<lparr>k_time = t, k_symbol = ''BTCUSDT'', k_market = ''futures'', k_exchange = ''binance'',
     k_interval = ''1m'', k_open_time = t, k_close_time = t + 59999000000, k_open = 0, k_high = 0,
     k_low = 0, k_close = 0, k_volume = 0, k_quote_volume = 0, k_num_trades = 0\<rparr>"

lemma one_minute_step: "coverage_interval_duration ''1m'' = Inr minute"
  by (simp add: coverage_interval_duration_def string_defs is_space_def atoi_def digits_val_def
      digit_val_def is_digit_def Let_def dur_mul_def minute_def wrap64_def)

text \<open>The gap test of the source: bars at minutes 0, 1 and 3, out of order, with a duplicate.\<close>

theorem build_coverage_segments_exact_witness:
  "\<exists>segs. build_coverage_segments ''binance'' ''futures'' ''BTCUSDT'' ''1m''
      (map bar_at [1767225660000000000, 1767225600000000000, 1767225660000000000, 1767225780000000000])
      = Inr segs \<and> total_rows segs = 3"
proof -
  let ?rows = "map bar_at [1767225660000000000, 1767225600000000000, 1767225660000000000, 1767225780000000000]"
  have t: "batch_times ?rows = {1767225600000000000, 1767225660000000000, 1767225780000000000}"
    by (auto simp: batch_times_def bar_at_def is_zero_def zero_time_def)
  then have "\<forall>t \<in> batch_times ?rows. nano_range t"
    by (simp add: nano_range_def min_int64_def max_int64_def)
  from build_coverage_segments_exact [OF one_minute_step this, of "''binance''" "''futures''" "''BTCUSDT''"]
  show ?thesis unfolding t by auto
qed

text \<open>
  Appending segments page by page loses nothing: the merged list stands for the open times of
  the old list followed by those of the new one, with the same number of rows, and stays well
  formed, whatever neighbours were merged (as long as the row counts fit 64 bits).
\<close>

theorem append_coverage_segments_exact:
  assumes "\<forall>s \<in> set dst. wf_segment step s" and "\<forall>s \<in> set src. wf_segment step s"
    and "total_rows dst + total_rows src \<le> max_int64"
  shows "concat (map (seg_times step) (append_coverage_segments dst src))
      = concat (map (seg_times step) dst) @ concat (map (seg_times step) src)
    \<and> total_rows (append_coverage_segments dst src) = total_rows dst + total_rows src
    \<and> (\<forall>s \<in> set (append_coverage_segments dst src). wf_segment step s)"
  using append_coverage_segments_times [OF assms] by blast

definition minute_segment :: "time \<Rightarrow> int \<Rightarrow> coverage_segment" where
  "minute_segment t n = \<lparr>cs_exchange = ''binance'', cs_market = ''futures'', cs_symbol = ''BTCUSDT'',
     cs_interval = ''1m'', cs_year = year_of t, cs_start = t, cs_end = t + n * minute, cs_rows = n,
     cs_source = coverage_segment_source\<rparr>"

theorem append_coverage_segments_exact_witness:
  "append_coverage_segments [minute_segment 1767225600000000000 2] [minute_segment 1767225720000000000 2]
     = [minute_segment 1767225600000000000 4]
   \<and> total_rows (append_coverage_segments [minute_segment 1767225600000000000 2]
        [minute_segment 1767225720000000000 2]) = 4"
proof
  have y: "year_of 1767225600000000000 = 2026" "year_of 1767225660000000000 = 2026"
    "year_of 1767225720000000000 = 2026" "year_of 1767225780000000000 = 2026"
    by (simp_all add: year_of_def year_of_day_def Let_def day_ns_def unix_epoch_day_def)
  show "append_coverage_segments [minute_segment 1767225600000000000 2] [minute_segment 1767225720000000000 2]
     = [minute_segment 1767225600000000000 4]"
    by (simp add: append_coverage_segments_def append_segment_def can_merge_def minute_segment_def y
        minute_def wrap64_def)
  let ?a = "[minute_segment 1767225600000000000 2]" and ?b = "[minute_segment 1767225720000000000 2]"
  have two: "nat 2 = Suc (Suc 0)" by simp
  have wf: "\<forall>s \<in> set ?a. wf_segment minute s" "\<forall>s \<in> set ?b. wf_segment minute s"
    by (simp_all add: wf_segment_def minute_segment_def seg_times_def y minute_def two del: nat_numeral)
  have rows: "total_rows ?a + total_rows ?b = 4" by (simp add: minute_segment_def)
  then have "total_rows ?a + total_rows ?b \<le> max_int64" by (simp add: max_int64_def)
  from append_coverage_segments_exact [OF wf this]
  show "total_rows (append_coverage_segments ?a ?b) = 4" using rows by presburger
qed

end
