(* ===== verification/Storage_Names.thy ===== *)
theory Storage_Names
  imports Backfill_Windows
begin

text \<open>
  The names of \<open>internal/storage\<close>: tables (\<open>timescale.go\<close>) and year databases
  (\<open>write_router.go\<close>), and how they relate to the names \<open>internal/backfill\<close> computes on its own
  for the coverage check. Symbols are ASCII: of the bytes of other letters, which the code keeps in
  table names, the model keeps none.
\<close>

definition normalize_market :: "string \<Rightarrow> string" where
  "normalize_market market = (let m = norm_lower market in if m \<noteq> ''futures'' then ''spot'' else m)"

definition normalize_symbol_for_table :: "string \<Rightarrow> string" where
  "normalize_symbol_for_table symbol =
     (let b = filter (\<lambda>c. is_letter c \<or> is_digit c) (norm_lower symbol)
      in if b = [] then ''unknown'' else b)"

definition normalize_symbol_for_write :: "string \<Rightarrow> string" where
  "normalize_symbol_for_write symbol = norm_upper symbol"

definition normalize_symbol_for_legacy_table :: "string \<Rightarrow> string" where
  "normalize_symbol_for_legacy_table symbol = norm_upper symbol"

definition build_table_name :: "string \<Rightarrow> string \<Rightarrow> string \<Rightarrow> string \<Rightarrow> string" where
  "build_table_name market data_type symbol interval =
     (let m = normalize_market market; s = normalize_symbol_for_table symbol
      in if data_type = ''klines'' \<and> interval \<noteq> []
         then m @ ''_'' @ data_type @ ''_'' @ s @ ''_'' @ to_lower interval
         else m @ ''_'' @ data_type @ ''_'' @ s)"

definition build_symbol_year_table_name :: "string \<Rightarrow> string \<Rightarrow> string \<Rightarrow> time \<Rightarrow> string" where
  "build_symbol_year_table_name market data_type symbol ts =
     normalize_market market @ ''_'' @ data_type @ ''_'' @ normalize_symbol_for_legacy_table symbol
       @ ''_'' @ itoa (year_of ts)"

definition years_between :: "time \<Rightarrow> time \<Rightarrow> int list" where
  "years_between start_time end_time =
     (let s = (if end_time < start_time then end_time else start_time);
          e = (if end_time < start_time then start_time else end_time)
      in [year_of s..year_of e])"

definition get_legacy_table_name :: "string \<Rightarrow> string \<Rightarrow> string" where
  "get_legacy_table_name market data_type =
     (if data_type = ''klines'' then (if market = ''futures'' then ''futures_klines'' else ''spot_klines'')
      else if data_type = ''orderbook'' then (if market = ''futures'' then ''futures_orderbook'' else ''spot_orderbook'')
      else if data_type = ''funding_rates'' then ''futures_funding_rates''
      else if data_type = ''open_interest'' then ''futures_open_interest''
      else [])"

definition build_read_table_names :: "string \<Rightarrow> string \<Rightarrow> string \<Rightarrow> time \<Rightarrow> time \<Rightarrow> string list" where
  "build_read_table_names market data_type symbol start_time end_time =
     (let m = normalize_market market
      in build_table_name m data_type symbol []
         # map (\<lambda>y. build_symbol_year_table_name m data_type symbol (year_start y)) (years_between start_time end_time)
         @ [get_legacy_table_name m data_type])"

text \<open>\<open>DatabaseNameForYear\<close> of the write router.\<close>

definition database_name_for_year :: "string \<Rightarrow> string \<Rightarrow> int \<Rightarrow> string res" where
  "database_name_for_year template0 exchange0 year =
     (let exchange = norm_lower exchange0; template = trim_space template0
      in if exchange = [] then Inl (Err ''exchange is required'')
         else if year < 1970 then Inl (Err (''year '' @ itoa year @ '' is invalid''))
         else if template = [] then Inr (exchange @ ''_'' @ itoa year)
         else if template = exchange
           then Inl (Err (''fixed exchange database '' @ go_quote template @ '' is not a supported write target''))
         else (let t = (if contains template ''{exchange}'' then replace_all template ''{exchange}'' exchange else template)
               in Inr (if contains t ''{year}'' then replace_all t ''{year}'' (itoa year) else t @ ''_'' @ itoa year)))"

subsection \<open>Lemmas\<close>

definition alnum :: "string \<Rightarrow> bool" where
  "alnum s \<longleftrightarrow> (\<forall>c \<in> set s. is_letter c \<or> is_digit c)"

lemma is_letter_lower [simp]: "is_letter (lower_char c) = is_letter c"
  by (auto simp: code_case is_letter_def)

lemma is_digit_lower [simp]: "is_digit (lower_char c) = is_digit c"
  by (auto simp: code_case is_digit_def)

lemma alnum_lower [simp]: "alnum (to_lower s) = alnum s"
  by (simp add: alnum_def to_lower_def)

lemma alnum_no_underscore: "alnum s \<Longrightarrow> CHR ''_'' \<notin> set s"
  by (auto simp: alnum_def is_letter_def is_upper_def is_lower_def is_digit_def)

lemma normalize_symbol_alnum: "alnum (normalize_symbol_for_table s)"
  by (auto simp: normalize_symbol_for_table_def alnum_def Let_def is_letter_def is_lower_def)

lemma normalize_symbol_id:
  "alnum (trim_space s) \<Longrightarrow> trim_space s \<noteq> [] \<Longrightarrow> normalize_symbol_for_table s = norm_lower s"
  by (simp add: normalize_symbol_for_table_def Let_def norm_lower_def to_lower_def alnum_def filter_map o_def)

text \<open>Writing normalises the symbol first; the table name does not notice.\<close>

lemma normalize_symbol_of_write [simp]:
  "normalize_symbol_for_table (normalize_symbol_for_write s) = normalize_symbol_for_table s"
  by (simp add: normalize_symbol_for_table_def normalize_symbol_for_write_def)

lemma contains_append: "contains b pat \<Longrightarrow> contains (a @ b) pat"
  by (induction a) auto

lemma replace_all_append:
  "pat \<noteq> [] \<Longrightarrow> hd pat \<notin> set a \<Longrightarrow> replace_all (a @ b) pat new = a @ replace_all b pat new"
proof (induction a)
  case (Cons c a)
  then have "\<not> has_prefix ((c # a) @ b) pat" by (cases pat) auto
  with Cons show ?case by simp
qed simp

lemma split_at_underscore:
  "CHR ''_'' \<notin> set a \<Longrightarrow> CHR ''_'' \<notin> set c \<Longrightarrow> a @ CHR ''_'' # b = c @ CHR ''_'' # d \<Longrightarrow> a = c \<and> b = d"
proof (induction a arbitrary: c)
  case Nil
  then show ?case by (cases c) auto
next
  case (Cons x a)
  then show ?case by (cases c) auto
qed

lemma normalize_market_cases: "normalize_market m = ''spot'' \<or> normalize_market m = ''futures''"
  by (simp add: normalize_market_def Let_def)

subsection \<open>Properties\<close>

text \<open>What of a symbol is in a table name: its letters and digits, in lower case; without any, \<open>unknown\<close>.\<close>

definition symbol_key :: "string \<Rightarrow> string" where
  "symbol_key s = (let k = map lower_char (filter (\<lambda>c. is_letter c \<or> is_digit c) s) in if k = [] then ''unknown'' else k)"

lemma filter_dropWhile: "(\<And>c. Q c \<Longrightarrow> \<not> P c) \<Longrightarrow> filter P (dropWhile Q s) = filter P s"
  by (induction s) auto

lemma filter_trim:
  assumes "\<And>c. is_space c \<Longrightarrow> \<not> P c"
  shows "filter P (trim_space s) = filter P s"
  by (simp add: trim_space_def rev_filter [symmetric] filter_dropWhile [of is_space P, OF assms])

lemma normalize_symbol_key: "normalize_symbol_for_table s = symbol_key s"
proof -
  have "filter (\<lambda>c. is_letter c \<or> is_digit c) (trim_space s) = filter (\<lambda>c. is_letter c \<or> is_digit c) s"
    by (rule filter_trim) (auto simp: char_class_defs Let_def)
  then show ?thesis
    by (simp add: normalize_symbol_for_table_def symbol_key_def norm_lower_def to_lower_def filter_map o_def)
qed

lemma normalize_market_eq:
  "normalize_market m1 = normalize_market m2 \<longleftrightarrow> (norm_lower m1 = ''futures'' \<longleftrightarrow> norm_lower m2 = ''futures'')"
  by (auto simp: normalize_market_def Let_def)

text \<open>
  C31. Which bars share a table: for non-empty intervals the table names are equal exactly when both
  or neither of the markets is \<open>futures\<close>, the symbols' letters and digits in lower case agree (a symbol without any counts as
  \<open>unknown\<close>), and the intervals agree up to case.
  So streams that differ in the market, in a letter or digit of the symbol or in the interval by more
  than case have tables of their own; \<open>1m\<close> and \<open>1M\<close> share one.
\<close>

theorem kline_table_injective:
  assumes "i1 \<noteq> []" and "i2 \<noteq> []"
  shows "build_table_name m1 ''klines'' s1 i1 = build_table_name m2 ''klines'' s2 i2
    \<longleftrightarrow> (norm_lower m1 = ''futures'' \<longleftrightarrow> norm_lower m2 = ''futures'')
      \<and> symbol_key s1 = symbol_key s2 \<and> map lower_char i1 = map lower_char i2"
proof -
  have "normalize_market m1 = normalize_market m2 \<and> normalize_symbol_for_table s1 = normalize_symbol_for_table s2 \<and> to_lower i1 = to_lower i2"
    if "build_table_name m1 ''klines'' s1 i1 = build_table_name m2 ''klines'' s2 i2"
  proof -
    have u: "CHR ''_'' \<notin> set (normalize_market m)" for m using normalize_market_cases [of m] by auto
    have "normalize_market m1 @ CHR ''_'' # ''klines_'' @ normalize_symbol_for_table s1 @ CHR ''_'' # to_lower i1
        = normalize_market m2 @ CHR ''_'' # ''klines_'' @ normalize_symbol_for_table s2 @ CHR ''_'' # to_lower i2"
      using assms that by (simp add: build_table_name_def Let_def)
    from split_at_underscore [OF u u this]
    have m: "normalize_market m1 = normalize_market m2"
      and rest: "normalize_symbol_for_table s1 @ CHR ''_'' # to_lower i1
        = normalize_symbol_for_table s2 @ CHR ''_'' # to_lower i2" by simp_all
    from split_at_underscore [OF alnum_no_underscore alnum_no_underscore rest] m normalize_symbol_alnum
    show ?thesis by blast
  qed
  moreover have "build_table_name m1 ''klines'' s1 i1 = build_table_name m2 ''klines'' s2 i2"
    if "normalize_market m1 = normalize_market m2 \<and> normalize_symbol_for_table s1 = normalize_symbol_for_table s2 \<and> to_lower i1 = to_lower i2"
    using that assms by (simp add: build_table_name_def)
  ultimately show ?thesis unfolding normalize_market_eq normalize_symbol_key to_lower_def by blast
qed

theorem kline_table_injective_witness:
  "build_table_name ''spot'' ''klines'' ''btcusdt'' ''1m'' = build_table_name ''SPOT'' ''klines'' '' BTC-USDT'' ''1M''
   \<and> build_table_name ''spot'' ''klines'' ''btcusdt'' ''1m'' \<noteq> build_table_name ''spot'' ''klines'' ''btcusdt'' ''1h''"
proof -
  have "norm_lower ''spot'' \<noteq> ''futures''" "norm_lower ''SPOT'' \<noteq> ''futures''"
    "symbol_key ''btcusdt'' = symbol_key '' BTC-USDT''"
    "map lower_char ''1m'' = map lower_char ''1M''" "map lower_char ''1m'' \<noteq> map lower_char ''1h''" by code_simp+
  then show ?thesis by (simp add: kline_table_injective)
qed

text \<open>
  Minute and month bars of a symbol share one table: the interval is lower-cased in the
  table name, and \<open>1M\<close> (a month for \<open>intervalDuration\<close>) becomes \<open>1m\<close> (a minute), both where
  bars are written and where coverage is read. The primary key is the open time and the symbol,
  so a month bar and the minute bar that opens with it cannot both be stored.
\<close>

theorem month_and_minute_share_a_table:
  "build_table_name m ''klines'' s ''1M'' = build_table_name m ''klines'' s ''1m''
   \<and> build_kline_table_name m s ''1M'' = build_kline_table_name m s ''1m''
   \<and> interval_duration ''1M'' = Inr (30 * 24 * hour) \<and> interval_duration ''1m'' = Inr minute"
proof -
  have "to_lower ''1M'' = to_lower ''1m''" "norm_lower ''1M'' = norm_lower ''1m''" by code_simp+
  then show ?thesis
    by (simp add: build_table_name_def build_kline_table_name_def Let_def interval_duration_def atoi_def
        digits_val_def digit_val_def is_digit_def dur_mul_def wrap64_def hour_def minute_def)
qed

text \<open>
  The coverage check reads the table the writer fills, when the symbol consists of letters and
  digits and the interval has no surrounding space.
\<close>

theorem coverage_reads_written_table:
  assumes "alnum (trim_space symbol)" and "trim_space symbol \<noteq> []"
    and "interval \<noteq> []" and "trim_space interval = interval"
  shows "build_kline_table_name market symbol interval = build_table_name market ''klines'' symbol interval"
  using assms
  by (simp add: build_kline_table_name_def build_table_name_def Let_def normalize_market_def
      normalize_symbol_id norm_lower_def [of interval])

theorem coverage_reads_written_table_witness:
  "build_kline_table_name ''futures'' ''BTCUSDT'' ''1m'' = build_table_name ''futures'' ''klines'' ''BTCUSDT'' ''1m''"
proof -
  have "alnum (trim_space ''BTCUSDT'')" "trim_space ''BTCUSDT'' \<noteq> []" "trim_space ''1m'' = ''1m''"
    by (simp_all add: trim_space_def is_space_def alnum_def is_letter_def is_upper_def)
  then show ?thesis using coverage_reads_written_table [of "''BTCUSDT''" "''1m''"] by simp
qed

text \<open>
  Outside that domain it reads another table: the writer drops the underscore of a delivery
  contract such as \<open>BTCUSDT_240329\<close>, the coverage check keeps it, so bars that were written are
  never seen and such a request never becomes ready.
\<close>

theorem coverage_misses_delivery_contracts:
  "build_table_name ''futures'' ''klines'' ''BTCUSDT_240329'' ''1m'' = ''futures_klines_btcusdt240329_1m''
   \<and> build_kline_table_name ''futures'' ''BTCUSDT_240329'' ''1m'' = ''futures_klines_btcusdt_240329_1m''"
  by code_simp

text \<open>
  The history reader and the live writer agree on the year database: whenever the router
  accepts a template, the backfill computes the same name, for every exchange name without a
  brace. They differ only where the router refuses (no exchange, a year before 1970, or the fixed
  exchange database as the template).
\<close>

theorem year_database_names_agree:
  assumes "database_name_for_year template exchange year = Inr db"
    and "CHR 0x7B \<notin> set (norm_lower exchange)"
  shows "database_for_year template exchange year = db"
proof (cases "trim_space template = []")
  case True
  have c: "contains ''{exchange}_{year}'' ''{exchange}''"
    and r: "replace_all ''{exchange}_{year}'' ''{exchange}'' e = e @ ''_{year}''" for e by simp_all
  have "contains (norm_lower exchange @ ''_{year}'') ''{year}''" by (rule contains_append) simp
  moreover have "replace_all (norm_lower exchange @ ''_{year}'') ''{year}'' y = norm_lower exchange @ ''_'' @ y" for y
    using assms(2) by (subst replace_all_append) simp_all
  ultimately show ?thesis using assms(1) True
    by (auto simp: database_name_for_year_def database_for_year_def Let_def c r split: if_splits)
next
  case False
  then show ?thesis using assms(1)
    by (auto simp: database_name_for_year_def database_for_year_def Let_def split: if_splits)
qed

theorem year_database_names_agree_witness:
  "database_for_year ''md_{exchange}'' ''Binance'' 2026 = ''md_binance_2026''"
proof -
  have e: "database_name_for_year ''md_{exchange}'' ''Binance'' 2026 = Inr ''md_binance_2026''" by code_simp
  have b: "CHR 0x7B \<notin> set (norm_lower ''Binance'')" by code_simp
  show ?thesis by (rule year_database_names_agree [OF e b])
qed

end
