(* ===== verification/Storage_Timescale.thy ===== *)
theory Storage_Timescale
  imports Storage_Names
begin

text \<open>
  The row store of one year database (\<open>internal/storage/timescale.go\<close>, a \<open>TimescaleDB\<close> without a
  write router). The database itself is not part of the repository: \<open>exec\<close> runs one statement on a
  world \<open>'w\<close> and returns the driver's error. A statement is what the code's \<open>fmt.Sprintf\<close> templates
  denote: a row for a table, with \<open>ON CONFLICT ... DO NOTHING\<close> on its primary key, or
  \<open>CREATE TABLE IF NOT EXISTS\<close> with a data type's columns.

  Two interfaces are stated as locales: \<open>sql_store\<close>, what the code relies on of the database, and
  \<open>kline_sink\<close>, what the collectors and the backfill rely on of a store (the Go interface
  \<open>klineSink\<close> / \<open>MarketDataStore\<close>): a nil error means that every bar is in the store, and no
  operation loses a bar. The first gives the second for \<open>TimescaleDB.InsertKline\<close>.
\<close>

datatype sql_type = Timestamptz | Text_Col | Double_Precision | Jsonb | Bigint

record sql_column =
  col_name :: string
  col_type :: sql_type
  col_not_null :: bool
  col_default :: "string option"

datatype sql_stmt =
    Insert_Kline_Row string kline
  | Insert_Order_Book_Row string order_book
  | Insert_Funding_Row string funding_rate
  | Insert_Open_Interest_Row string open_interest
  | Create_Table string "sql_column list" "string list" string \<comment> \<open>table, columns, primary key, chunk interval\<close>
  | Empty_Stmt

type_synonym 'w sql_exec = "sql_stmt \<Rightarrow> 'w \<Rightarrow> go_error option \<times> 'w"

text \<open>
  \<open>buildCreateTableSQL\<close>: the columns and the primary key of a data type's table, made a hypertable
  on \<open>time\<close> in chunks of a month; no statement for another data type.
\<close>

definition not_null :: "string \<Rightarrow> sql_type \<Rightarrow> sql_column" where
  "not_null c ty = \<lparr>col_name = c, col_type = ty, col_not_null = True, col_default = None\<rparr>"

definition with_default :: "string \<Rightarrow> sql_type \<Rightarrow> string \<Rightarrow> sql_column" where
  "with_default c ty d = \<lparr>col_name = c, col_type = ty, col_not_null = True, col_default = Some d\<rparr>"

definition created_at_column :: sql_column where
  "created_at_column = \<lparr>col_name = ''created_at'', col_type = Timestamptz, col_not_null = False, col_default = Some ''NOW()''\<rparr>"

definition build_create_table_sql :: "string \<Rightarrow> string \<Rightarrow> string \<Rightarrow> string \<Rightarrow> sql_stmt" where
  "build_create_table_sql exchange table market data_type =
     (if data_type = ''klines'' then
        Create_Table table
          [not_null ''time'' Timestamptz, not_null ''symbol'' Text_Col, with_default ''market'' Text_Col market,
           with_default ''exchange'' Text_Col exchange, not_null ''open_time'' Timestamptz,
           not_null ''close_time'' Timestamptz, not_null ''open'' Double_Precision, not_null ''high'' Double_Precision,
           not_null ''low'' Double_Precision, not_null ''close'' Double_Precision, not_null ''volume'' Double_Precision,
           not_null ''quote_volume'' Double_Precision, with_default ''num_trades'' Bigint ''0'', created_at_column]
          [''time'', ''symbol''] ''1 month''
      else if data_type = ''orderbook'' then
        Create_Table table
          [not_null ''time'' Timestamptz, not_null ''symbol'' Text_Col, with_default ''market'' Text_Col market,
           with_default ''exchange'' Text_Col exchange, not_null ''bids'' Jsonb, not_null ''asks'' Jsonb, created_at_column]
          [''time'', ''symbol''] ''1 month''
      else if data_type = ''funding_rates'' then
        Create_Table table
          [not_null ''time'' Timestamptz, not_null ''symbol'' Text_Col, with_default ''market'' Text_Col market,
           with_default ''exchange'' Text_Col exchange, not_null ''funding_rate'' Double_Precision,
           not_null ''mark_price'' Double_Precision, not_null ''next_funding_time'' Timestamptz, created_at_column]
          [''time'', ''symbol''] ''1 month''
      else if data_type = ''open_interest'' then
        Create_Table table
          [not_null ''time'' Timestamptz, not_null ''symbol'' Text_Col, not_null ''open_interest'' Double_Precision,
           with_default ''period'' Text_Col ''realtime'', with_default ''market'' Text_Col market,
           with_default ''exchange'' Text_Col exchange, created_at_column]
          [''time'', ''symbol'', ''period''] ''1 month''
      else Empty_Stmt)"

text \<open>
  \<open>optimisticInsertWithLazyCreate\<close>: insert; on any error insert again under the table's lock, then
  create the table and insert a last time.
\<close>

definition optimistic_insert :: "'w sql_exec \<Rightarrow> string \<Rightarrow> sql_stmt \<Rightarrow> sql_stmt \<Rightarrow> 'w \<Rightarrow> go_error option \<times> 'w" where
  "optimistic_insert exec table ins create w =
     (case exec ins w of
        (None, w1) \<Rightarrow> (None, w1)
      | (Some _, w1) \<Rightarrow>
        (case exec ins w1 of
           (None, w2) \<Rightarrow> (None, w2)
         | (Some _, w2) \<Rightarrow>
           (case exec create w2 of
              (Some e, w3) \<Rightarrow> (Some (Wrapped (''failed to create table '' @ table) e), w3)
            | (None, w3) \<Rightarrow>
              (case exec ins w3 of
                 (Some e, w4) \<Rightarrow> (Some (Wrapped (''failed final insert into '' @ table) e), w4)
               | (None, w4) \<Rightarrow> (None, w4)))))"

definition kline_table :: "kline \<Rightarrow> string" where
  "kline_table k =
     build_table_name (k_market k) ''klines'' (normalize_symbol_for_write (k_symbol k))
       (if k_interval k = [] then ''1m'' else k_interval k)"

definition kline_row :: "kline \<Rightarrow> kline" where
  "kline_row k = k\<lparr>k_symbol := normalize_symbol_for_write (k_symbol k)\<rparr>"

fun insert_klines :: "'w sql_exec \<Rightarrow> string \<Rightarrow> kline list \<Rightarrow> 'w \<Rightarrow> go_error option \<times> 'w" where
  "insert_klines exec exchange [] w = (None, w)"
| "insert_klines exec exchange (k # ks) w =
     (let table = kline_table k
      in case optimistic_insert exec table (Insert_Kline_Row table (kline_row k))
           (build_create_table_sql exchange table (normalize_market (k_market k)) ''klines'') w of
         (Some e, w1) \<Rightarrow> (Some (Wrapped (''failed to insert kline into '' @ table) e), w1)
       | (None, w1) \<Rightarrow> insert_klines exec exchange ks w1)"

definition insert_order_book :: "'w sql_exec \<Rightarrow> string \<Rightarrow> order_book \<Rightarrow> 'w \<Rightarrow> go_error option \<times> 'w" where
  "insert_order_book exec exchange ob w =
     (let s = normalize_symbol_for_write (ob_symbol ob);
          table = build_table_name (ob_market ob) ''orderbook'' s []
      in case optimistic_insert exec table (Insert_Order_Book_Row table (ob\<lparr>ob_symbol := s\<rparr>))
           (build_create_table_sql exchange table (normalize_market (ob_market ob)) ''orderbook'') w of
         (Some e, w1) \<Rightarrow> (Some (Wrapped (''failed to insert orderbook into '' @ table) e), w1)
       | (None, w1) \<Rightarrow> (None, w1))"

definition insert_funding_rate :: "'w sql_exec \<Rightarrow> string \<Rightarrow> funding_rate \<Rightarrow> 'w \<Rightarrow> go_error option \<times> 'w" where
  "insert_funding_rate exec exchange fr w =
     (let s = normalize_symbol_for_write (fr_symbol fr);
          table = build_table_name ''futures'' ''funding_rates'' s []
      in case optimistic_insert exec table (Insert_Funding_Row table (fr\<lparr>fr_symbol := s\<rparr>))
           (build_create_table_sql exchange table ''futures'' ''funding_rates'') w of
         (Some e, w1) \<Rightarrow> (Some (Wrapped (''failed to insert funding rate into '' @ table) e), w1)
       | (None, w1) \<Rightarrow> (None, w1))"

definition insert_open_interest :: "'w sql_exec \<Rightarrow> string \<Rightarrow> open_interest \<Rightarrow> 'w \<Rightarrow> go_error option \<times> 'w" where
  "insert_open_interest exec exchange oi w =
     (let s = normalize_symbol_for_write (oi_symbol oi);
          table = build_table_name ''futures'' ''open_interest'' s []
      in case optimistic_insert exec table (Insert_Open_Interest_Row table (oi\<lparr>oi_symbol := s\<rparr>))
           (build_create_table_sql exchange table ''futures'' ''open_interest'') w of
         (Some e, w1) \<Rightarrow> (Some (Wrapped (''failed to insert open interest into '' @ table) e), w1)
       | (None, w1) \<Rightarrow> (None, w1))"

fun insert_open_interests :: "'w sql_exec \<Rightarrow> string \<Rightarrow> open_interest list \<Rightarrow> 'w \<Rightarrow> go_error option \<times> 'w" where
  "insert_open_interests exec exchange [] w = (None, w)"
| "insert_open_interests exec exchange (oi # ois) w =
     (case insert_open_interest exec exchange oi w of
        (Some e, w1) \<Rightarrow> (Some e, w1)
      | (None, w1) \<Rightarrow> insert_open_interests exec exchange ois w1)"

subsection \<open>The interface of a bar store\<close>

locale kline_sink =
  fixes insert :: "kline list \<Rightarrow> 'w \<Rightarrow> go_error option \<times> 'w"
    and has_bar :: "'w \<Rightarrow> kline \<Rightarrow> bool"
  assumes insert_stores: "insert ks w = (None, w') \<Longrightarrow> k \<in> set ks \<Longrightarrow> has_bar w' k"
    and insert_keeps: "insert ks w = (r, w') \<Longrightarrow> has_bar w k \<Longrightarrow> has_bar w' k"
begin

definition holds_all :: "'w \<Rightarrow> kline list \<Rightarrow> bool" where
  "holds_all w ks \<longleftrightarrow> (\<forall>k \<in> set ks. has_bar w k)"

lemma holds_all_insert: "insert ks w = (None, w') \<Longrightarrow> holds_all w' ks"
  by (simp add: holds_all_def insert_stores)

lemma holds_all_keeps: "insert ks w = (r, w') \<Longrightarrow> holds_all w ls \<Longrightarrow> holds_all w' ls"
  by (auto simp: holds_all_def insert_keeps)

end

subsection \<open>The interface of the database\<close>

text \<open>
  What PostgreSQL documents of the two kinds of statement: after an insert without an error a row
  with the primary key is in the table (the new one or the one it conflicted with), and neither
  statement removes a row.
\<close>

locale sql_store =
  fixes exec :: "'w sql_exec" and has_row :: "'w \<Rightarrow> string \<Rightarrow> time \<Rightarrow> string \<Rightarrow> bool"
  assumes exec_insert: "exec (Insert_Kline_Row table k) w = (None, w') \<Longrightarrow> has_row w' table (k_time k) (k_symbol k)"
    and exec_keeps: "exec st w = (r, w') \<Longrightarrow> has_row w t x s \<Longrightarrow> has_row w' t x s"
begin

lemma optimistic_insert_keeps:
  "optimistic_insert exec table ins create w = (r, w') \<Longrightarrow> has_row w t x s \<Longrightarrow> has_row w' t x s"
  by (auto simp: optimistic_insert_def split: prod.splits option.splits dest: exec_keeps)

lemma optimistic_insert_stores:
  "optimistic_insert exec table (Insert_Kline_Row table k) create w = (None, w') \<Longrightarrow>
   has_row w' table (k_time k) (k_symbol k)"
  by (auto simp: optimistic_insert_def split: prod.splits option.splits dest: exec_insert)

lemma insert_klines_keeps:
  "insert_klines exec ex ks w = (r, w') \<Longrightarrow> has_row w t x s \<Longrightarrow> has_row w' t x s"
proof (induction ks arbitrary: w)
  case (Cons k ks)
  then show ?case
    by (auto simp: Let_def split: prod.splits option.splits dest: optimistic_insert_keeps)
qed simp

lemma insert_klines_stores:
  "insert_klines exec ex ks w = (None, w') \<Longrightarrow> k \<in> set ks \<Longrightarrow>
   has_row w' (kline_table k) (k_time k) (normalize_symbol_for_write (k_symbol k))"
proof (induction ks arbitrary: w)
  case (Cons l ks)
  let ?t = "kline_table l"
  from Cons.prems obtain w1 where
    one: "optimistic_insert exec ?t (Insert_Kline_Row ?t (kline_row l))
       (build_create_table_sql ex ?t (normalize_market (k_market l)) ''klines'') w = (None, w1)"
    and rest: "insert_klines exec ex ks w1 = (None, w')"
    by (auto simp: Let_def split: prod.splits option.splits)
  from optimistic_insert_stores [OF one]
  have "has_row w1 ?t (k_time l) (normalize_symbol_for_write (k_symbol l))" by (simp add: kline_row_def)
  with Cons rest show ?case using insert_klines_keeps [OF rest] by (cases "k = l") auto
qed simp

end

text \<open>A bar is in a year database when a row with its key is in its table.\<close>

definition bar_stored :: "('w \<Rightarrow> string \<Rightarrow> time \<Rightarrow> string \<Rightarrow> bool) \<Rightarrow> 'w \<Rightarrow> kline \<Rightarrow> bool" where
  "bar_stored has_row w k = has_row w (kline_table k) (k_time k) (normalize_symbol_for_write (k_symbol k))"

sublocale sql_store \<subseteq> db: kline_sink "insert_klines exec ex" "bar_stored has_row" for ex
  by unfold_locales
    (auto simp: bar_stored_def dest: insert_klines_stores intro: insert_klines_keeps)

subsection \<open>A reference database\<close>

text \<open>
  A database as the set of its tables and of the keys of the rows of each; it answers the two
  kinds of statement as PostgreSQL documents. It shows that the interface can be met and lets a
  witness run the code; no other property depends on it.
\<close>

record pg_db =
  pg_tables :: "string list"
  pg_rows :: "(string \<times> time \<times> string) list"

definition pg_insert :: "string \<Rightarrow> time \<Rightarrow> string \<Rightarrow> pg_db \<Rightarrow> go_error option \<times> pg_db" where
  "pg_insert table t s db =
     (if table \<in> set (pg_tables db)
      then (None, if (table, t, s) \<in> set (pg_rows db) then db
                  else db\<lparr>pg_rows := (table, t, s) # pg_rows db\<rparr>)
      else (Some (Err (''pq: relation '' @ go_quote table @ '' does not exist'')), db))"

fun pg_exec :: "pg_db sql_exec" where
  "pg_exec (Insert_Kline_Row table k) db = pg_insert table (k_time k) (k_symbol k) db"
| "pg_exec (Insert_Order_Book_Row table ob) db = pg_insert table (ob_time ob) (ob_symbol ob) db"
| "pg_exec (Insert_Funding_Row table fr) db = pg_insert table (fr_time fr) (fr_symbol fr) db"
| "pg_exec (Insert_Open_Interest_Row table oi) db =
     pg_insert table (oi_time oi) (oi_symbol oi @ CHR ''|'' # oi_period oi) db"
| "pg_exec (Create_Table table cols pk chunk) db =
     (None, if table \<in> set (pg_tables db) then db else db\<lparr>pg_tables := table # pg_tables db\<rparr>)"
| "pg_exec Empty_Stmt db = (None, db)"

definition pg_has_row :: "pg_db \<Rightarrow> string \<Rightarrow> time \<Rightarrow> string \<Rightarrow> bool" where
  "pg_has_row db table t s \<longleftrightarrow> (table, t, s) \<in> set (pg_rows db)"

lemma pg_insert_row: "pg_insert table t s db = (None, db') \<Longrightarrow> pg_has_row db' table t s"
  by (auto simp: pg_insert_def pg_has_row_def split: if_splits)

lemma pg_insert_keeps: "pg_insert table t s db = (r, db') \<Longrightarrow> pg_has_row db u x y \<Longrightarrow> pg_has_row db' u x y"
  by (auto simp: pg_insert_def pg_has_row_def split: if_splits)

interpretation pg: sql_store pg_exec pg_has_row
proof
  fix table k w w'
  assume "pg_exec (Insert_Kline_Row table k) w = (None, w')"
  then show "pg_has_row w' table (k_time k) (k_symbol k)" by (auto dest: pg_insert_row)
next
  fix st w r w' t x s
  assume "pg_exec st w = (r, w')" and "pg_has_row w t x s"
  then show "pg_has_row w' t x s"
    by (cases st) (auto dest: pg_insert_keeps simp: pg_has_row_def split: if_splits)
qed

subsection \<open>A database that is up\<close>

text \<open>
  A database that answers: a table can be created, and a row goes into a table that was just
  created. The lazy creation of the code then makes every insert succeed.
\<close>

locale sql_store_up = sql_store exec has_row for exec :: "'w sql_exec" and has_row +
  assumes create_ok: "fst (exec (build_create_table_sql ex t m ''klines'') w) = None"
    and insert_after_create: "exec (build_create_table_sql ex t m ''klines'') w = (None, w') \<Longrightarrow>
      fst (exec (Insert_Kline_Row t k) w') = None"
begin

lemma optimistic_insert_ok:
  "fst (optimistic_insert exec t (Insert_Kline_Row t k) (build_create_table_sql ex t m ''klines'') w) = None"
proof -
  obtain r1 w1 where 1: "exec (Insert_Kline_Row t k) w = (r1, w1)" by fastforce
  obtain r2 w2 where 2: "exec (Insert_Kline_Row t k) w1 = (r2, w2)" by fastforce
  obtain w3 where 3: "exec (build_create_table_sql ex t m ''klines'') w2 = (None, w3)"
    using create_ok [of ex t m w2] by (cases "exec (build_create_table_sql ex t m ''klines'') w2") auto
  obtain w4 where 4: "exec (Insert_Kline_Row t k) w3 = (None, w4)"
    using insert_after_create [OF 3, of k] by (cases "exec (Insert_Kline_Row t k) w3") auto
  show ?thesis
    by (cases r1; cases r2) (simp_all add: optimistic_insert_def 1 2 3 4)
qed

lemma insert_klines_ok: "fst (insert_klines exec ex ks w) = None"
proof (induction ks arbitrary: w)
  case (Cons k ks)
  then show ?case
    using optimistic_insert_ok [of "kline_table k" "kline_row k" ex "normalize_market (k_market k)" w]
    by (auto simp: Let_def split: prod.splits option.splits)
qed simp

end

interpretation pg_up: sql_store_up pg_exec pg_has_row
  by unfold_locales (auto simp: pg_insert_def build_create_table_sql_def)

subsection \<open>Properties\<close>

text \<open>
  \<open>TimescaleDB.InsertKline\<close> on a database that is up always succeeds, whether or not the
  tables exist yet (a missing table is created between the second and the third attempt), and
  afterwards every bar of the batch has its row; the rows that were there are kept.
\<close>

theorem insert_klines_lazy_create:
  assumes "sql_store_up exec has_row"
  shows "\<exists>w'. insert_klines exec exchange ks w = (None, w')
    \<and> (\<forall>k \<in> set ks. bar_stored has_row w' k) \<and> (\<forall>t x s. has_row w t x s \<longrightarrow> has_row w' t x s)"
proof -
  note up = assms
  have st: "sql_store exec has_row" using up by (rule sql_store_up.axioms)
  obtain w' where w': "insert_klines exec exchange ks w = (None, w')"
    using sql_store_up.insert_klines_ok [OF up, of exchange ks w]
    by (cases "insert_klines exec exchange ks w") auto
  then show ?thesis
    using sql_store.insert_klines_stores [OF st w'] sql_store.insert_klines_keeps [OF st w']
    by (auto simp: bar_stored_def)
qed

definition empty_pg :: pg_db where "empty_pg = \<lparr>pg_tables = [], pg_rows = []\<rparr>"

definition sample_kline :: "string \<Rightarrow> time \<Rightarrow> kline" where
  "sample_kline interval t = \<lparr>k_time = t, k_symbol = ''btcusdt'', k_market = ''spot'', k_exchange = ''binance'',
     k_interval = interval, k_open_time = t, k_close_time = t + 59999000000, k_open = 0, k_high = 0,
     k_low = 0, k_close = 0, k_volume = 0, k_quote_volume = 0, k_num_trades = 0\<rparr>"

theorem insert_klines_lazy_create_witness:
  "\<exists>w'. insert_klines pg_exec ''binance'' [sample_kline ''1m'' 0] empty_pg = (None, w')
     \<and> bar_stored pg_has_row w' (sample_kline ''1m'' 0)"
  using insert_klines_lazy_create [OF pg_up.sql_store_up_axioms, of "''binance''" "[sample_kline ''1m'' 0]" empty_pg]
  by auto

text \<open>
  The month bar that opens at the same instant as a minute bar of the symbol is lost: both
  inserts report success, but the second meets the primary key of the first in the shared table
  and does nothing.
\<close>

theorem month_bar_dropped:
  "\<exists>db. insert_klines pg_exec ''binance'' [sample_kline ''1m'' 0] empty_pg = (None, db)
      \<and> insert_klines pg_exec ''binance'' [sample_kline ''1M'' 0] db = (None, db)
      \<and> pg_rows db = [(''spot_klines_btcusdt_1m'', 0, ''BTCUSDT'')]"
proof -
  have n: "kline_table (sample_kline ''1m'' 0) = ''spot_klines_btcusdt_1m''"
    "kline_table (sample_kline ''1M'' 0) = ''spot_klines_btcusdt_1m''"
    "normalize_symbol_for_write ''btcusdt'' = ''BTCUSDT''" by code_simp+
  show ?thesis
    using n(1,2)
    by (simp add: optimistic_insert_def pg_insert_def empty_pg_def kline_row_def n(3) build_create_table_sql_def
        Let_def sample_kline_def)
qed

end
