(* ===== verification/Backfill_Run.thy ===== *)
theory Backfill_Run
  imports Backfill_Coverage Storage_Timescale
begin

text \<open>
  The effectful part of \<open>internal/backfill/klines.go\<close>: fetching pages of bars with retries,
  back-filling one window page by page, back-filling a request year by year, and checking the
  coverage of a request. HTTP, the clock, JSON decoding of a body and the database are outside the
  repository (or below it): they are the fields of \<open>rest_env\<close> and \<open>admin_env\<close>, functions on a world
  \<open>'w\<close>. A wait is a \<open>select\<close> between a timer and \<open>ctx.Done()\<close>: it returns \<open>Some ctx.Err()\<close> when the
  context ended first.
\<close>

datatype http_answer =
    Http_Error go_error
  | Http_Body_Error go_error
  | Http_Response nat string string string \<comment> \<open>status code, status line, \<open>Retry-After\<close>, body\<close>

record 'w rest_env =
  env_http :: "string \<Rightarrow> (string \<times> string) list \<Rightarrow> 'w \<Rightarrow> http_answer \<times> 'w"
  env_wait :: "duration \<Rightarrow> 'w \<Rightarrow> go_error option \<times> 'w"
  env_decode :: "string \<Rightarrow> json list list res"

definition binance_spot_klines_url :: string where
  "binance_spot_klines_url = ''https://api.binance.com/api/v3/klines''"
definition binance_futures_klines_url :: string where
  "binance_futures_klines_url = ''https://fapi.binance.com/fapi/v1/klines''"
definition max_klines_per_request :: int where "max_klines_per_request = 1500"
definition request_pause :: duration where "request_pause = 200 * millisecond"
definition max_429_retries :: nat where "max_429_retries = 5"

definition truncate_body :: "string \<Rightarrow> nat \<Rightarrow> string" where
  "truncate_body b n = (if length b \<le> n then b else take n b @ ''...'')"

definition retry_after_seconds :: "string \<Rightarrow> int" where
  "retry_after_seconds h = (case atoi h of Some v \<Rightarrow> (if v > 0 then v else 1) | None \<Rightarrow> 1)"

definition klines_query :: "string \<Rightarrow> string \<Rightarrow> int \<Rightarrow> int \<Rightarrow> (string \<times> string) list" where
  "klines_query symbol interval start_ms end_ms =
     [(''symbol'', symbol), (''interval'', interval), (''startTime'', itoa start_ms),
      (''endTime'', itoa end_ms), (''limit'', itoa max_klines_per_request)]"

text \<open>The retry loop; the counter is the number of retries that are left.\<close>

fun fetch_loop :: "'w rest_env \<Rightarrow> string \<Rightarrow> (string \<times> string) list \<Rightarrow> nat \<Rightarrow> 'w \<Rightarrow> json list list res \<times> 'w" where
  "fetch_loop env ep q left w =
     (case env_http env ep q w of
        (Http_Error e, w1) \<Rightarrow> (Inl e, w1)
      | (Http_Body_Error e, w1) \<Rightarrow> (Inl (Wrapped ''read body'' e), w1)
      | (Http_Response code status retry_after body, w1) \<Rightarrow>
        if code = 200 then (wrap_err ''decode klines'' (env_decode env body), w1)
        else if code = 429 \<and> 0 < left
        then (case env_wait env (dur_mul (retry_after_seconds retry_after) second) w1 of
                (Some e, w2) \<Rightarrow> (Inl e, w2)
              | (None, w2) \<Rightarrow> fetch_loop env ep q (left - 1) w2)
        else (Inl (Err (''HTTP '' @ status @ '': '' @ truncate_body body 500)), w1))"

declare fetch_loop.simps [simp del]

definition fetch_klines :: "'w rest_env \<Rightarrow> string \<Rightarrow> string \<Rightarrow> string \<Rightarrow> int \<Rightarrow> int \<Rightarrow> 'w \<Rightarrow> json list list res \<times> 'w" where
  "fetch_klines env ep symbol interval start_ms end_ms w =
     fetch_loop env ep (klines_query symbol interval start_ms end_ms) max_429_retries w"

fun parse_rows :: "float_parser \<Rightarrow> json list list \<Rightarrow> string \<Rightarrow> string \<Rightarrow> string \<Rightarrow> kline list res" where
  "parse_rows pf [] symbol market interval = Inr []"
| "parse_rows pf (row # rows) symbol market interval =
     (case rest_row_to_kline pf row symbol market interval of
        Inl e \<Rightarrow> Inl (Wrapped ''parse row'' e)
      | Inr k \<Rightarrow>
        (case parse_rows pf rows symbol market interval of Inl e \<Rightarrow> Inl e | Inr ks \<Rightarrow> Inr (k # ks)))"

text \<open>
  One page of a window, from a non-empty answer on: parse every row, keep the bars of the window,
  store them, and only then extend the reported segments.
\<close>

definition store_page ::
  "(kline list \<Rightarrow> 'w \<Rightarrow> go_error option \<times> 'w) \<Rightarrow> kline_request \<Rightarrow> kline list \<Rightarrow> coverage_segment list
    \<Rightarrow> 'w \<Rightarrow> coverage_segment list res \<times> 'w" where
  "store_page ins r ks segments w =
     (if ks = [] then (Inr segments, w)
      else (case ins ks w of
          (Some e, w1) \<Rightarrow> (Inl (Wrapped ''insert klines'' e), w1)
        | (None, w1) \<Rightarrow>
          (case build_coverage_segments (rq_exchange r) (rq_market r) (rq_symbol r) (rq_interval r) ks of
             Inl e \<Rightarrow> (Inl (Wrapped ''build coverage segments'' e), w1)
           | Inr batch \<Rightarrow> (Inr (append_coverage_segments segments batch), w1))))"

text \<open>
  The pagination loop over \<open>cur\<close> (milliseconds); it stops because the cursor must grow. The
  pause is the \<open>select\<close> at the end of the body.
\<close>

function backfill_loop ::
  "'w rest_env \<Rightarrow> float_parser \<Rightarrow> (kline list \<Rightarrow> 'w \<Rightarrow> go_error option \<times> 'w) \<Rightarrow> string \<Rightarrow> kline_request
    \<Rightarrow> time_window \<Rightarrow> int \<Rightarrow> int \<Rightarrow> int \<Rightarrow> coverage_segment list \<Rightarrow> 'w \<Rightarrow> coverage_segment list res \<times> 'w" where
  "backfill_loop env pf ins base_url r window end_excl end_incl cur segments w =
     (if \<not> cur < end_excl then (Inr segments, w)
      else if end_incl < cur then (Inr segments, w)
      else (case fetch_klines env base_url (rq_symbol r) (rq_interval r) cur end_incl w of
          (Inl e, w1) \<Rightarrow>
            (Inl (Wrapped (''fetch klines for '' @ rq_symbol r @ '' '' @ rq_market r @ '' '' @ rq_interval r) e), w1)
        | (Inr rows, w1) \<Rightarrow>
          if rows = [] then (Inr segments, w1)
          else (case parse_rows pf rows (rq_symbol r) (rq_market r) (rq_interval r) of
              Inl e \<Rightarrow> (Inl e, w1)
            | Inr ks \<Rightarrow>
              (case store_page ins r (filter_klines_for_window ks window) segments w1 of
                 (Inl e, w2) \<Rightarrow> (Inl e, w2)
               | (Inr segments', w2) \<Rightarrow>
                 (case as_res (to_int64 (last rows ! 6)) of
                    Inl e \<Rightarrow> (Inl (Wrapped ''last row close time'' e), w2)
                  | Inr last_close \<Rightarrow>
                    (let next_ms = wrap64 (last_close + 1)
                     in if next_ms \<le> cur
                        then (Inl (Err (''pagination stuck at close_time='' @ itoa last_close)), w2)
                        else (case env_wait env request_pause w2 of
                            (Some e, w3) \<Rightarrow> (Inl e, w3)
                          | (None, w3) \<Rightarrow>
                            backfill_loop env pf ins base_url r window end_excl end_incl next_ms segments' w3)))))))"
  by pat_completeness auto
termination
  by (relation "measure (\<lambda>(env, pf, ins, base_url, r, window, end_excl, end_incl, cur, segments, w). nat (end_excl - cur))")
    auto

declare backfill_loop.simps [simp del]

definition backfill_window ::
  "'w rest_env \<Rightarrow> float_parser \<Rightarrow> (kline list \<Rightarrow> 'w \<Rightarrow> go_error option \<times> 'w) \<Rightarrow> kline_request
    \<Rightarrow> time_window \<Rightarrow> 'w \<Rightarrow> coverage_segment list res \<times> 'w" where
  "backfill_window env pf ins r window w =
     backfill_loop env pf ins
       (if rq_market r = ''futures'' then binance_futures_klines_url else binance_spot_klines_url)
       r window (unix_milli (win_end window)) (unix_milli (time_add (win_end window) (- millisecond)))
       (unix_milli (win_start window)) [] w"

subsection \<open>A request, year by year\<close>

text \<open>
  The operations on databases: existence, creation (the driver's error is text the code searches
  for "already exists"), opening a year store with its schema, inserting into it and closing it.
\<close>

record ('st, 'w) admin_env =
  adm_connect :: "string \<Rightarrow> 'w \<Rightarrow> go_error option \<times> 'w" \<comment> \<open>open and ping a database\<close>
  adm_exists :: "string \<Rightarrow> 'w \<Rightarrow> bool res \<times> 'w" \<comment> \<open>the query on \<open>pg_database\<close>\<close>
  adm_create :: "string \<Rightarrow> 'w \<Rightarrow> go_error option \<times> 'w"
  adm_open :: "string \<Rightarrow> 'w \<Rightarrow> 'st res \<times> 'w"
  adm_init :: "'st \<Rightarrow> 'w \<Rightarrow> go_error option \<times> 'w"
  adm_exec :: "'st \<Rightarrow> 'w sql_exec" \<comment> \<open>one statement on the opened database\<close>
  adm_close :: "'st \<Rightarrow> 'w \<Rightarrow> go_error option \<times> 'w"

text \<open>\<open>reSafeDBName\<close>: \<open>^[A-Za-z0-9_]+$\<close>.\<close>

definition safe_db_name :: "string \<Rightarrow> bool" where
  "safe_db_name s \<longleftrightarrow> s \<noteq> [] \<and> (\<forall>c \<in> set s. is_letter c \<or> is_digit c \<or> c = CHR ''_'')"

definition database_exists :: "('st, 'w) admin_env \<Rightarrow> string \<Rightarrow> 'w \<Rightarrow> bool res \<times> 'w" where
  "database_exists adm db w =
     (case adm_connect adm ''postgres'' w of
        (Some e, w1) \<Rightarrow> (Inl e, w1)
      | (None, w1) \<Rightarrow> adm_exists adm db w1)"

definition ensure_database_exists :: "('st, 'w) admin_env \<Rightarrow> string \<Rightarrow> 'w \<Rightarrow> go_error option \<times> 'w" where
  "ensure_database_exists adm db w =
     (case database_exists adm db w of
        (Inl e, w1) \<Rightarrow> (Some e, w1)
      | (Inr True, w1) \<Rightarrow> (None, w1)
      | (Inr False, w1) \<Rightarrow>
        if \<not> safe_db_name db then (Some (Err (''unsafe database name '' @ go_quote db)), w1)
        else (case adm_connect adm ''postgres'' w1 of
            (Some e, w2) \<Rightarrow> (Some e, w2)
          | (None, w2) \<Rightarrow>
            (case adm_create adm db w2 of
               (Some e, w3) \<Rightarrow> if contains (to_lower (error_text e)) ''already exists'' then (None, w3) else (Some e, w3)
             | (None, w3) \<Rightarrow> (None, w3))))"

text \<open>The body of the loop over the windows; an early return closes the store as the code does.\<close>

definition run_window ::
  "'w rest_env \<Rightarrow> float_parser \<Rightarrow> ('st, 'w) admin_env \<Rightarrow> string \<Rightarrow> kline_request \<Rightarrow> time_window
    \<Rightarrow> coverage_segment list \<Rightarrow> 'w \<Rightarrow> coverage_segment list res \<times> 'w" where
  "run_window env pf adm db_name r window segments w =
     (let target = database_for_year db_name (rq_exchange r) (win_year window)
      in case ensure_database_exists adm target w of
        (Some e, w1) \<Rightarrow> (Inl (Wrapped (''ensure year database '' @ target) e), w1)
      | (None, w1) \<Rightarrow>
        (case adm_open adm target w1 of
           (Inl e, w2) \<Rightarrow> (Inl (Wrapped (''open year database '' @ target) e), w2)
         | (Inr st, w2) \<Rightarrow>
           (case adm_init adm st w2 of
              (Some e, w3) \<Rightarrow> (Inl (Wrapped (''init schema for '' @ target) e), snd (adm_close adm st w3))
            | (None, w3) \<Rightarrow>
              (case backfill_window env pf (insert_klines (adm_exec adm st) (rq_exchange r)) r window w3 of
                 (Inl e, w4) \<Rightarrow> (Inl e, snd (adm_close adm st w4))
               | (Inr ws, w4) \<Rightarrow>
                 (case adm_close adm st w4 of
                    (Some e, w5) \<Rightarrow> (Inl (Wrapped (''close year database '' @ target) e), w5)
                  | (None, w5) \<Rightarrow> (Inr (append_coverage_segments segments ws), w5))))))"

fun run_windows ::
  "'w rest_env \<Rightarrow> float_parser \<Rightarrow> ('st, 'w) admin_env \<Rightarrow> string \<Rightarrow> kline_request \<Rightarrow> time_window list
    \<Rightarrow> coverage_segment list \<Rightarrow> 'w \<Rightarrow> coverage_segment list res \<times> 'w" where
  "run_windows env pf adm db_name r [] segments w = (Inr segments, w)"
| "run_windows env pf adm db_name r (window # ws) segments w =
     (case run_window env pf adm db_name r window segments w of
        (Inl e, w1) \<Rightarrow> (Inl e, w1)
      | (Inr segments', w1) \<Rightarrow> run_windows env pf adm db_name r ws segments' w1)"

definition run_kline_request ::
  "'w rest_env \<Rightarrow> float_parser \<Rightarrow> ('st, 'w) admin_env \<Rightarrow> string \<Rightarrow> kline_request \<Rightarrow> 'w
    \<Rightarrow> coverage_segment list res \<times> 'w" where
  "run_kline_request env pf adm db_name r0 w =
     (let r = normalize_kline_request r0
      in case validate_kline_request r of
        Some e \<Rightarrow> (Inl e, w)
      | None \<Rightarrow>
        if rq_exchange r \<noteq> ''binance''
        then (Inl (Err (''historical kline backfill only supports exchange=binance, got '' @ go_quote (rq_exchange r))), w)
        else run_windows env pf adm db_name r (split_by_year (rq_start r) (rq_end r)) [] w)"

end
