(* ===== verification/Backfill_Sound.thy ===== *)
theory Backfill_Sound
  imports Backfill_Run
begin

text \<open>
  What the backfill reports is in the database: the segments of a window, and of a whole request,
  claim only bars that were stored, inside the requested range and in the database of their own
  year. The lemmas rest on two interfaces: \<open>rest_backfill\<close> (a bar store, and an HTTP client that
  leaves it alone and answers with at most the \<open>limit\<close> the query asks for) and \<open>year_stores\<close> (the year
  databases). Both are interpreted on a reference cluster of databases with a scripted network.
\<close>

subsection \<open>The effects of a back-fill\<close>

text \<open>A fact about the world that HTTP, waiting and the inserts keep is kept by the whole loop.\<close>

lemma fetch_loop_keeps:
  assumes "\<And>ep q w a w'. env_http env ep q w = (a, w') \<Longrightarrow> P w \<Longrightarrow> P w'"
    and "\<And>d w a w'. env_wait env d w = (a, w') \<Longrightarrow> P w \<Longrightarrow> P w'"
  shows "fetch_loop env ep q left w = (r, w') \<Longrightarrow> P w \<Longrightarrow> P w'"
proof (induction left arbitrary: w)
  case 0
  then show ?case
    by (subst (asm) fetch_loop.simps) (auto split: prod.splits http_answer.splits if_splits dest: assms)
next
  case (Suc left)
  from Suc.prems show ?case
    by (subst (asm) fetch_loop.simps)
      (auto split: prod.splits http_answer.splits option.splits if_splits dest: assms Suc.IH)
qed

lemma store_page_keeps:
  assumes "\<And>ks w a w'. ins ks w = (a, w') \<Longrightarrow> P w \<Longrightarrow> P w'"
  shows "store_page ins r ks segs w = (x, w') \<Longrightarrow> P w \<Longrightarrow> P w'"
  by (auto simp: store_page_def split: if_splits prod.splits option.splits sum.splits dest: assms)

lemma backfill_loop_stop:
  "\<not> (cur < end_excl \<and> cur \<le> end_incl) \<Longrightarrow>
   backfill_loop env pf ins url r window end_excl end_incl cur segs w = (Inr segs, w)"
  by (subst backfill_loop.simps) auto

text \<open>One round of the loop, by its outcome.\<close>

lemma backfill_loop_round:
  assumes "backfill_loop env pf ins url r window end_excl end_incl cur segs w = (res, w')"
    and "cur < end_excl" "cur \<le> end_incl"
  obtains (stop) rows w1 where
      "fetch_klines env url (rq_symbol r) (rq_interval r) cur end_incl w = (rows, w1)"
      "w' = w1" "res = Inr segs \<or> (\<exists>e. res = Inl e)"
  | (stored) rows w1 ks x where
      "fetch_klines env url (rq_symbol r) (rq_interval r) cur end_incl w = (Inr rows, w1)"
      "parse_rows pf rows (rq_symbol r) (rq_market r) (rq_interval r) = Inr ks"
      "store_page ins r (filter_klines_for_window ks window) segs w1 = (x, w')" "\<exists>e. res = Inl e"
  | (waited) rows w1 ks w2 segs' e where
      "fetch_klines env url (rq_symbol r) (rq_interval r) cur end_incl w = (Inr rows, w1)"
      "parse_rows pf rows (rq_symbol r) (rq_market r) (rq_interval r) = Inr ks"
      "store_page ins r (filter_klines_for_window ks window) segs w1 = (Inr segs', w2)"
      "env_wait env request_pause w2 = (Some e, w')" "res = Inl e"
  | (next_page) rows w1 ks w2 segs' w3 cur' where
      "fetch_klines env url (rq_symbol r) (rq_interval r) cur end_incl w = (Inr rows, w1)"
      "parse_rows pf rows (rq_symbol r) (rq_market r) (rq_interval r) = Inr ks"
      "store_page ins r (filter_klines_for_window ks window) segs w1 = (Inr segs', w2)"
      "env_wait env request_pause w2 = (None, w3)" "cur < cur'"
      "backfill_loop env pf ins url r window end_excl end_incl cur' segs' w3 = (res, w')"
proof -
  obtain a w1 where f: "fetch_klines env url (rq_symbol r) (rq_interval r) cur end_incl w = (a, w1)" by fastforce
  note unf = assms(1) [unfolded backfill_loop.simps [of env pf ins url r window end_excl end_incl cur segs w]]
  show thesis
  proof (cases "\<exists>rows ks. a = Inr rows \<and> rows \<noteq> []
      \<and> parse_rows pf rows (rq_symbol r) (rq_market r) (rq_interval r) = Inr ks")
    case False
    with unf f assms(2,3) show thesis by (intro stop [OF f]) (auto split: sum.splits if_splits)
  next
    case True
    then obtain rows ks where a: "a = Inr rows" "rows \<noteq> []"
      and ks: "parse_rows pf rows (rq_symbol r) (rq_market r) (rq_interval r) = Inr ks" by blast
    obtain x w2 where st: "store_page ins r (filter_klines_for_window ks window) segs w1 = (x, w2)" by fastforce
    note f' = f [unfolded a(1)]
    obtain v w3 where wt: "env_wait env request_pause w2 = (v, w3)" by fastforce
    show thesis
    proof (cases "\<exists>segs' lc. x = Inr segs' \<and> as_res (to_int64 (last rows ! 6)) = Inr lc \<and> cur < wrap64 (lc + 1)")
      case False
      with unf f' a assms(2,3) ks st have out: "w2 = w'" "\<exists>e. res = Inl e"
        by (auto simp: Let_def split: sum.splits if_splits)
      show thesis by (rule stored [OF f' ks st [unfolded out(1)] out(2)])
    next
      case True
      then obtain segs' lc where x: "x = Inr segs'" and lc: "as_res (to_int64 (last rows ! 6)) = Inr lc"
        and lt: "cur < wrap64 (lc + 1)" by blast
      have le: "\<not> wrap64 (lc + 1) \<le> cur" "\<not> end_incl < cur" using lt assms(3) by simp_all
      show thesis
      proof (cases v)
        case None
        with unf f' a assms(2) le ks st x lc wt lt show thesis
          by (intro next_page [OF f' ks st [unfolded x] wt [unfolded None] lt]) (simp add: Let_def)
      next
        case (Some e)
        with unf f' a assms(2) le ks st x lc wt show thesis
          by (intro waited [OF f' ks st [unfolded x]]) (auto simp: Let_def)
      qed
    qed
  qed
qed


lemma backfill_loop_keeps:
  assumes "\<And>ep q w a w'. env_http env ep q w = (a, w') \<Longrightarrow> P w \<Longrightarrow> P w'"
    and "\<And>d w a w'. env_wait env d w = (a, w') \<Longrightarrow> P w \<Longrightarrow> P w'"
    and "\<And>ks w a w'. ins ks w = (a, w') \<Longrightarrow> P w \<Longrightarrow> P w'"
  shows "backfill_loop env pf ins url r window ee ei cur segs w = (res, w') \<Longrightarrow> P w \<Longrightarrow> P w'"
proof (induction "nat (ee - cur)" arbitrary: cur segs w rule: less_induct)
  case less
  have fetch: "P w1" if "fetch_klines env url a b c d w = (x, w1)" for a b c d x w1
    using that less.prems(2) fetch_loop_keeps [of env P, OF assms(1,2)] by (auto simp: fetch_klines_def)
  have page: "P w2" if "store_page ins r ks segs w1 = (x, w2)" "P w1" for ks segs w1 x w2
    by (rule store_page_keeps [of ins P, OF _ that]) (rule assms(3))
  show ?case
  proof (cases "cur < ee \<and> cur \<le> ei")
    case False
    with less.prems show ?thesis by (simp add: backfill_loop_stop)
  next
    case True
    show ?thesis
      using less.prems(1) True[THEN conjunct1] True[THEN conjunct2]
    proof (cases rule: backfill_loop_round)
      case (stop rows w1)
      then show ?thesis using fetch by simp
    next
      case (stored rows w1 ks x)
      then show ?thesis using fetch page by blast
    next
      case (waited rows w1 ks w2 segs' e)
      then show ?thesis using fetch page assms(2) by blast
    next
      case (next_page rows w1 ks w2 segs' w3 cur')
      then have "P w3" using fetch page assms(2) by blast
      then show ?thesis using less.hyps [OF _ next_page(6)] next_page(5) True by simp
    qed
  qed
qed

subsection \<open>Rows and segments of one window\<close>

text \<open>A bar of a request: the fields \<open>restRowToKline\<close> copies from it.\<close>

definition bar_of :: "kline_request \<Rightarrow> kline \<Rightarrow> bool" where
  "bar_of r k \<longleftrightarrow> k_symbol k = rq_symbol r \<and> k_market k = rq_market r \<and> k_interval k = rq_interval r
     \<and> k_exchange k = ''binance'' \<and> k_time k = k_open_time k"

lemma res_bind_Inr: "res_bind r f = Inr y \<longleftrightarrow> (\<exists>x. r = Inr x \<and> f x = Inr y)"
  by (cases r) (simp_all add: res_bind_def)

lemma rest_row_to_kline_bar:
  assumes "rest_row_to_kline pf row (rq_symbol r) (rq_market r) (rq_interval r) = Inr k"
  shows "bar_of r k"
proof (cases "length row < 8")
  case True
  with assms show ?thesis by (simp add: rest_row_to_kline_def)
next
  case False
  show ?thesis
    using assms unfolding rest_row_to_kline_def if_not_P [OF False] res_bind_Inr
    by (elim exE conjE) (auto simp: bar_of_def)
qed

lemma parse_rows_bars:
  "parse_rows pf rows (rq_symbol r) (rq_market r) (rq_interval r) = Inr ks \<Longrightarrow>
   length ks = length rows \<and> (\<forall>k \<in> set ks. bar_of r k)"
  by (induction rows arbitrary: ks) (auto split: sum.splits dest: rest_row_to_kline_bar)

lemma fetch_loop_decoded: "fetch_loop env ep q left w = (Inr rows, w') \<Longrightarrow> \<exists>b. env_decode env b = Inr rows"
proof (induction left arbitrary: w)
  case 0
  then show ?case
    by (subst (asm) fetch_loop.simps)
      (auto simp: wrap_err_def split: prod.splits http_answer.splits if_splits sum.splits)
next
  case (Suc left)
  from Suc.prems show ?case
    by (subst (asm) fetch_loop.simps)
      (auto simp: wrap_err_def split: prod.splits http_answer.splits option.splits if_splits sum.splits dest: Suc.IH)
qed

text \<open>
  Segments of a request at a step whose rows all satisfy \<open>Q\<close>.
\<close>

definition request_base :: "kline_request \<Rightarrow> coverage_segment" where
  "request_base r = segment_base (rq_exchange r) (rq_market r) (rq_symbol r) (rq_interval r)"

definition covered :: "kline_request \<Rightarrow> duration \<Rightarrow> (time \<Rightarrow> bool) \<Rightarrow> coverage_segment list \<Rightarrow> bool" where
  "covered r step Q segs \<longleftrightarrow> (\<forall>s \<in> set segs. wf_segment step s \<and> same_stream s (request_base r))
     \<and> (\<forall>t \<in> set (concat (map (seg_times step) segs)). Q t)"

lemma covered_Nil [simp]: "covered r step Q []"
  by (simp add: covered_def)

lemma covered_mono: "covered r step Q segs \<Longrightarrow> (\<And>t. Q t \<Longrightarrow> Q' t) \<Longrightarrow> covered r step Q' segs"
  by (auto simp: covered_def)

lemma same_stream_update [simp]: "same_stream (a\<lparr>cs_end := x, cs_rows := y\<rparr>) b = same_stream a b"
  by (simp add: same_stream_def)

lemma append_segment_stream:
  "\<forall>s \<in> set dst. same_stream s b \<Longrightarrow> same_stream seg b \<Longrightarrow> \<forall>s \<in> set (append_segment dst seg). same_stream s b"
  by (cases dst rule: rev_cases) (simp_all add: append_segment_def)

lemma append_coverage_segments_stream:
  "\<forall>s \<in> set dst. same_stream s b \<Longrightarrow> \<forall>s \<in> set src. same_stream s b \<Longrightarrow>
   \<forall>s \<in> set (append_coverage_segments dst src). same_stream s b"
proof (induction src arbitrary: dst)
  case (Cons seg src)
  have "\<forall>s \<in> set (append_segment dst seg). same_stream s b"
    using Cons.prems by (intro append_segment_stream) simp_all
  moreover have "\<forall>s \<in> set src. same_stream s b" using Cons.prems(2) by simp
  ultimately have "\<forall>s \<in> set (append_coverage_segments (append_segment dst seg) src). same_stream s b"
    by (rule Cons.IH)
  then show ?case by (simp only: append_coverage_segments_def foldl_Cons)
qed (simp add: append_coverage_segments_def)

lemma covered_append:
  assumes "covered r step Q dst" "covered r step Q src" "total_rows dst + total_rows src \<le> max_int64"
  shows "covered r step Q (append_coverage_segments dst src)
    \<and> total_rows (append_coverage_segments dst src) = total_rows dst + total_rows src"
proof -
  have "\<forall>s \<in> set dst. wf_segment step s" "\<forall>s \<in> set src. wf_segment step s"
    using assms by (auto simp: covered_def)
  note times = append_coverage_segments_times [OF this assms(3)]
  moreover have "\<forall>s \<in> set (append_coverage_segments dst src). same_stream s (request_base r)"
    using assms by (intro append_coverage_segments_stream) (auto simp: covered_def)
  ultimately show ?thesis using assms by (auto simp: covered_def)
qed

lemma collect_open_times_subset: "set (collect_open_times rows seen) \<subseteq> k_open_time ` set rows"
  by (induction rows arbitrary: seen) (auto simp: Let_def subset_iff)

lemma collect_open_times_length: "length (collect_open_times rows seen) \<le> length rows"
  by (induction rows arbitrary: seen) (auto simp: Let_def intro: le_SucI)

lemma covered_batch:
  assumes "build_coverage_segments (rq_exchange r) (rq_market r) (rq_symbol r) (rq_interval r) ks = Inr segs"
    and "coverage_interval_duration (rq_interval r) = Inr step" "\<forall>k \<in> set ks. Q (k_open_time k)"
  shows "covered r step Q segs \<and> total_rows segs \<le> int (length ks)"
proof
  note parts = build_coverage_segments_cases [OF assms(1,2)]
  then show "covered r step Q segs"
    using assms(3) collect_open_times_subset [of ks "[]"] by (auto simp: covered_def request_base_def)
  show "total_rows segs \<le> int (length ks)"
    using parts build_coverage_segments_total [of segs step] collect_open_times_length [of ks "[]"] by simp
qed


subsection \<open>A bar store behind an HTTP client\<close>

text \<open>A bar of the request at an instant of the window is in the store.\<close>

definition stored_at :: "('w \<Rightarrow> kline \<Rightarrow> bool) \<Rightarrow> kline_request \<Rightarrow> time_window \<Rightarrow> 'w \<Rightarrow> time \<Rightarrow> bool" where
  "stored_at has_bar r win w t \<longleftrightarrow> win_start win \<le> t \<and> t < win_end win
     \<and> (\<exists>k. has_bar w k \<and> bar_of r k \<and> k_open_time k = t)"

lemma stored_at_mono:
  "(\<And>k. has_bar w k \<Longrightarrow> has_bar w' k) \<Longrightarrow> stored_at has_bar r win w t \<Longrightarrow> stored_at has_bar r win w' t"
  by (auto simp: stored_at_def)

text \<open>
  The REST client answers a decoded page with at most the \<open>limit\<close> of the query (Binance documents
  \<open>limit\<close> as the maximal number of rows), and neither a request nor a pause touches the store.
\<close>

locale rest_backfill = kline_sink ins has_bar
  for ins :: "kline list \<Rightarrow> 'w \<Rightarrow> go_error option \<times> 'w" and has_bar :: "'w \<Rightarrow> kline \<Rightarrow> bool" +
  fixes env :: "'w rest_env"
  assumes http_keeps: "env_http env ep q w = (a, w') \<Longrightarrow> has_bar w k \<Longrightarrow> has_bar w' k"
    and wait_keeps: "env_wait env d w = (x, w') \<Longrightarrow> has_bar w k \<Longrightarrow> has_bar w' k"
    and decode_bound: "env_decode env b = Inr rows \<Longrightarrow> length rows \<le> 1500"
begin

lemmas stored_mono = stored_at_mono [of has_bar]

lemma fetch_keeps: "fetch_klines env url a b c d w = (x, w') \<Longrightarrow> has_bar w k \<Longrightarrow> has_bar w' k"
  unfolding fetch_klines_def by (rule fetch_loop_keeps [of env "\<lambda>w. has_bar w k", OF http_keeps wait_keeps])

lemma fetch_bound: "fetch_klines env url a b c d w = (Inr rows, w') \<Longrightarrow> length rows \<le> 1500"
  by (auto simp: fetch_klines_def dest!: fetch_loop_decoded intro: decode_bound)

lemma store_page_sound:
  assumes "store_page ins r ks segs w = (Inr segs', w')"
    and "coverage_interval_duration (rq_interval r) = Inr step"
    and "\<forall>k \<in> set ks. bar_of r k \<and> win_start win \<le> k_open_time k \<and> k_open_time k < win_end win"
    and "length ks \<le> 1500" "covered r step (stored_at has_bar r win w) segs" "total_rows segs + 1500 \<le> max_int64"
  shows "covered r step (stored_at has_bar r win w') segs' \<and> total_rows segs' \<le> total_rows segs + 1500"
proof (cases "ks = []")
  case True
  with assms show ?thesis by (simp add: store_page_def)
next
  case False
  from assms(1) False obtain batch where st: "ins ks w = (None, w')"
    and b: "build_coverage_segments (rq_exchange r) (rq_market r) (rq_symbol r) (rq_interval r) ks = Inr batch"
    and s: "segs' = append_coverage_segments segs batch"
    by (auto simp: store_page_def split: if_splits prod.splits option.splits sum.splits)
  have "\<forall>k \<in> set ks. stored_at has_bar r win w' (k_open_time k)"
    using assms(3) insert_stores [OF st] by (auto simp: stored_at_def)
  note new = covered_batch [OF b assms(2) this]
  have old: "covered r step (stored_at has_bar r win w') segs"
    by (rule covered_mono [OF assms(5)]) (rule stored_mono [OF insert_keeps [OF st]])
  have fits: "total_rows segs + total_rows batch \<le> max_int64" using assms(4,6) new by linarith
  note both = covered_append [OF old new [THEN conjunct1] fits]
  then show ?thesis using assms(4) new s by simp
qed

text \<open>The loop invariant bounds the rows by 1500 for each millisecond the cursor has passed.\<close>

lemma backfill_loop_sound:
  assumes step: "coverage_interval_duration (rq_interval r) = Inr step"
  shows "backfill_loop env pf ins url r win ee ei cur segs w = (Inr segs', w') \<Longrightarrow>
    covered r step (stored_at has_bar r win w) segs \<Longrightarrow>
    total_rows segs + 1500 * max 0 (ee - cur) \<le> bnd \<Longrightarrow> bnd \<le> max_int64 \<Longrightarrow>
    covered r step (stored_at has_bar r win w') segs' \<and> total_rows segs' \<le> bnd"
proof (induction "nat (ee - cur)" arbitrary: cur segs w rule: less_induct)
  case less
  have low: "total_rows segs \<le> bnd" using less.prems(3) by (simp add: max_def split: if_splits)
  show ?case
  proof (cases "cur < ee \<and> cur \<le> ei")
    case False
    with False less.prems low show ?thesis by (auto simp: backfill_loop_stop)
  next
    case True
    show ?thesis
      using less.prems(1) True[THEN conjunct1] True[THEN conjunct2]
    proof (cases rule: backfill_loop_round)
      case (stop rows w1)
      have "covered r step (stored_at has_bar r win w') segs"
        by (rule covered_mono [OF less.prems(2)])
          (rule stored_mono [OF fetch_keeps [OF stop(1) [folded stop(2)]]])
      then show ?thesis using stop less.prems low by auto
    next
      case (next_page rows w1 ks w2 segs1 w3 cur')
      have cov1: "covered r step (stored_at has_bar r win w1) segs"
        by (rule covered_mono [OF less.prems(2)]) (rule stored_mono [OF fetch_keeps [OF next_page(1)]])
      have page: "\<forall>k \<in> set (filter_klines_for_window ks win).
          bar_of r k \<and> win_start win \<le> k_open_time k \<and> k_open_time k < win_end win"
        using parse_rows_bars [OF next_page(2)] by (auto simp: filter_klines_for_window_def)
      have len: "length (filter_klines_for_window ks win) \<le> 1500"
        using parse_rows_bars [OF next_page(2)] fetch_bound [OF next_page(1)]
        by (auto simp: filter_klines_for_window_def intro: order_trans [OF length_filter_le])
      have room: "total_rows segs + 1500 \<le> max_int64" using less.prems(3,4) True by (simp add: max_def)
      note sound = store_page_sound [OF next_page(3) step page len cov1 room]
      have "covered r step (stored_at has_bar r win w3) segs1"
        by (rule covered_mono [OF sound [THEN conjunct1]]) (rule stored_mono [OF wait_keeps [OF next_page(4)]])
      moreover have "total_rows segs1 + 1500 * max 0 (ee - cur') \<le> bnd"
        using sound less.prems(3) next_page(5) True by (auto simp: max_def split: if_splits)
      ultimately show ?thesis using less.hyps [OF _ next_page(6)] next_page(5) True less.prems(4) by simp
    qed auto
  qed
qed

lemma backfill_window_sound:
  assumes "backfill_window env pf ins r win w = (Inr segs, w')"
    and "coverage_interval_duration (rq_interval r) = Inr step"
    and "1500 * max 0 (unix_milli (win_end win) - unix_milli (win_start win)) \<le> max_int64"
  shows "covered r step (stored_at has_bar r win w') segs
    \<and> total_rows segs \<le> 1500 * max 0 (unix_milli (win_end win) - unix_milli (win_start win))"
  using backfill_loop_sound [OF assms(2) assms(1) [unfolded backfill_window_def] covered_Nil _ assms(3)] by simp

end


lemma unix_milli_nano: "nano_range t \<Longrightarrow> unix_milli t = t div 1000000"
proof -
  assume t: "nano_range t"
  have "1000000 * (t div 1000000) + t mod 1000000 = t" "0 \<le> t mod 1000000" "t mod 1000000 < 1000000" by simp_all
  then show ?thesis
    unfolding unix_milli_def using t
    by (intro wrap64_id) (unfold nano_range_def min_int64_def max_int64_def, linarith+)
qed

subsection \<open>The year databases\<close>

text \<open>The bar of a request at an instant of its range is in the database of the instant's year.\<close>

definition in_year_db ::
  "('w \<Rightarrow> string \<Rightarrow> string \<Rightarrow> time \<Rightarrow> string \<Rightarrow> bool) \<Rightarrow> string \<Rightarrow> kline_request \<Rightarrow> 'w \<Rightarrow> time \<Rightarrow> bool" where
  "in_year_db has_row db_name r w t \<longleftrightarrow> rq_start r \<le> t \<and> t < rq_end r
     \<and> (\<exists>k. bar_stored (\<lambda>w. has_row w (database_for_year db_name (rq_exchange r) (year_of t))) w k
          \<and> bar_of r k \<and> k_open_time k = t)"

lemma in_year_db_mono:
  "(\<And>d t x s. has_row w d t x s \<Longrightarrow> has_row w' d t x s) \<Longrightarrow>
   in_year_db has_row db_name r w t \<Longrightarrow> in_year_db has_row db_name r w' t"
  unfolding in_year_db_def bar_stored_def by blast

text \<open>
  The databases of the years, by name: an opened store is a handle of the database it was opened
  for, its statements behave as \<open>sql_store\<close> says and no operation of the client or of the
  administration removes a row of any database.
\<close>

locale year_stores =
  fixes env :: "'w rest_env" and adm :: "('st, 'w) admin_env"
    and has_row :: "'w \<Rightarrow> string \<Rightarrow> string \<Rightarrow> time \<Rightarrow> string \<Rightarrow> bool" and db_of :: "'st \<Rightarrow> string"
  assumes open_db: "adm_open adm db w = (Inr st, w') \<Longrightarrow> db_of st = db"
    and exec_row: "adm_exec adm st (Insert_Kline_Row table k) w = (None, w') \<Longrightarrow>
      has_row w' (db_of st) table (k_time k) (k_symbol k)"
    and exec_keep: "adm_exec adm st stmt w = (e, w') \<Longrightarrow> has_row w d t x s \<Longrightarrow> has_row w' d t x s"
    and connect_keep: "adm_connect adm db w = (e, w') \<Longrightarrow> has_row w d t x s \<Longrightarrow> has_row w' d t x s"
    and exists_keep: "adm_exists adm db w = (b, w') \<Longrightarrow> has_row w d t x s \<Longrightarrow> has_row w' d t x s"
    and create_keep: "adm_create adm db w = (e, w') \<Longrightarrow> has_row w d t x s \<Longrightarrow> has_row w' d t x s"
    and open_keep: "adm_open adm db w = (o', w') \<Longrightarrow> has_row w d t x s \<Longrightarrow> has_row w' d t x s"
    and init_keep: "adm_init adm st w = (e, w') \<Longrightarrow> has_row w d t x s \<Longrightarrow> has_row w' d t x s"
    and close_keep: "adm_close adm st w = (e, w') \<Longrightarrow> has_row w d t x s \<Longrightarrow> has_row w' d t x s"
    and http_keep: "env_http env ep q w = (a, w') \<Longrightarrow> has_row w d t x s \<Longrightarrow> has_row w' d t x s"
    and wait_keep: "env_wait env dur w = (e, w') \<Longrightarrow> has_row w d t x s \<Longrightarrow> has_row w' d t x s"
    and decode_limit: "env_decode env body = Inr rows \<Longrightarrow> length rows \<le> 1500"

sublocale year_stores \<subseteq> year: sql_store "adm_exec adm st" "\<lambda>w. has_row w (db_of st)" for st
  by unfold_locales (auto intro: exec_row exec_keep)

sublocale year_stores \<subseteq> page: rest_backfill "insert_klines (adm_exec adm st) ex"
    "bar_stored (\<lambda>w. has_row w (db_of st))" env for st ex
  by unfold_locales (auto simp: bar_stored_def intro: http_keep wait_keep decode_limit)

context year_stores
begin

lemmas year_mono = in_year_db_mono [of has_row]

lemma insert_klines_keep_row:
  "insert_klines (adm_exec adm st) ex ks w = (e, w') \<Longrightarrow> has_row w d t x s \<Longrightarrow> has_row w' d t x s"
proof (induction ks arbitrary: w)
  case (Cons k ks)
  have opt: "optimistic_insert (adm_exec adm st) table i c w = (r, w1) \<Longrightarrow> has_row w1 d t x s" for table i c r w1
    using Cons.prems(2) by (auto simp: optimistic_insert_def split: prod.splits option.splits dest: exec_keep)
  from Cons.prems(1) show ?case
    by (auto simp: Let_def split: prod.splits option.splits dest!: opt intro: Cons.IH)
qed simp

lemma ensure_keep:
  "ensure_database_exists adm db w = (e, w') \<Longrightarrow> has_row w d t x s \<Longrightarrow> has_row w' d t x s"
  by (auto simp: ensure_database_exists_def database_exists_def split: prod.splits option.splits sum.splits bool.splits if_splits
      dest: connect_keep exists_keep create_keep)

lemma backfill_window_keep:
  "backfill_window env pf (insert_klines (adm_exec adm st) ex) r win w = (res, w') \<Longrightarrow>
   has_row w d t x s \<Longrightarrow> has_row w' d t x s"
  unfolding backfill_window_def
  by (rule backfill_loop_keeps [of env "\<lambda>w. has_row w d t x s", OF http_keep wait_keep insert_klines_keep_row])

lemma run_window_stages:
  assumes "run_window env pf adm db_name r win segs w = (Inr segs', w')"
  obtains st ws w1 w2 w3 w4 where
    "ensure_database_exists adm (database_for_year db_name (rq_exchange r) (win_year win)) w = (None, w1)"
    "adm_open adm (database_for_year db_name (rq_exchange r) (win_year win)) w1 = (Inr st, w2)"
    "adm_init adm st w2 = (None, w3)"
    "backfill_window env pf (insert_klines (adm_exec adm st) (rq_exchange r)) r win w3 = (Inr ws, w4)"
    "adm_close adm st w4 = (None, w')" "segs' = append_coverage_segments segs ws"
  using assms by (auto simp: run_window_def Let_def split: prod.splits option.splits sum.splits)

lemma run_window_keep:
  "run_window env pf adm db_name r win segs w = (Inr segs', w') \<Longrightarrow> has_row w d t x s \<Longrightarrow> has_row w' d t x s"
  by (elim run_window_stages) (blast dest: ensure_keep open_keep init_keep backfill_window_keep close_keep)

lemma run_window_sound:
  assumes run: "run_window env pf adm db_name r win segs w = (Inr segs', w')"
    and step: "coverage_interval_duration (rq_interval r) = Inr step"
    and year: "\<And>t. win_start win \<le> t \<Longrightarrow> t < win_end win \<Longrightarrow> year_of t = win_year win"
    and sub: "rq_start r \<le> win_start win" "win_end win \<le> rq_end r"
    and old: "covered r step (in_year_db has_row db_name r w) segs"
    and room: "total_rows segs + 1500 * max 0 (unix_milli (win_end win) - unix_milli (win_start win)) \<le> bnd"
      "0 \<le> total_rows segs" "bnd \<le> max_int64"
  shows "covered r step (in_year_db has_row db_name r w') segs' \<and> total_rows segs' \<le> bnd"
proof -
  let ?db = "database_for_year db_name (rq_exchange r) (win_year win)"
  from run obtain st ws w1 w2 w3 w4 where
    op: "adm_open adm ?db w1 = (Inr st, w2)"
    and bf: "backfill_window env pf (insert_klines (adm_exec adm st) (rq_exchange r)) r win w3 = (Inr ws, w4)"
    and cl: "adm_close adm st w4 = (None, w')" and segs': "segs' = append_coverage_segments segs ws"
    by (rule run_window_stages) blast
  have fits: "1500 * max 0 (unix_milli (win_end win) - unix_milli (win_start win)) \<le> max_int64"
    using room by linarith
  note new = page.backfill_window_sound [OF bf step fits]
  have "covered r step (in_year_db has_row db_name r w') ws"
  proof (rule covered_mono [OF new [THEN conjunct1]])
    fix t assume "stored_at (bar_stored (\<lambda>w. has_row w (db_of st))) r win w4 t"
    then have "stored_at (bar_stored (\<lambda>w. has_row w (db_of st))) r win w' t"
      by (rule stored_at_mono [rotated]) (use close_keep [OF cl] in \<open>auto simp: bar_stored_def\<close>)
    then show "in_year_db has_row db_name r w' t"
      using year sub open_db [OF op] by (auto simp: stored_at_def in_year_db_def)
  qed
  moreover have "covered r step (in_year_db has_row db_name r w') segs"
    by (rule covered_mono [OF old]) (rule year_mono [OF run_window_keep [OF run]])
  moreover have "total_rows segs + total_rows ws \<le> max_int64" using new room by linarith
  ultimately have "covered r step (in_year_db has_row db_name r w') segs'
      \<and> total_rows segs' = total_rows segs + total_rows ws"
    unfolding segs' by (intro covered_append)
  then show ?thesis using new room by linarith
qed

lemma run_windows_sound:
  assumes step: "coverage_interval_duration (rq_interval r) = Inr step"
  shows "run_windows env pf adm db_name r ws segs w = (Inr segs', w') \<Longrightarrow> window_chain s e ws \<Longrightarrow>
    rq_start r \<le> s \<Longrightarrow> e \<le> rq_end r \<Longrightarrow> nano_range s \<Longrightarrow> nano_range e \<Longrightarrow>
    covered r step (in_year_db has_row db_name r w) segs \<Longrightarrow>
    total_rows segs + 1500 * (unix_milli e - unix_milli s) \<le> max_int64 \<Longrightarrow>
    covered r step (in_year_db has_row db_name r w') segs'"
proof (induction ws arbitrary: s segs w)
  case (Cons win ws)
  from Cons.prems(1) obtain segs1 w1 where
    one: "run_window env pf adm db_name r win segs w = (Inr segs1, w1)"
    and rest: "run_windows env pf adm db_name r ws segs1 w1 = (Inr segs', w')"
    by (auto split: prod.splits sum.splits)
  note chain = Cons.prems(2)
  have win: "win_start win = s" "s < win_end win" "window_chain (win_end win) e ws" "win_end win \<le> e"
    using chain window_chain_le [of "win_end win" e ws] by auto
  have mid: "nano_range (win_end win)" using win Cons.prems(5,6) by (auto simp: nano_range_def)
  have ms: "unix_milli s \<le> unix_milli (win_end win)" "unix_milli (win_end win) \<le> unix_milli e"
    using win Cons.prems(5,6) mid by (auto simp: unix_milli_nano zdiv_mono1)
  have pos: "0 \<le> total_rows segs"
    using Cons.prems(7) by (intro total_rows_nonneg) (auto simp: covered_def)
  have year: "year_of t = win_year win" if "win_start win \<le> t" "t < win_end win" for t
    by (rule window_chain_years [OF chain _ that]) simp
  have sub: "rq_start r \<le> win_start win" "win_end win \<le> rq_end r" using win Cons.prems(3,4) by auto
  let ?bnd = "total_rows segs + 1500 * max 0 (unix_milli (win_end win) - unix_milli (win_start win))"
  have "?bnd \<le> max_int64" using Cons.prems(8) ms win(1) by simp
  note w1 = run_window_sound [OF one step year sub Cons.prems(7) order_refl pos this]
  have "total_rows segs1 + 1500 * (unix_milli e - unix_milli (win_end win)) \<le> max_int64"
    using w1 Cons.prems(8) ms win(1) by simp
  then show ?case
    using Cons.IH [OF rest win(3) _ Cons.prems(4) mid Cons.prems(6) w1 [THEN conjunct1]] win(1,2) Cons.prems(3)
    by linarith
qed simp

end

subsection \<open>A reference cluster\<close>

text \<open>
  The databases of the years as reference databases by name, and a network that plays a list of
  answers; the decoder knows the texts of its pages.
\<close>

record site =
  site_dbs :: "(string \<times> pg_db) list"
  site_net :: "http_answer list"

definition site_db :: "string \<Rightarrow> site \<Rightarrow> pg_db" where
  "site_db name w = (case map_of (site_dbs w) name of Some db \<Rightarrow> db | None \<Rightarrow> empty_pg)"

definition site_has_row :: "site \<Rightarrow> string \<Rightarrow> string \<Rightarrow> time \<Rightarrow> string \<Rightarrow> bool" where
  "site_has_row w d t x s \<longleftrightarrow> pg_has_row (site_db d w) t x s"

definition site_exec :: "string \<Rightarrow> site sql_exec" where
  "site_exec d stmt w = (case pg_exec stmt (site_db d w) of
     (e, db) \<Rightarrow> (e, w\<lparr>site_dbs := (d, db) # site_dbs w\<rparr>))"

definition site_adm :: "(string, site) admin_env" where
  "site_adm = \<lparr>adm_connect = (\<lambda>d w. (None, w)),
     adm_exists = (\<lambda>d w. (Inr (map_of (site_dbs w) d \<noteq> None), w)),
     adm_create = (\<lambda>d w. if map_of (site_dbs w) d = None then (None, w\<lparr>site_dbs := (d, empty_pg) # site_dbs w\<rparr>)
                         else (Some (Err (''pq: database '' @ go_quote d @ '' already exists'')), w)),
     adm_open = (\<lambda>d w. (Inr d, w)), adm_init = (\<lambda>d w. (None, w)), adm_exec = site_exec,
     adm_close = (\<lambda>d w. (None, w))\<rparr>"

definition site_env :: "(string \<times> json list list) list \<Rightarrow> site rest_env" where
  "site_env pages = \<lparr>env_http = (\<lambda>ep q w. case site_net w of
       [] \<Rightarrow> (Http_Error (Err ''EOF''), w)
     | a # as \<Rightarrow> (a, w\<lparr>site_net := as\<rparr>)),
     env_wait = (\<lambda>d w. (None, w)),
     env_decode = (\<lambda>b. case map_of pages b of
       Some rows \<Rightarrow> if length rows \<le> 1500 then Inr rows else Inl (Err ''too many rows'')
     | None \<Rightarrow> Inl (Err ''invalid character''))\<rparr>"

lemma site_db_update [simp]:
  "site_db d' (w\<lparr>site_dbs := (d, db) # site_dbs w\<rparr>) = (if d' = d then db else site_db d' w)"
  "site_db d' (w\<lparr>site_net := as\<rparr>) = site_db d' w"
  by (auto simp: site_db_def)

lemma site_exec_keeps: "site_exec d stmt w = (e, w') \<Longrightarrow> site_has_row w d' t x s \<Longrightarrow> site_has_row w' d' t x s"
  by (auto simp: site_exec_def site_has_row_def split: prod.splits dest: pg.exec_keeps)

lemma site_exec_row:
  "site_exec d (Insert_Kline_Row table k) w = (None, w') \<Longrightarrow> site_has_row w' d table (k_time k) (k_symbol k)"
  unfolding site_exec_def
  by (cases "pg_exec (Insert_Kline_Row table k) (site_db d w)")
    (auto simp: site_has_row_def dest: pg.exec_insert simp del: pg_exec.simps)

lemma site_create_keeps:
  "map_of (site_dbs w) d = None \<Longrightarrow> site_has_row w d' t x s \<Longrightarrow>
   site_has_row (w\<lparr>site_dbs := (d, empty_pg) # site_dbs w\<rparr>) d' t x s"
  by (auto simp: site_has_row_def) (simp add: site_db_def)

lemma site_net_keeps: "site_has_row w d t x s \<Longrightarrow> site_has_row (w\<lparr>site_net := as\<rparr>) d t x s"
  by (simp add: site_has_row_def)

interpretation site: year_stores "site_env pages" site_adm site_has_row "\<lambda>d. d" for pages
  by unfold_locales
    (auto simp: site_adm_def site_env_def split: if_splits option.splits list.splits
      intro: site_exec_keeps site_exec_row site_create_keeps site_net_keeps)

subsection \<open>Properties\<close>

text \<open>
  C1. The coverage a back-fill reports is real: when \<open>RunKlineRequest\<close> returns segments, every
  open time they stand for lies in the requested range and in the segment's own year, and a bar of
  the request with that open time is stored in the database of that year, whatever the pages,
  retries, gaps and duplicates the exchange answered with.
\<close>

theorem backfill_reports_stored_bars:
  assumes "year_stores env adm has_row db_of"
    and "run_kline_request env pf adm db_name r0 w = (Inr segs, w')"
    and "coverage_interval_duration (rq_interval (normalize_kline_request r0)) = Inr step"
    and "nano_range (rq_start r0)" and "nano_range (rq_end r0)"
    and "seg \<in> set segs" and "t \<in> set (seg_times step seg)"
  shows "year_of t = cs_year seg \<and> in_year_db has_row db_name (normalize_kline_request r0) w' t
    \<and> same_stream seg (request_base (normalize_kline_request r0))"
proof -
  define r where "r = normalize_kline_request r0"
  have range: "rq_start r = rq_start r0" "rq_end r = rq_end r0"
    by (simp_all add: r_def normalize_kline_request_def Let_def)
  have run: "run_windows env pf adm db_name r (split_by_year (rq_start r) (rq_end r)) [] w = (Inr segs, w')"
    using assms(2) unfolding run_kline_request_def Let_def r_def [symmetric]
    by (auto split: option.splits if_splits)
  have lt: "rq_start r < rq_end r"
    using assms(2) unfolding run_kline_request_def Let_def r_def [symmetric]
    by (auto simp: validate_kline_request_def split: option.splits if_splits)
  note ms = unix_milli_nano [OF assms(4)] unix_milli_nano [OF assms(5)]
  have "rq_start r0 div 1000000 \<ge> min_int64 div 1000000" "rq_end r0 div 1000000 \<le> max_int64 div 1000000"
    using assms(4,5) by (auto simp: nano_range_def intro: zdiv_mono1)
  then have room: "total_rows [] + 1500 * (unix_milli (rq_end r) - unix_milli (rq_start r)) \<le> max_int64"
    by (simp add: range ms max_int64_def min_int64_def)
  have "covered r step (in_year_db has_row db_name r w') segs"
    using year_stores.run_windows_sound [OF assms(1) assms(3) [folded r_def] run
        split_by_year_window_chain [OF lt] order_refl order_refl _ _ covered_Nil room] assms(4,5)
    by (simp add: range)
  then show ?thesis using assms(6,7) unfolding r_def [symmetric] by (auto simp: covered_def wf_segment_def)
qed

text \<open>A request over New Year, in two windows; the second page is answered after one 429.\<close>

definition sample_row :: "string \<Rightarrow> string \<Rightarrow> json list" where
  "sample_row open_ms close_ms = [J_Str open_ms, J_Str ''1'', J_Str ''1'', J_Str ''1'', J_Str ''1'', J_Str ''1'', J_Str close_ms, J_Str ''1'']"

definition sample_pages :: "(string \<times> json list list) list" where
  "sample_pages =
     [(''p1'', [sample_row ''1767225540000'' ''1767225599999'']),
      (''p2'', [sample_row ''1767225600000'' ''1767225659999'', sample_row ''1767225660000'' ''1767225719999''])]"

definition sample_site :: site where
  "sample_site = \<lparr>site_dbs = [], site_net = [Http_Response 200 ''200 OK'' [] ''p1'',
     Http_Response 429 ''429 Too Many Requests'' ''3'' [], Http_Response 200 ''200 OK'' [] ''p2'']\<rparr>"

definition sample_request :: kline_request where
  "sample_request = \<lparr>rq_exchange = '' '', rq_market = ''Futures'', rq_symbol = ''btcusdt'', rq_interval = ''1m'',
     rq_start = 1767225540000000000, rq_end = 1767225720000000000\<rparr>"

theorem backfill_reports_stored_bars_witness:
  "in_year_db site_has_row [] (normalize_kline_request sample_request)
     (snd (run_kline_request (site_env sample_pages) (\<lambda>s. (0, None)) site_adm [] sample_request sample_site))
     1767225660000000000"
proof -
  have run: "run_kline_request (site_env sample_pages) (\<lambda>s. (0, None)) site_adm [] sample_request sample_site
    = (Inr [minute_segment 1767225540000000000 1, minute_segment 1767225600000000000 2],
       snd (run_kline_request (site_env sample_pages) (\<lambda>s. (0, None)) site_adm [] sample_request sample_site))"
    (is "?r = (Inr ?segs, _)")
  proof -
    have "fst ?r = Inr ?segs" by code_simp
    then show ?thesis by (metis prod.collapse)
  qed
  have iv: "coverage_interval_duration (rq_interval (normalize_kline_request sample_request)) = Inr minute"
    by code_simp
  have t: "1767225660000000000 \<in> set (seg_times minute (minute_segment 1767225600000000000 2))"
    by code_simp
  have "nano_range (rq_start sample_request)" "nano_range (rq_end sample_request)"
    by (simp_all add: sample_request_def nano_range_def min_int64_def max_int64_def)
  from backfill_reports_stored_bars [OF site.year_stores_axioms run iv this _ t] show ?thesis by simp
qed

text \<open>
  A week or month interval passes the validation of a request, but a back-fill with it cannot
  succeed: once a page has bars they are inserted, and then \<open>BuildCoverageSegments\<close> rejects the
  unit, so the request fails with its bars stored and no coverage reported.
\<close>

theorem week_backfill_fails_after_insert:
  assumes "last (trim_space (rq_interval r)) \<in> {CHR ''w'', CHR ''M''}"
    and "ks \<noteq> []" and "ins ks w = (None, w')"
  shows "\<exists>e. store_page ins r ks segs w = (Inl (Wrapped ''build coverage segments'' e), w')"
proof -
  have "\<exists>e. coverage_interval_duration (rq_interval r) = Inl e"
    using assms(1) by (auto simp: coverage_interval_duration_def Let_def split: option.splits)
  then show ?thesis using assms(2,3) by (auto simp: store_page_def build_coverage_segments_def)
qed

definition weekly_request :: kline_request where
  "weekly_request = sample_request\<lparr>rq_exchange := ''binance'', rq_market := ''futures'', rq_interval := ''1w''\<rparr>"

theorem week_backfill_fails_after_insert_witness:
  "validate_kline_request weekly_request = None
   \<and> (\<exists>e. store_page (insert_klines pg_exec ''binance'') weekly_request [sample_kline ''1w'' 0] [] empty_pg
        = (Inl (Wrapped ''build coverage segments'' e),
           \<lparr>pg_tables = [''spot_klines_btcusdt_1w''],
             pg_rows = [(''spot_klines_btcusdt_1w'', 0, ''BTCUSDT'')]\<rparr>))"
proof
  show "validate_kline_request weekly_request = None" by code_simp
  have l: "last (trim_space (rq_interval weekly_request)) \<in> {CHR ''w'', CHR ''M''}" by code_simp
  have i: "insert_klines pg_exec ''binance'' [sample_kline ''1w'' 0] empty_pg
    = (None, \<lparr>pg_tables = [''spot_klines_btcusdt_1w''], pg_rows = [(''spot_klines_btcusdt_1w'', 0, ''BTCUSDT'')]\<rparr>)"
    by code_simp
  show "\<exists>e. store_page (insert_klines pg_exec ''binance'') weekly_request [sample_kline ''1w'' 0] [] empty_pg
    = (Inl (Wrapped ''build coverage segments'' e),
       \<lparr>pg_tables = [''spot_klines_btcusdt_1w''], pg_rows = [(''spot_klines_btcusdt_1w'', 0, ''BTCUSDT'')]\<rparr>)"
    using week_backfill_fails_after_insert [where ins = "insert_klines pg_exec ''binance''"
        and ks = "[sample_kline ''1w'' 0]" and segs = "[]", OF l _ i] by simp
qed

end
