(* ===== verification/Storage_Router.thy ===== *)
theory Storage_Router
  imports Backfill_Sound
begin

text \<open>
  The market-data write router (\<open>internal/storage/write_router.go\<close>): a batch is grouped by writer
  lease domain (exchange, market, kind, symbol, interval, year); for every group a lease is acquired,
  the store of the exchange's year is looked up or opened, and the group is written to it. The
  stores, the factory that opens them and the lease manager are Go interfaces: fields of
  \<open>router_env\<close> on a world \<open>'w\<close>. The router's own state is the map of opened stores. Two more fields
  stand for what Go leaves open: the order in which a map is ranged over, and what other
  goroutines do to the store map while \<open>storeFor\<close> has released the mutex. \<open>now\<close> is the clock's
  instant, which replaces a zero time.
\<close>

record writer_lease_domain =
  wd_exchange :: string
  wd_market :: string
  wd_kind :: string
  wd_symbol :: string
  wd_interval :: string
  wd_year :: int

record writer_lease =
  wl_lease_id :: string
  wl_owner_instance_id :: string
  wl_scraper_instance_id :: string
  wl_collector_id :: string
  wl_status :: string
  wl_expires_at :: time

subsection \<open>Domains and keys\<close>

definition year_from :: "time \<Rightarrow> time \<Rightarrow> int" where
  "year_from now ts = year_of (if is_zero ts then now else ts)"

definition normalize_writer_lease_domain :: "time \<Rightarrow> writer_lease_domain \<Rightarrow> writer_lease_domain" where
  "normalize_writer_lease_domain now d =
     \<lparr>wd_exchange = norm_lower (wd_exchange d), wd_market = norm_lower (wd_market d),
      wd_kind = norm_lower (wd_kind d), wd_symbol = norm_upper (wd_symbol d),
      wd_interval = trim_space (wd_interval d),
      wd_year = (if wd_year d < 1970 then year_of now else wd_year d)\<rparr>"

definition domain_for_kline :: "time \<Rightarrow> kline \<Rightarrow> time \<Rightarrow> writer_lease_domain" where
  "domain_for_kline now k ts = normalize_writer_lease_domain now
     \<lparr>wd_exchange = k_exchange k, wd_market = k_market k, wd_kind = ''kline'', wd_symbol = k_symbol k,
      wd_interval = k_interval k, wd_year = year_from now ts\<rparr>"

definition domain_for_order_book :: "time \<Rightarrow> order_book \<Rightarrow> writer_lease_domain" where
  "domain_for_order_book now ob = normalize_writer_lease_domain now
     \<lparr>wd_exchange = ob_exchange ob, wd_market = ob_market ob, wd_kind = ''orderbook'', wd_symbol = ob_symbol ob,
      wd_interval = [], wd_year = year_from now (ob_time ob)\<rparr>"

definition domain_for_funding_rate :: "time \<Rightarrow> funding_rate \<Rightarrow> writer_lease_domain" where
  "domain_for_funding_rate now fr = normalize_writer_lease_domain now
     \<lparr>wd_exchange = fr_exchange fr, wd_market = fr_market fr, wd_kind = ''funding_rate'', wd_symbol = fr_symbol fr,
      wd_interval = [], wd_year = year_from now (fr_time fr)\<rparr>"

definition domain_for_open_interest :: "time \<Rightarrow> open_interest \<Rightarrow> writer_lease_domain" where
  "domain_for_open_interest now oi = normalize_writer_lease_domain now
     \<lparr>wd_exchange = oi_exchange oi, wd_market = oi_market oi, wd_kind = ''open_interest'', wd_symbol = oi_symbol oi,
      wd_interval = [], wd_year = year_from now (oi_time oi)\<rparr>"

definition collector_id :: "writer_lease_domain \<Rightarrow> string" where
  "collector_id d =
     (let iv = trim_space (wd_interval d)
      in join '':'' [norm_lower (wd_exchange d), norm_lower (wd_market d), norm_lower (wd_kind d),
           norm_upper (wd_symbol d), if iv = [] then ''-'' else iv, itoa (wd_year d)])"

type_synonym route_key = "string \<times> int"

definition domain_route_key :: "writer_lease_domain \<Rightarrow> route_key" where
  "domain_route_key d = (norm_lower (wd_exchange d), wd_year d)"

definition route_key_string :: "route_key \<Rightarrow> string" where
  "route_key_string k = fst k @ ''_'' @ itoa (snd k)"

subsection \<open>Leases and stores\<close>

type_synonym ('st, 'w) router_state = "(string \<times> 'st) list \<times> 'w"

record ('st, 'w) router_env =
  rt_factory :: "(string \<Rightarrow> int \<Rightarrow> 'w \<Rightarrow> 'st res \<times> 'w) option"
  rt_lease :: "(writer_lease_domain \<Rightarrow> string \<Rightarrow> 'w \<Rightarrow> writer_lease res \<times> 'w) option"
  rt_klines :: "'st \<Rightarrow> kline list \<Rightarrow> 'w \<Rightarrow> go_error option \<times> 'w"
  rt_order_book :: "'st \<Rightarrow> order_book \<Rightarrow> 'w \<Rightarrow> go_error option \<times> 'w"
  rt_funding_rate :: "'st \<Rightarrow> funding_rate \<Rightarrow> 'w \<Rightarrow> go_error option \<times> 'w"
  rt_open_interest :: "'st \<Rightarrow> open_interest \<Rightarrow> 'w \<Rightarrow> go_error option \<times> 'w"
  rt_open_interests :: "'st \<Rightarrow> open_interest list \<Rightarrow> 'w \<Rightarrow> go_error option \<times> 'w"
  rt_close :: "'st \<Rightarrow> 'w \<Rightarrow> go_error option \<times> 'w"
  rt_others :: "('st, 'w) router_state \<Rightarrow> ('st, 'w) router_state"
  rt_range_klines :: "(writer_lease_domain \<times> kline list) list \<Rightarrow> (writer_lease_domain \<times> kline list) list"
  rt_range_interests :: "(writer_lease_domain \<times> open_interest list) list \<Rightarrow> (writer_lease_domain \<times> open_interest list) list"
  rt_range_stores :: "(string \<times> 'st) list \<Rightarrow> (string \<times> 'st) list"

text \<open>A lease of a router without a manager is the empty lease.\<close>

definition no_lease :: writer_lease where
  "no_lease = \<lparr>wl_lease_id = [], wl_owner_instance_id = [], wl_scraper_instance_id = [], wl_collector_id = [],
     wl_status = [], wl_expires_at = zero_time\<rparr>"

definition acquire_lease :: "('st, 'w) router_env \<Rightarrow> time \<Rightarrow> writer_lease_domain \<Rightarrow> 'w \<Rightarrow> writer_lease res \<times> 'w" where
  "acquire_lease env now d0 w =
     (let d = normalize_writer_lease_domain now d0
      in case rt_lease env of
        None \<Rightarrow> (Inr no_lease, w)
      | Some acquire \<Rightarrow>
        (case acquire d (collector_id d) w of
           (Inl e, w1) \<Rightarrow> (Inl (Wrapped (''acquire writer lease '' @ collector_id d) e), w1)
         | (Inr lease, w1) \<Rightarrow> (Inr lease, w1)))"

definition store_for :: "('st, 'w) router_env \<Rightarrow> route_key \<Rightarrow> ('st, 'w) router_state \<Rightarrow> 'st res \<times> ('st, 'w) router_state" where
  "store_for env key s =
     (case rt_factory env of
        None \<Rightarrow> (Inl (Err ''market-data write router factory is not configured''), s)
      | Some factory \<Rightarrow>
        if fst key = [] then (Inl (Err ''exchange is required for market-data write routing''), s)
        else (case map_of (fst s) (route_key_string key) of
            Some st \<Rightarrow> (Inr st, s)
          | None \<Rightarrow>
            (case factory (fst key) (snd key) (snd s) of
               (Inl e, w1) \<Rightarrow> (Inl e, (fst s, w1))
             | (Inr st, w1) \<Rightarrow>
               (let s2 = rt_others env (fst s, w1)
                in case map_of (fst s2) (route_key_string key) of
                  Some existing \<Rightarrow> (Inr existing, (fst s2, snd (rt_close env st (snd s2))))
                | None \<Rightarrow> (Inr st, ((route_key_string key, st) # fst s2, snd s2))))))"

text \<open>
  The common part of the five insert operations: lease, store, write. The write's log line is
  not modelled.
\<close>

definition routed :: "('st, 'w) router_env \<Rightarrow> time \<Rightarrow> writer_lease_domain \<Rightarrow> ('st \<Rightarrow> 'w \<Rightarrow> go_error option \<times> 'w)
    \<Rightarrow> ('st, 'w) router_state \<Rightarrow> go_error option \<times> ('st, 'w) router_state" where
  "routed env now d write s =
     (case acquire_lease env now d (snd s) of
        (Inl e, w1) \<Rightarrow> (Some e, (fst s, w1))
      | (Inr lease, w1) \<Rightarrow>
        (case store_for env (domain_route_key d) (fst s, w1) of
           (Inl e, s2) \<Rightarrow> (Some e, s2)
         | (Inr st, s2) \<Rightarrow>
           (case write st (snd s2) of (r, w3) \<Rightarrow> (r, (fst s2, w3)))))"

text \<open>\<open>groups[domain] = append(groups[domain], x)\<close>, for each element.\<close>

fun add_to_group :: "'d \<Rightarrow> 'a \<Rightarrow> ('d \<times> 'a list) list \<Rightarrow> ('d \<times> 'a list) list" where
  "add_to_group d x [] = [(d, [x])]"
| "add_to_group d x ((d', xs) # gs) =
     (if d' = d then (d', xs @ [x]) # gs else (d', xs) # add_to_group d x gs)"

definition group_by :: "('a \<Rightarrow> 'd) \<Rightarrow> 'a list \<Rightarrow> ('d \<times> 'a list) list" where
  "group_by f xs = foldl (\<lambda>gs x. add_to_group (f x) x gs) [] xs"

fun routed_groups :: "('st, 'w) router_env \<Rightarrow> time \<Rightarrow> ('st \<Rightarrow> 'a list \<Rightarrow> 'w \<Rightarrow> go_error option \<times> 'w)
    \<Rightarrow> (writer_lease_domain \<times> 'a list) list \<Rightarrow> ('st, 'w) router_state \<Rightarrow> go_error option \<times> ('st, 'w) router_state" where
  "routed_groups env now write [] s = (None, s)"
| "routed_groups env now write ((d, batch) # gs) s =
     (case routed env now d (\<lambda>st. write st batch) s of
        (Some e, s1) \<Rightarrow> (Some e, s1)
      | (None, s1) \<Rightarrow> routed_groups env now write gs s1)"

definition kline_domain :: "time \<Rightarrow> kline \<Rightarrow> writer_lease_domain" where
  "kline_domain now k = domain_for_kline now k (if is_zero (k_open_time k) then k_time k else k_open_time k)"

definition router_insert_klines ::
  "('st, 'w) router_env \<Rightarrow> time \<Rightarrow> kline list \<Rightarrow> ('st, 'w) router_state \<Rightarrow> go_error option \<times> ('st, 'w) router_state" where
  "router_insert_klines env now ks s =
     routed_groups env now (rt_klines env) (rt_range_klines env (group_by (kline_domain now) ks)) s"

definition router_insert_order_book ::
  "('st, 'w) router_env \<Rightarrow> time \<Rightarrow> order_book \<Rightarrow> ('st, 'w) router_state \<Rightarrow> go_error option \<times> ('st, 'w) router_state" where
  "router_insert_order_book env now ob s =
     routed env now (domain_for_order_book now ob) (\<lambda>st. rt_order_book env st ob) s"

definition router_insert_funding_rate ::
  "('st, 'w) router_env \<Rightarrow> time \<Rightarrow> funding_rate \<Rightarrow> ('st, 'w) router_state \<Rightarrow> go_error option \<times> ('st, 'w) router_state" where
  "router_insert_funding_rate env now fr s =
     routed env now (domain_for_funding_rate now fr) (\<lambda>st. rt_funding_rate env st fr) s"

definition router_insert_open_interest ::
  "('st, 'w) router_env \<Rightarrow> time \<Rightarrow> open_interest \<Rightarrow> ('st, 'w) router_state \<Rightarrow> go_error option \<times> ('st, 'w) router_state" where
  "router_insert_open_interest env now oi s =
     routed env now (domain_for_open_interest now oi) (\<lambda>st. rt_open_interest env st oi) s"

definition router_insert_open_interests ::
  "('st, 'w) router_env \<Rightarrow> time \<Rightarrow> open_interest list \<Rightarrow> ('st, 'w) router_state \<Rightarrow> go_error option \<times> ('st, 'w) router_state" where
  "router_insert_open_interests env now ois s =
     routed_groups env now (rt_open_interests env) (rt_range_interests env (group_by (domain_for_open_interest now) ois)) s"

text \<open>\<open>Close\<close>: every store is closed and forgotten; the first error is returned.\<close>

fun close_stores :: "('st, 'w) router_env \<Rightarrow> (string \<times> 'st) list \<Rightarrow> go_error option \<Rightarrow> 'w \<Rightarrow> go_error option \<times> 'w" where
  "close_stores env [] first w = (first, w)"
| "close_stores env ((key, st) # rest) first w =
     (case rt_close env st w of
        (Some e, w1) \<Rightarrow> close_stores env rest (if first = None then Some (Wrapped (''close '' @ key) e) else first) w1
      | (None, w1) \<Rightarrow> close_stores env rest first w1)"

definition router_close :: "('st, 'w) router_env \<Rightarrow> ('st, 'w) router_state \<Rightarrow> go_error option \<times> ('st, 'w) router_state" where
  "router_close env s = (case close_stores env (rt_range_stores env (fst s)) None (snd s) of (r, w1) \<Rightarrow> (r, ([], w1)))"

subsection \<open>Lemmas: groups\<close>

lemma add_to_group_map:
  assumes "distinct ds" "f x \<notin> set ds \<longrightarrow> filter (\<lambda>y. f y = f x) xs = []"
  shows "add_to_group (f x) x (map (\<lambda>d. (d, filter (\<lambda>y. f y = d) xs)) ds)
    = map (\<lambda>d. (d, filter (\<lambda>y. f y = d) (xs @ [x]))) (if f x \<in> set ds then ds else ds @ [f x])"
  using assms
proof (induction ds)
  case (Cons d ds)
  show ?case
  proof (cases "d = f x")
    case True
    with Cons.prems show ?thesis by (auto intro!: map_cong)
  next
    case False
    with Cons show ?thesis by auto
  qed
qed simp

text \<open>The groups are the fibres of \<open>f\<close>, each once, with the elements in their order.\<close>

lemma group_by_fibres:
  "\<exists>ds. distinct ds \<and> set ds = f ` set xs \<and> group_by f xs = map (\<lambda>d. (d, filter (\<lambda>y. f y = d) xs)) ds"
proof (induction xs rule: rev_induct)
  case (snoc x xs)
  then obtain ds where ds: "distinct ds" "set ds = f ` set xs"
    and g: "group_by f xs = map (\<lambda>d. (d, filter (\<lambda>y. f y = d) xs)) ds" by blast
  have "group_by f (xs @ [x]) = add_to_group (f x) x (group_by f xs)" by (simp add: group_by_def)
  also have "\<dots> = map (\<lambda>d. (d, filter (\<lambda>y. f y = d) (xs @ [x]))) (if f x \<in> set ds then ds else ds @ [f x])"
    unfolding g
  proof (rule add_to_group_map [OF ds(1)])
    show "f x \<notin> set ds \<longrightarrow> filter (\<lambda>y. f y = f x) xs = []"
      unfolding ds(2) filter_empty_conv by (metis image_eqI)
  qed
  finally show ?case
    using ds by (intro exI [of _ "if f x \<in> set ds then ds else ds @ [f x]"]) auto
qed (simp add: group_by_def)

lemma group_by_member: "(d, ys) \<in> set (group_by f xs) \<longleftrightarrow> d \<in> f ` set xs \<and> ys = filter (\<lambda>x. f x = d) xs"
proof -
  obtain ds where "set ds = f ` set xs" "group_by f xs = map (\<lambda>d. (d, filter (\<lambda>y. f y = d) xs)) ds"
    using group_by_fibres [of f xs] by blast
  then show ?thesis by auto
qed

lemma group_by_distinct: "distinct (map fst (group_by f xs))"
proof -
  obtain ds where "distinct ds" "group_by f xs = map (\<lambda>d. (d, filter (\<lambda>y. f y = d) xs)) ds"
    using group_by_fibres [of f xs] by blast
  then show ?thesis by (simp add: o_def)
qed

subsection \<open>Lemmas: keys\<close>

lemma itoa_no_underscore: "CHR ''_'' \<notin> set (itoa i)"
proof -
  have d: "\<not> is_digit CHR ''_''" by (simp add: is_digit_def)
  show ?thesis using itoa_nat_digits [of "CHR ''_''"] d by (auto simp: itoa_def)
qed

lemma append_last_separator:
  assumes "xs @ [c] @ ys = us @ [c] @ vs" "c \<notin> set ys" "c \<notin> set vs"
  shows "xs = us \<and> ys = vs"
proof -
  have "rev ys @ [c] @ rev xs = rev vs @ [c] @ rev us" using arg_cong [OF assms(1), of rev] by simp
  then have "takeWhile (\<lambda>x. x \<noteq> c) (rev ys @ [c] @ rev xs) = takeWhile (\<lambda>x. x \<noteq> c) (rev vs @ [c] @ rev us)" by simp
  moreover have "takeWhile (\<lambda>x. x \<noteq> c) (rev ys @ [c] @ rev xs) = rev ys"
    "takeWhile (\<lambda>x. x \<noteq> c) (rev vs @ [c] @ rev us) = rev vs"
    using assms(2,3) by (subst takeWhile_append2; auto)+
  ultimately have "ys = vs" by simp
  with assms(1) show ?thesis by simp
qed

lemma route_key_string_inj: "route_key_string k = route_key_string l \<Longrightarrow> k = l"
  using append_last_separator [of "fst k" "CHR ''_''" "itoa (snd k)" "fst l" "itoa (snd l)"] itoa_no_underscore
  by (auto simp: route_key_string_def prod_eq_iff dest: itoa_inj)

lemma normalize_domain_idem [simp]:
  "1970 \<le> year_of now \<Longrightarrow>
   normalize_writer_lease_domain now' (normalize_writer_lease_domain now d) = normalize_writer_lease_domain now d"
  by (auto simp: normalize_writer_lease_domain_def)

lemma kline_domain_route_key:
  "domain_route_key (kline_domain now k) =
    (norm_lower (k_exchange k), wd_year (kline_domain now k))"
  by (simp add: domain_route_key_def kline_domain_def domain_for_kline_def normalize_writer_lease_domain_def)

lemma kline_domain_year:
  "\<not> is_zero (k_open_time k) \<Longrightarrow> 1970 \<le> year_of (k_open_time k) \<Longrightarrow>
   wd_year (kline_domain now k) = year_of (k_open_time k)"
  by (simp add: kline_domain_def domain_for_kline_def normalize_writer_lease_domain_def year_from_def)

subsection \<open>Lemmas: the store map\<close>

definition extends :: "(string \<times> 'st) list \<Rightarrow> (string \<times> 'st) list \<Rightarrow> bool" where
  "extends a b \<longleftrightarrow> (\<forall>n st. map_of a n = Some st \<longrightarrow> map_of b n = Some st)"

lemma extends_refl [simp]: "extends a a"
  by (simp add: extends_def)

lemma extends_trans: "extends a b \<Longrightarrow> extends b c \<Longrightarrow> extends a c"
  by (simp add: extends_def)

lemma extends_new: "map_of a n = None \<Longrightarrow> extends a ((n, st) # a)"
  by (auto simp: extends_def)

definition others_extend :: "('st, 'w) router_env \<Rightarrow> bool" where
  "others_extend env \<longleftrightarrow> (\<forall>s. extends (fst s) (fst (rt_others env s)))"

lemma store_for_map:
  assumes "store_for env key s = (r, s')" "others_extend env"
  shows "extends (fst s) (fst s') \<and> (\<forall>st. r = Inr st \<longrightarrow> map_of (fst s') (route_key_string key) = Some st)"
proof -
  have o: "extends (fst s) (fst (rt_others env (fst s, w1)))" for w1
    using assms(2) by (auto simp: others_extend_def dest: spec [of _ "(fst s, w1)"])
  show ?thesis
    using assms(1) extends_trans [OF o extends_new] o
    by (auto simp: store_for_def Let_def split: option.splits if_splits prod.splits sum.splits)
qed

lemma routed_map:
  assumes "routed env now d write s = (r, s')" "others_extend env"
  shows "extends (fst s) (fst s')"
proof -
  obtain a w1 where a: "acquire_lease env now d (snd s) = (a, w1)" by fastforce
  obtain x s2 where x: "store_for env (domain_route_key d) (fst s, w1) = (x, s2)" by (meson surj_pair)
  have "extends (fst s) (fst s2)" using store_for_map [OF x assms(2)] by simp
  moreover have "fst s' = fst s \<or> fst s' = fst s2"
    using assms(1) a x by (auto simp: routed_def split: sum.splits prod.splits)
  ultimately show ?thesis by auto
qed

lemma routed_groups_map:
  "routed_groups env now write gs s = (r, s') \<Longrightarrow> others_extend env \<Longrightarrow> extends (fst s) (fst s')"
proof (induction gs arbitrary: s)
  case (Cons g gs)
  obtain d batch where g: "g = (d, batch)" by fastforce
  obtain a s1 where a: "routed env now d (\<lambda>st. write st batch) s = (a, s1)" by (meson surj_pair)
  note one = routed_map [OF a Cons.prems(2)]
  show ?case
  proof (cases a)
    case None
    with Cons.prems a g have "routed_groups env now write gs s1 = (r, s')" by simp
    from extends_trans [OF one Cons.IH [OF this Cons.prems(2)]] show ?thesis .
  next
    case (Some e)
    with Cons.prems a g one show ?thesis by simp
  qed
qed simp

text \<open>A fact about the world that the lease manager, the factory, closing, other goroutines and the
  write keep is kept by a routed write.\<close>

definition calls_keep :: "('st, 'w) router_env \<Rightarrow> ('w \<Rightarrow> bool) \<Rightarrow> bool" where
  "calls_keep env P \<longleftrightarrow>
     (\<forall>acquire d i w. rt_lease env = Some acquire \<longrightarrow> P w \<longrightarrow> P (snd (acquire d i w)))
     \<and> (\<forall>factory ex y w. rt_factory env = Some factory \<longrightarrow> P w \<longrightarrow> P (snd (factory ex y w)))
     \<and> (\<forall>st w. P w \<longrightarrow> P (snd (rt_close env st w))) \<and> (\<forall>s. P (snd s) \<longrightarrow> P (snd (rt_others env s)))"

lemma acquire_lease_keeps:
  "calls_keep env P \<Longrightarrow> acquire_lease env now d w = (r, w') \<Longrightarrow> P w \<Longrightarrow> P w'"
proof (cases "rt_lease env")
  case None
  then show "acquire_lease env now d w = (r, w') \<Longrightarrow> P w \<Longrightarrow> P w'" by (simp add: acquire_lease_def)
next
  case (Some acquire)
  let ?d = "normalize_writer_lease_domain now d"
  assume "calls_keep env P" and a: "acquire_lease env now d w = (r, w')" and "P w"
  then have "P (snd (acquire ?d (collector_id ?d) w))" using Some by (auto simp: calls_keep_def)
  moreover have "w' = snd (acquire ?d (collector_id ?d) w)"
    using a Some by (auto simp: acquire_lease_def Let_def split: prod.splits sum.splits)
  ultimately show "P w'" by simp
qed

lemma store_for_keeps:
  assumes "calls_keep env P" "store_for env key s = (r, s')" "P (snd s)"
  shows "P (snd s')"
proof (cases "\<exists>factory. rt_factory env = Some factory \<and> fst key \<noteq> [] \<and> map_of (fst s) (route_key_string key) = None")
  case False
  with assms(2,3) show ?thesis
    by (auto simp: store_for_def split: option.splits if_splits)
next
  case True
  then obtain factory where f: "rt_factory env = Some factory" "fst key \<noteq> []"
    "map_of (fst s) (route_key_string key) = None" by blast
  obtain x w1 where x: "factory (fst key) (snd key) (snd s) = (x, w1)" by fastforce
  have "P (snd (factory (fst key) (snd key) (snd s)))" using assms(1,3) f by (auto simp: calls_keep_def)
  then have p1: "P w1" by (simp add: x)
  have "P (snd (fst s, w1))" using p1 by simp
  then have p2: "P (snd (rt_others env (fst s, w1)))" using assms(1) unfolding calls_keep_def by blast
  then have "P (snd (rt_close env st (snd (rt_others env (fst s, w1)))))" for st
    using assms(1) by (simp add: calls_keep_def)
  with p1 p2 f x assms(2) show ?thesis
    by (auto simp: store_for_def Let_def split: option.splits if_splits sum.splits)
qed

lemma routed_keeps:
  assumes "calls_keep env P" "\<And>st w. P w \<Longrightarrow> P (snd (write st w))"
    and "routed env now d write s = (r, s')" "P (snd s)"
  shows "P (snd s')"
proof -
  obtain a w1 where a: "acquire_lease env now d (snd s) = (a, w1)" by fastforce
  obtain x s2 where x: "store_for env (domain_route_key d) (fst s, w1) = (x, s2)" by (meson surj_pair)
  have p1: "P w1" by (rule acquire_lease_keeps [OF assms(1) a assms(4)])
  then have p2: "P (snd s2)" using store_for_keeps [OF assms(1) x] by simp
  have p3: "write st (snd s2) = (r', w3) \<Longrightarrow> P w3" for st r' w3 using assms(2) [OF p2, of st] by simp
  then show ?thesis
    using assms(3) a x p1 p2 by (auto simp: routed_def split: sum.splits prod.splits dest: p3)
qed

lemma routed_groups_invariant:
  assumes "\<And>d batch s r s'. (d, batch) \<in> set gs \<Longrightarrow> routed env now d (\<lambda>st. write st batch) s = (r, s') \<Longrightarrow>
      P (snd s) \<Longrightarrow> P (snd s')"
  shows "routed_groups env now write gs s = (r, s') \<Longrightarrow> P (snd s) \<Longrightarrow> P (snd s')"
  using assms
proof (induction gs arbitrary: s)
  case (Cons g gs)
  obtain d batch where g: "g = (d, batch)" by fastforce
  obtain a s1 where a: "routed env now d (\<lambda>st. write st batch) s = (a, s1)" by (meson surj_pair)
  have p1: "P (snd s1)" using Cons.prems(3) [OF _ a] Cons.prems(2) g by simp
  show ?case
  proof (cases a)
    case None
    with Cons.prems(1) a g have "routed_groups env now write gs s1 = (r, s')" by simp
    from this p1 show ?thesis
    proof (rule Cons.IH)
      fix d batch s r s'
      assume "(d, batch) \<in> set gs" "routed env now d (\<lambda>st. write st batch) s = (r, s')" "P (snd s)"
      then show "P (snd s')" using Cons.prems(3) [of d batch s r s'] by simp
    qed
  next
    case (Some e)
    with Cons.prems(1) a g p1 show ?thesis by simp
  qed
qed simp

lemma routed_groups_keeps:
  assumes "calls_keep env P" "\<And>d batch st w. (d, batch) \<in> set gs \<Longrightarrow> P w \<Longrightarrow> P (snd (write st batch w))"
    and "routed_groups env now write gs s = (r, s')" "P (snd s)"
  shows "P (snd s')"
proof (rule routed_groups_invariant [where P = P, OF _ assms(3,4)])
  fix d batch s r s'
  assume "(d, batch) \<in> set gs" and run: "routed env now d (\<lambda>st. write st batch) s = (r, s')" and "P (snd s)"
  moreover from this(1) have "P (snd (write st batch w))" if "P w" for st w using assms(2) that by blast
  ultimately show "P (snd s')" using routed_keeps [OF assms(1) _ run] by blast
qed

text \<open>On success every group was written, to the store of its key.\<close>

lemma routed_success:
  assumes "routed env now d write s = (None, s')" "others_extend env"
  obtains st w1 w2 where "map_of (fst s') (route_key_string (domain_route_key d)) = Some st"
    "write st w2 = (None, snd s')"
proof -
  from assms(1) obtain lease w1 st s2 where a: "acquire_lease env now d (snd s) = (Inr lease, w1)"
    and x: "store_for env (domain_route_key d) (fst s, w1) = (Inr st, s2)"
    and w: "write st (snd s2) = (None, snd s')" "fst s' = fst s2"
    by (auto simp: routed_def split: sum.splits prod.splits)
  have "map_of (fst s') (route_key_string (domain_route_key d)) = Some st"
    using store_for_map [OF x assms(2)] w by simp
  then show thesis using w that by blast
qed

lemma routed_groups_success:
  "routed_groups env now write gs s = (None, s') \<Longrightarrow> (d, batch) \<in> set gs \<Longrightarrow>
   \<exists>pre s1 s2 rest. routed_groups env now write pre s = (None, s1)
     \<and> routed env now d (\<lambda>st. write st batch) s1 = (None, s2) \<and> routed_groups env now write rest s2 = (None, s')"
proof (induction gs arbitrary: s)
  case (Cons g gs)
  obtain d' batch' where g: "g = (d', batch')" by fastforce
  from Cons.prems(1) g obtain s1 where a: "routed env now d' (\<lambda>st. write st batch') s = (None, s1)"
    and rest: "routed_groups env now write gs s1 = (None, s')"
    by (auto split: prod.splits option.splits)
  show ?case
  proof (cases "g = (d, batch)")
    case True
    have "routed_groups env now write [] s = (None, s)" by simp
    then show ?thesis using True a rest g by blast
  next
    case False
    then have "(d, batch) \<in> set gs" using Cons.prems(2) by auto
    from Cons.IH [OF rest this] obtain pre s2 s3 rest' where
      "routed_groups env now write pre s1 = (None, s2)" "routed env now d (\<lambda>st. write st batch) s2 = (None, s3)"
      "routed_groups env now write rest' s3 = (None, s')" by blast
    moreover from this(1) have "routed_groups env now write (g # pre) s = (None, s2)" using a g by simp
    ultimately show ?thesis by blast
  qed
qed simp

lemma routed_groups_error:
  "routed_groups env now wr gs s = (Some e, s') \<Longrightarrow>
   \<exists>pre d batch rest s1. gs = pre @ (d, batch) # rest \<and> routed_groups env now wr pre s = (None, s1)
     \<and> routed env now d (\<lambda>st. wr st batch) s1 = (Some e, s')"
proof (induction gs arbitrary: s)
  case (Cons g gs)
  obtain d batch where g: "g = (d, batch)" by fastforce
  obtain a s1 where a: "routed env now d (\<lambda>st. wr st batch) s = (a, s1)" by (meson surj_pair)
  show ?case
  proof (cases a)
    case None
    with Cons.prems a g have "routed_groups env now wr gs s1 = (Some e, s')" by simp
    from Cons.IH [OF this] obtain pre d' batch' rest s2 where
      "gs = pre @ (d', batch') # rest" "routed_groups env now wr pre s1 = (None, s2)"
      "routed env now d' (\<lambda>st. wr st batch') s2 = (Some e, s')" by blast
    with None a g show ?thesis
      by (intro exI [of _ "g # pre"] exI [of _ d'] exI [of _ batch'] exI [of _ rest] exI [of _ s2]) simp
  next
    case (Some e')
    with Cons.prems a g show ?thesis
      by (intro exI [of _ "[]"] exI [of _ d] exI [of _ batch] exI [of _ gs] exI [of _ s]) simp
  qed
qed simp

subsection \<open>The stores of the years\<close>

text \<open>
  What the router relies on: the factory opens the store of the exchange's year, a write without
  an error stores its bars there, no call loses a bar, other goroutines only add stores under the
  keys they were opened for, and ranging over the groups visits each once.
\<close>

locale year_router =
  fixes env :: "('st, 'w) router_env" and has_bar :: "'w \<Rightarrow> route_key \<Rightarrow> kline \<Rightarrow> bool" and key_of :: "'st \<Rightarrow> route_key"
  assumes factory_key: "rt_factory env = Some factory \<Longrightarrow> factory ex y w = (Inr st, w') \<Longrightarrow> key_of st = (ex, y)"
    and write_stores: "rt_klines env st ks w = (None, w') \<Longrightarrow> k \<in> set ks \<Longrightarrow> has_bar w' (key_of st) k"
    and write_keeps: "has_bar w key k \<Longrightarrow> has_bar (snd (rt_klines env st ks w)) key k"
    and calls: "calls_keep env (\<lambda>w. has_bar w key k)"
    and others: "others_extend env"
    and others_key: "map_of (fst (rt_others env s)) n = Some st \<Longrightarrow> map_of (fst s) n = Some st \<or> n = route_key_string (key_of st)"
    and range_all: "set (rt_range_klines env gs) = set gs"
begin

definition keyed :: "(string \<times> 'st) list \<Rightarrow> bool" where
  "keyed stores \<longleftrightarrow> (\<forall>n st. map_of stores n = Some st \<longrightarrow> n = route_key_string (key_of st))"

lemma keyed_extends: "keyed b \<Longrightarrow> extends a b \<Longrightarrow> keyed a"
  unfolding keyed_def extends_def by blast

lemma insert_keeps_bar:
  "router_insert_klines env now ks s = (r, s') \<Longrightarrow> has_bar (snd s) key k \<Longrightarrow> has_bar (snd s') key k"
  unfolding router_insert_klines_def
  by (rule routed_groups_keeps [OF calls]) (auto intro: write_keeps)

lemma insert_extends: "router_insert_klines env now ks s = (r, s') \<Longrightarrow> extends (fst s) (fst s')"
  unfolding router_insert_klines_def by (rule routed_groups_map [OF _ others])

text \<open>The router itself keeps every store under the key it was opened for.\<close>

lemma store_for_keyed: "store_for env key s = (r, s') \<Longrightarrow> keyed (fst s) \<Longrightarrow> keyed (fst s')"
  by (auto simp: store_for_def keyed_def Let_def split: option.splits if_splits prod.splits sum.splits
      dest!: factory_key others_key)

lemma routed_keyed: "routed env now d write s = (r, s') \<Longrightarrow> keyed (fst s) \<Longrightarrow> keyed (fst s')"
  by (auto simp: routed_def split: sum.splits prod.splits dest!: store_for_keyed)

lemma routed_groups_keyed: "routed_groups env now write gs s = (r, s') \<Longrightarrow> keyed (fst s) \<Longrightarrow> keyed (fst s')"
proof (induction gs arbitrary: s)
  case (Cons g gs)
  obtain a s1 where a: "routed env now (fst g) (\<lambda>st. write st (snd g)) s = (a, s1)" by (meson surj_pair)
  have "keyed (fst s1)" by (rule routed_keyed [OF a Cons.prems(2)])
  with Cons.prems(1) a Cons.IH [of s1] show ?case by (cases g; cases a) auto
qed simp

lemma insert_keyed: "router_insert_klines env now ks s = (r, s') \<Longrightarrow> keyed (fst s) \<Longrightarrow> keyed (fst s')"
  unfolding router_insert_klines_def by (rule routed_groups_keyed)

lemma groups_store:
  assumes run: "routed_groups env now (rt_klines env) gs s = (None, s')" and mem: "(d, batch) \<in> set gs"
    and k: "k \<in> set batch" and keyed: "keyed (fst s)"
  shows "has_bar (snd s') (domain_route_key d) k"
proof -
  from routed_groups_success [OF run mem] obtain pre s1 s2 rest where
    pre: "routed_groups env now (rt_klines env) pre s = (None, s1)"
    and w: "routed env now d (\<lambda>st. rt_klines env st batch) s1 = (None, s2)"
    and rest: "routed_groups env now (rt_klines env) rest s2 = (None, s')" by blast
  from routed_success [OF w others] obtain st w2 where
    st: "map_of (fst s2) (route_key_string (domain_route_key d)) = Some st"
    and ok: "rt_klines env st batch w2 = (None, snd s2)" by blast
  have "keyed (fst s2)" by (rule routed_keyed [OF w routed_groups_keyed [OF pre keyed]])
  then have "key_of st = domain_route_key d" using st route_key_string_inj unfolding keyed_def by metis
  then have "has_bar (snd s2) (domain_route_key d) k" using write_stores [OF ok k] by simp
  moreover note routed_groups_keeps [where P = "\<lambda>w. has_bar w (domain_route_key d) k", OF calls _ rest]
  ultimately show ?thesis using write_keeps by blast
qed

lemma insert_stores_bar:
  assumes "router_insert_klines env now ks s = (None, s')" "k \<in> set ks" "keyed (fst s)"
  shows "has_bar (snd s') (domain_route_key (kline_domain now k)) k"
  by (rule groups_store [OF assms(1) [unfolded router_insert_klines_def] _ _ assms(3),
        of _ "filter (\<lambda>x. kline_domain now x = kline_domain now k) ks"])
    (use assms(2) in \<open>simp_all add: range_all group_by_member\<close>)

end

text \<open>The router is a bar store for the collectors, as long as its map is keyed.\<close>

sublocale year_router \<subseteq> routed: kline_sink "\<lambda>ks s. router_insert_klines env now ks s"
    "\<lambda>s k. keyed (fst s) \<longrightarrow> has_bar (snd s) (domain_route_key (kline_domain now k)) k" for now
proof
  fix ks s s' k
  assume "router_insert_klines env now ks s = (None, s')" "k \<in> set ks"
  then show "keyed (fst s') \<longrightarrow> has_bar (snd s') (domain_route_key (kline_domain now k)) k"
    using insert_stores_bar keyed_extends insert_extends by blast
next
  fix ks s r s' k
  assume i: "router_insert_klines env now ks s = (r, s')"
    and "keyed (fst s) \<longrightarrow> has_bar (snd s) (domain_route_key (kline_domain now k)) k"
  then show "keyed (fst s') \<longrightarrow> has_bar (snd s') (domain_route_key (kline_domain now k)) k"
    using insert_keeps_bar [OF i] keyed_extends insert_extends [OF i] by blast
qed

subsection \<open>A reference router\<close>

text \<open>
  The router over the reference cluster: one database per key, a lease manager that refuses the
  domains of \<open>deny\<close>, and maps that are ranged over backwards.
\<close>

definition site_router :: "(writer_lease_domain \<Rightarrow> bool) \<Rightarrow> (route_key, site) router_env" where
  "site_router deny = \<lparr>
     rt_factory = Some (\<lambda>ex y w. (Inr (ex, y), w)),
     rt_lease = Some (\<lambda>d i w. (if deny d then Inl (Err ''lease is held by another instance'')
                               else Inr (no_lease\<lparr>wl_lease_id := i\<rparr>), w)),
     rt_klines = (\<lambda>st. insert_klines (site_exec (route_key_string st)) (fst st)),
     rt_order_book = (\<lambda>st. insert_order_book (site_exec (route_key_string st)) (fst st)),
     rt_funding_rate = (\<lambda>st. insert_funding_rate (site_exec (route_key_string st)) (fst st)),
     rt_open_interest = (\<lambda>st. insert_open_interest (site_exec (route_key_string st)) (fst st)),
     rt_open_interests = (\<lambda>st. insert_open_interests (site_exec (route_key_string st)) (fst st)),
     rt_close = (\<lambda>st w. (None, w)), rt_others = (\<lambda>s. s),
     rt_range_klines = rev, rt_range_interests = rev, rt_range_stores = rev\<rparr>"

definition site_has_bar :: "site \<Rightarrow> route_key \<Rightarrow> kline \<Rightarrow> bool" where
  "site_has_bar w key k = bar_stored (\<lambda>w. site_has_row w (route_key_string key)) w k"

interpretation site_ex: sql_store "site_exec d" "\<lambda>w. site_has_row w d" for d
  by unfold_locales (auto intro: site_exec_row site_exec_keeps)

lemma site_insert_keeps:
  "site_has_row w d t x s \<Longrightarrow> site_has_row (snd (insert_klines (site_exec d') ex ks w)) d t x s"
  using site.insert_klines_keep_row [of d' ex ks w] unfolding site_adm_def by (simp add: prod_eq_iff)

interpretation site_router: year_router "site_router deny" site_has_bar "\<lambda>st. st" for deny
proof
  fix st ks w w' k
  assume "rt_klines (site_router deny) st ks w = (None, w')" "k \<in> set ks"
  then show "site_has_bar w' st k"
    by (auto simp: site_router_def site_has_bar_def intro: site_ex.db.insert_stores)
next
  fix w key k st ks
  assume "site_has_bar w key k"
  then show "site_has_bar (snd (rt_klines (site_router deny) st ks w)) key k"
    by (auto simp: site_router_def site_has_bar_def bar_stored_def intro: site_insert_keeps)
qed (auto simp: site_router_def calls_keep_def others_extend_def)

subsection \<open>Properties\<close>

text \<open>
  C3. A batch that the router inserts without an error is stored completely, every bar in the
  database of its own exchange and of the year of its own open time, however the batch mixes
  streams and years, in whatever order the groups are visited, and with other goroutines opening
  stores meanwhile. The stores opened before the call (none in a new router) are under the keys they
  were opened for; that the router opens the right store for each group, and keeps the map so, is
  shown. A store writes what it accepts to its own database.
\<close>

theorem router_stores_bars_in_their_year:
  assumes "year_router env has_bar key_of"
    and "\<forall>n st. map_of (fst s) n = Some st \<longrightarrow> n = route_key_string (key_of st)"
    and "router_insert_klines env now ks s = (None, s')"
    and "k \<in> set ks" and "\<not> is_zero (k_open_time k)" and "1970 \<le> year_of (k_open_time k)"
  shows "has_bar (snd s') (norm_lower (k_exchange k), year_of (k_open_time k)) k
    \<and> (\<forall>n st. map_of (fst s') n = Some st \<longrightarrow> n = route_key_string (key_of st))"
proof -
  note keyed_def = year_router.keyed_def [OF assms(1)]
  have keyed: "year_router.keyed key_of (fst s)" unfolding keyed_def by (rule assms(2))
  have "has_bar (snd s') (norm_lower (k_exchange k), year_of (k_open_time k)) k"
    using year_router.insert_stores_bar [OF assms(1,3,4) keyed] kline_domain_year [OF assms(5,6)]
    by (simp add: kline_domain_route_key)
  with year_router.insert_keyed [OF assms(1,3) keyed] show ?thesis unfolding keyed_def by blast
qed

definition mixed_batch :: "kline list" where
  "mixed_batch = [sample_kline ''1m'' 1767225540000000000, sample_kline ''1m'' 1767225600000000000]"

definition empty_site :: site where "empty_site = \<lparr>site_dbs = [], site_net = []\<rparr>"

theorem router_stores_bars_in_their_year_witness:
  "\<exists>s'. router_insert_klines (site_router (\<lambda>d. False)) 0 mixed_batch ([], empty_site) = (None, s')
     \<and> site_has_bar (snd s') (''binance'', 2025) (sample_kline ''1m'' 1767225540000000000)
     \<and> site_has_bar (snd s') (''binance'', 2026) (sample_kline ''1m'' 1767225600000000000)"
proof -
  let ?run = "router_insert_klines (site_router (\<lambda>d. False)) 0 mixed_batch ([], empty_site)"
  obtain s' where run: "?run = (None, s')"
  proof -
    have "fst ?run = None" by code_simp
    then show thesis using that by (metis prod.collapse)
  qed
  have fresh: "\<forall>n st. map_of (fst ([] :: (string \<times> route_key) list, empty_site)) n = Some st \<longrightarrow> n = route_key_string st" by simp
  let ?a = "sample_kline ''1m'' 1767225540000000000" and ?b = "sample_kline ''1m'' 1767225600000000000"
  have ok: "?a \<in> set mixed_batch" "?b \<in> set mixed_batch" "\<not> is_zero (k_open_time ?a)" "\<not> is_zero (k_open_time ?b)"
    by (simp_all add: mixed_batch_def sample_kline_def is_zero_def zero_time_def)
  have y: "year_of (k_open_time ?a) = 2025" "year_of (k_open_time ?b) = 2026"
    "norm_lower (k_exchange ?a) = ''binance''" "norm_lower (k_exchange ?b) = ''binance''"
    by code_simp+
  note in_year = router_stores_bars_in_their_year [OF site_router.year_router_axioms fresh run]
  have "1970 \<le> year_of (k_open_time ?a)" "1970 \<le> year_of (k_open_time ?b)" unfolding y by simp_all
  from in_year [OF ok(1,3) this(1)] in_year [OF ok(2,4) this(2)] run show ?thesis unfolding y by blast
qed

text \<open>
  No write without a lease: when the lease manager refuses a domain, no bar of it is written
  by a batch that contains such bars (any fact that the other calls and the writes of other
  domains' bars keep is kept), and the batch fails.
\<close>

theorem refused_lease_no_write:
  assumes "rt_lease env = Some acquire" and "\<And>w. \<exists>e. fst (acquire d (collector_id d) w) = Inl e"
    and "calls_keep env P" and "\<And>gs. set (rt_range_klines env gs) = set gs" and "1970 \<le> year_of now"
    and "\<And>st ks w. \<forall>k \<in> set ks. kline_domain now k \<noteq> d \<Longrightarrow> P w \<Longrightarrow> P (snd (rt_klines env st ks w))"
    and "router_insert_klines env now ks s = (r, s')" and "P (snd s)"
  shows "P (snd s') \<and> ((\<exists>k \<in> set ks. kline_domain now k = d) \<longrightarrow> r \<noteq> None)"
proof
  note run = assms(7) [unfolded router_insert_klines_def]
  have norm: "normalize_writer_lease_domain now (kline_domain now k) = kline_domain now k" for k
    using assms(5) by (simp add: kline_domain_def domain_for_kline_def)
  have refused: "\<exists>e w1. routed env now d wr s = (Some e, (fst s, w1)) \<and> acquire_lease env now d (snd s) = (Inl e, w1)"
    if "normalize_writer_lease_domain now d = d" for wr s
  proof -
    obtain e w1 where "acquire d (collector_id d) (snd s) = (Inl e, w1)"
      using assms(2) [of "snd s"] by (metis prod.collapse)
    then show ?thesis by (simp add: routed_def acquire_lease_def assms(1) that Let_def)
  qed
  show "P (snd s')"
  proof (rule routed_groups_invariant [where P = P, OF _ run assms(8)])
    fix dom batch s r s'
    assume mem: "(dom, batch) \<in> set (rt_range_klines env (group_by (kline_domain now) ks))"
      and one: "routed env now dom (\<lambda>st. rt_klines env st batch) s = (r, s')" and p: "P (snd s)"
    from mem obtain k0 where dom: "dom = kline_domain now k0"
      and batch: "batch = filter (\<lambda>k. kline_domain now k = dom) ks" by (auto simp: assms(4) group_by_member)
    show "P (snd s')"
    proof (cases "dom = d")
      case True
      then have "normalize_writer_lease_domain now d = d" using norm [of k0] dom by simp
      from refused [OF this, of "\<lambda>st. rt_klines env st batch" s] one True
      obtain e w1 where "acquire_lease env now d (snd s) = (Inl e, w1)" "s' = (fst s, w1)" by auto
      then show ?thesis using acquire_lease_keeps [OF assms(3) _ p] by simp
    next
      case False
      then have "\<forall>k \<in> set batch. kline_domain now k \<noteq> d" by (simp add: batch)
      then have "P (snd (rt_klines env st batch w))" if "P w" for st w using assms(6) that by blast
      from routed_keeps [OF assms(3) this one p] show ?thesis .
    qed
  qed
  show "(\<exists>k \<in> set ks. kline_domain now k = d) \<longrightarrow> r \<noteq> None"
  proof
    assume "\<exists>k \<in> set ks. kline_domain now k = d"
    then obtain k where k: "k \<in> set ks" "kline_domain now k = d" by blast
    have mem: "(d, filter (\<lambda>k. kline_domain now k = d) ks) \<in> set (rt_range_klines env (group_by (kline_domain now) ks))"
      using k by (auto simp: assms(4) group_by_member)
    have "normalize_writer_lease_domain now d = d" using norm [of k] k by simp
    from refused [OF this] have fails: "routed env now d wr s \<noteq> (None, s2)" for wr s s2 by (metis option.distinct(1) prod.inject)
    have "routed_groups env now wr gs s = (r, s') \<Longrightarrow> (d, batch) \<in> set gs \<Longrightarrow> r \<noteq> None" for wr gs s batch
      using fails by (induction gs arbitrary: s) (auto split: prod.splits option.splits)
    from this [OF run mem] show "r \<noteq> None" .
  qed
qed

text \<open>
  A router whose world is the list of the bars written so far; the leases of 2025 are refused.
\<close>

definition log_router :: "(route_key, kline list) router_env" where
  "log_router = \<lparr>
     rt_factory = Some (\<lambda>ex y w. (Inr (ex, y), w)),
     rt_lease = Some (\<lambda>d i w. (if wd_year d = 2025 then Inl (Err ''lease is held by another instance'') else Inr no_lease, w)),
     rt_klines = (\<lambda>st ks w. (None, w @ ks)), rt_order_book = (\<lambda>st ob w. (None, w)),
     rt_funding_rate = (\<lambda>st fr w. (None, w)), rt_open_interest = (\<lambda>st oi w. (None, w)),
     rt_open_interests = (\<lambda>st ois w. (None, w)), rt_close = (\<lambda>st w. (None, w)), rt_others = (\<lambda>s. s),
     rt_range_klines = rev, rt_range_interests = rev, rt_range_stores = rev\<rparr>"

theorem refused_lease_no_write_witness:
  "\<exists>r s'. router_insert_klines log_router 0 mixed_batch ([], []) = (r, s') \<and> r \<noteq> None
     \<and> (\<forall>k \<in> set (snd s'). kline_domain 0 k \<noteq> kline_domain 0 (sample_kline ''1m'' 1767225540000000000))"
proof -
  let ?a = "sample_kline ''1m'' 1767225540000000000"
  define d where "d = kline_domain 0 ?a"
  have d: "wd_year d = 2025" unfolding d_def by code_simp
  obtain r s' where run: "router_insert_klines log_router 0 mixed_batch ([], []) = (r, s')" by (meson surj_pair)
  define acquire :: "writer_lease_domain \<Rightarrow> string \<Rightarrow> kline list \<Rightarrow> writer_lease res \<times> kline list"
    where "acquire = (\<lambda>d i w. (if wd_year d = 2025 then Inl (Err ''lease is held by another instance'') else Inr no_lease, w))"
  have lease: "rt_lease log_router = Some acquire" by (simp add: log_router_def acquire_def)
  have refused: "\<exists>e. fst (acquire d (collector_id d) w) = Inl e" for w by (simp add: acquire_def d)
  have range: "set (rt_range_klines log_router gs) = set gs" for gs by (simp add: log_router_def)
  have now: "1970 \<le> year_of 0" by code_simp
  have mem: "?a \<in> set mixed_batch" by (simp add: mixed_batch_def)
  let ?P = "\<lambda>w. \<forall>k \<in> set w. kline_domain 0 k \<noteq> d"
  have keep: "calls_keep log_router ?P" by (simp add: calls_keep_def log_router_def)
  have wr: "?P w \<Longrightarrow> ?P (snd (rt_klines log_router st ks w))" if "\<forall>k \<in> set ks. kline_domain 0 k \<noteq> d" for st ks w
    using that by (auto simp: log_router_def)
  have start: "?P (snd ([], []))" by simp
  have "?P (snd s') \<and> ((\<exists>k \<in> set mixed_batch. kline_domain 0 k = d) \<longrightarrow> r \<noteq> None)"
    by (rule refused_lease_no_write [where P = ?P, OF lease refused keep range now _ run start]) (rule wr)
  then show ?thesis using run mem unfolding d_def by blast
qed

text \<open>
  C26. A failed batch is stored up to a point: when the router returns an error, the groups it
  visited before the failing one were written from the initial state without an error and are
  stored completely, the failing one, tried on the state they left, produced the error, and no
  group after it was written: whatever the writes of the visited groups, the leases, the opening and
  closing of stores and other goroutines leave as it was (say, that a bar of a later group is not
  stored) is as it was.
\<close>

theorem router_error_stores_prefix:
  assumes "year_router env has_bar key_of"
    and "\<forall>n st. map_of (fst s) n = Some st \<longrightarrow> n = route_key_string (key_of st)"
    and "router_insert_klines env now ks s = (Some e, s')"
  shows "\<exists>stored d batch rest s1. rt_range_klines env (group_by (kline_domain now) ks) = stored @ (d, batch) # rest
    \<and> routed_groups env now (rt_klines env) stored s = (None, s1)
    \<and> routed env now d (\<lambda>st. rt_klines env st batch) s1 = (Some e, s')
    \<and> (\<forall>dom ls k. (dom, ls) \<in> set stored \<longrightarrow> k \<in> set ls \<longrightarrow> has_bar (snd s') (domain_route_key dom) k)
    \<and> (\<forall>P. calls_keep env P
          \<longrightarrow> (\<forall>dom ls st w. (dom, ls) \<in> set (stored @ [(d, batch)]) \<longrightarrow> P w \<longrightarrow> P (snd (rt_klines env st ls w)))
          \<longrightarrow> P (snd s) \<longrightarrow> P (snd s'))"
proof -
  note router = year_router.calls [OF assms(1)] year_router.write_keeps [OF assms(1)]
  have keyed: "year_router.keyed key_of (fst s)"
    unfolding year_router.keyed_def [OF assms(1)] by (rule assms(2))
  from routed_groups_error [OF assms(3) [unfolded router_insert_klines_def]] obtain stored d batch rest s1 where
    gs: "rt_range_klines env (group_by (kline_domain now) ks) = stored @ (d, batch) # rest"
    and ok: "routed_groups env now (rt_klines env) stored s = (None, s1)"
    and bad: "routed env now d (\<lambda>st. rt_klines env st batch) s1 = (Some e, s')" by blast
  have have_bars: "has_bar (snd s') (domain_route_key dom) k" if "(dom, ls) \<in> set stored" "k \<in> set ls" for dom ls k
    using routed_keeps [where P = "\<lambda>w. has_bar w (domain_route_key dom) k", OF router(1) _ bad]
      year_router.groups_store [OF assms(1) ok that keyed] router(2) by blast
  have frame: "P (snd s')" if keep: "calls_keep env P" and start: "P (snd s)"
    and writes: "\<forall>dom ls st w. (dom, ls) \<in> set (stored @ [(d, batch)]) \<longrightarrow> P w \<longrightarrow> P (snd (rt_klines env st ls w))" for P
  proof -
    have "P (snd s1)" by (rule routed_groups_keeps [OF keep _ ok start]) (use writes in auto)
    show ?thesis by (rule routed_keeps [OF keep _ bad \<open>P (snd s1)\<close>]) (use writes in auto)
  qed
  show ?thesis using gs ok bad have_bars frame by blast
qed

text \<open>With the leases of 2025 refused, the bar of 2026, visited first, is stored.\<close>

theorem router_error_stores_prefix_witness:
  "\<exists>e s'. router_insert_klines (site_router (\<lambda>d. wd_year d = 2025)) 0 mixed_batch ([], empty_site) = (Some e, s')
     \<and> (\<exists>stored d batch rest. rev (group_by (kline_domain 0) mixed_batch) = stored @ (d, batch) # rest
       \<and> (\<forall>dom ls k. (dom, ls) \<in> set stored \<longrightarrow> k \<in> set ls \<longrightarrow> site_has_bar (snd s') (domain_route_key dom) k))"
proof -
  let ?env = "site_router (\<lambda>d. wd_year d = 2025)"
  let ?run = "router_insert_klines ?env 0 mixed_batch ([], empty_site)"
  have "fst ?run \<noteq> None" by code_simp
  then obtain e s' where run: "?run = (Some e, s')" by (metis option.exhaust prod.collapse)
  have fresh: "\<forall>n st. map_of (fst ([] :: (string \<times> route_key) list, empty_site)) n = Some st \<longrightarrow> n = route_key_string st" by simp
  have range: "rt_range_klines ?env gs = rev gs" for gs by (simp add: site_router_def)
  from router_error_stores_prefix [OF site_router.year_router_axioms fresh run] obtain stored d batch rest where
    "rev (group_by (kline_domain 0) mixed_batch) = stored @ (d, batch) # rest"
    "\<forall>dom ls k. (dom, ls) \<in> set stored \<longrightarrow> k \<in> set ls \<longrightarrow> site_has_bar (snd s') (domain_route_key dom) k"
    unfolding range by (elim exE conjE) (rule that)
  with run show ?thesis by blast
qed

text \<open>
  C32. One store for each exchange and year, also when two goroutines open it at once: while \<open>storeFor\<close> opened a
  store without holding the mutex, other goroutines may have put one under the key. Then theirs
  is returned and the own one is closed, otherwise the own one is kept; either way every later
  \<open>storeFor\<close> returns the same store, whatever was inserted in between.
\<close>

theorem router_one_store_per_key:
  assumes "others_extend env" and "rt_factory env = Some factory" and "fst key \<noteq> []"
    and "map_of (fst s) (route_key_string key) = None"
    and "factory (fst key) (snd key) (snd s) = (Inr own, w1)" and "rt_others env (fst s, w1) = (opened, w2)"
    and "store_for env key s = (a, s1)"
    and "router_insert_klines env now ks s1 = (r, s2)" and "store_for env key s2 = (Inr st', s3)"
  shows "a = Inr st' \<and> s3 = s2
    \<and> (case map_of opened (route_key_string key) of
         None \<Rightarrow> st' = own \<and> snd s1 = w2
       | Some theirs \<Rightarrow> st' = theirs \<and> fst s1 = opened \<and> snd s1 = snd (rt_close env own w2))"
proof -
  obtain st where st: "a = Inr st" "case map_of opened (route_key_string key) of
      None \<Rightarrow> st = own \<and> snd s1 = w2 | Some theirs \<Rightarrow> st = theirs \<and> fst s1 = opened \<and> snd s1 = snd (rt_close env own w2)"
    using assms(2-7) by (auto simp: store_for_def Let_def split: option.splits)
  have "map_of (fst s1) (route_key_string key) = Some st"
    using store_for_map [OF assms(7,1)] st(1) by simp
  moreover have "extends (fst s1) (fst s2)"
    using routed_groups_map [OF assms(8) [unfolded router_insert_klines_def] assms(1)] .
  ultimately have "map_of (fst s2) (route_key_string key) = Some st" by (simp add: extends_def)
  then have "st' = st \<and> s3 = s2" using assms(9) by (auto simp: store_for_def split: option.splits if_splits)
  with st show ?thesis by (auto split: option.splits)
qed

text \<open>
  A router whose stores are numbered in the order in which they are opened; whenever it opens one, another
  goroutine has just opened the store of Binance's 2025. The world is the next number.
\<close>

definition racing_router :: "(nat, nat) router_env" where
  "racing_router = \<lparr>
     rt_factory = Some (\<lambda>ex y w. (Inr w, w + 1)), rt_lease = None,
     rt_klines = (\<lambda>st ks w. (None, w)), rt_order_book = (\<lambda>st ob w. (None, w)),
     rt_funding_rate = (\<lambda>st fr w. (None, w)), rt_open_interest = (\<lambda>st oi w. (None, w)),
     rt_open_interests = (\<lambda>st ois w. (None, w)), rt_close = (\<lambda>st w. (None, w)),
     rt_others = (\<lambda>(m, w). if map_of m ''binance_2025'' = None then ((''binance_2025'', w) # m, w + 1) else (m, w)),
     rt_range_klines = rev, rt_range_interests = rev, rt_range_stores = rev\<rparr>"

text \<open>The store 0 was opened and closed; the other goroutine's store 1 is the one.\<close>

theorem router_one_store_per_key_witness:
  "\<exists>s1 s2. store_for racing_router (''binance'', 2025) ([], 0) = (Inr 1, s1)
     \<and> snd (router_insert_klines racing_router 0 mixed_batch s1) = s2
     \<and> store_for racing_router (''binance'', 2025) s2 = (Inr 1, s2)"
proof -
  let ?env = racing_router and ?key = "(''binance'', 2025 :: int)"
  have key: "route_key_string ?key = ''binance_2025''" by code_simp
  have others: "others_extend ?env" by (auto simp: others_extend_def extends_def racing_router_def)
  have factory: "rt_factory ?env = Some (\<lambda>ex y w. (Inr w, w + 1))" and fetch: "rt_others ?env ([], 1) = ([(''binance_2025'', 1)], 2)"
    by (simp_all add: racing_router_def)
  obtain a s1 where 1: "store_for ?env ?key ([], 0) = (a, s1)" by (meson surj_pair)
  obtain r s2 where 2: "router_insert_klines ?env 0 mixed_batch s1 = (r, s2)" by (meson surj_pair)
  have "\<exists>st'. fst (store_for ?env ?key s2) = Inr st'"
    by (auto simp: store_for_def racing_router_def Let_def split: option.splits prod.splits)
  then obtain st' s3 where 3: "store_for ?env ?key s2 = (Inr st', s3)" by (metis prod.collapse)
  from router_one_store_per_key [OF others factory _ _ _ _ 1 2 3, where own = 0 and ?w1.0 = 1] fetch 1 2 3 key
  show ?thesis by auto
qed

definition colon_free :: "writer_lease_domain \<Rightarrow> bool" where
  "colon_free d \<longleftrightarrow> (\<forall>s \<in> {wd_exchange d, wd_market d, wd_kind d, wd_symbol d, wd_interval d}. CHR '':'' \<notin> set s)
     \<and> wd_interval d \<noteq> ''-''"

text \<open>
  A collector id names one domain: two normalised domains without colons in their fields (and
  without the interval "-") that have the same id are equal, so a lease requested for one
  collector never covers another stream or another year.
\<close>

theorem collector_id_injective:
  assumes "collector_id (normalize_writer_lease_domain now d) = collector_id (normalize_writer_lease_domain now d')"
    and "colon_free (normalize_writer_lease_domain now d)" and "colon_free (normalize_writer_lease_domain now d')"
  shows "normalize_writer_lease_domain now d = normalize_writer_lease_domain now d'"
proof -
  define a b where "a = normalize_writer_lease_domain now d" and "b = normalize_writer_lease_domain now d'"
  have norm: "norm_lower (wd_exchange x) = wd_exchange x \<and> norm_lower (wd_market x) = wd_market x
      \<and> norm_lower (wd_kind x) = wd_kind x \<and> norm_upper (wd_symbol x) = wd_symbol x
      \<and> trim_space (wd_interval x) = wd_interval x" if "x = a \<or> x = b" for x
    using that by (auto simp: a_def b_def normalize_writer_lease_domain_def)
  define iv where "iv x = (if wd_interval x = [] then ''-'' else wd_interval x)" for x :: writer_lease_domain
  have id: "collector_id x = wd_exchange x @ CHR '':'' # wd_market x @ CHR '':'' # wd_kind x @ CHR '':''
      # wd_symbol x @ CHR '':'' # iv x @ CHR '':'' # itoa (wd_year x)" if "x = a \<or> x = b" for x
    using norm [OF that] by (simp add: collector_id_def join_def Let_def iv_def)
  have free: "CHR '':'' \<notin> set (wd_exchange x)" "CHR '':'' \<notin> set (wd_market x)" "CHR '':'' \<notin> set (wd_kind x)"
    "CHR '':'' \<notin> set (wd_symbol x)" "CHR '':'' \<notin> set (iv x)" if "x = a \<or> x = b" for x
    using that assms(2,3) unfolding a_def [symmetric] b_def [symmetric] by (auto simp: colon_free_def iv_def)
  note fa = free [of a, simplified] and fb = free [of b, simplified]
  have eq: "collector_id a = collector_id b" using assms(1) by (simp add: a_def b_def)
  note s1 = split_at_separator [OF fa(1) fb(1) eq [unfolded id [of a, simplified] id [of b, simplified]]]
  note s2 = split_at_separator [OF fa(2) fb(2) s1 [THEN conjunct2]]
  note s3 = split_at_separator [OF fa(3) fb(3) s2 [THEN conjunct2]]
  note s4 = split_at_separator [OF fa(4) fb(4) s3 [THEN conjunct2]]
  note s5 = split_at_separator [OF fa(5) fb(5) s4 [THEN conjunct2]]
  have "wd_interval a = wd_interval b"
    using s5 assms(2,3) unfolding a_def [symmetric] b_def [symmetric]
    by (auto simp: iv_def colon_free_def split: if_splits)
  then have "a = b" using s1 s2 s3 s4 s5 itoa_inj by simp
  then show ?thesis by (simp add: a_def b_def)
qed

theorem collector_id_injective_witness:
  "collector_id (normalize_writer_lease_domain 0
      \<lparr>wd_exchange = ''Binance '', wd_market = ''spot'', wd_kind = ''kline'', wd_symbol = ''btcusdt'', wd_interval = ''1m'', wd_year = 2026\<rparr>)
    = ''binance:spot:kline:BTCUSDT:1m:2026''
   \<and> normalize_writer_lease_domain 0
      \<lparr>wd_exchange = ''Binance '', wd_market = ''spot'', wd_kind = ''kline'', wd_symbol = ''btcusdt'', wd_interval = ''1m'', wd_year = 2026\<rparr>
    = normalize_writer_lease_domain 0
      \<lparr>wd_exchange = ''binance'', wd_market = ''SPOT'', wd_kind = ''kline'', wd_symbol = ''BTCUSDT'', wd_interval = '' 1m'', wd_year = 2026\<rparr>"
  (is "collector_id (normalize_writer_lease_domain 0 ?a) = ?i \<and> _ = normalize_writer_lease_domain 0 ?b")
proof
  show "collector_id (normalize_writer_lease_domain 0 ?a) = ?i" by code_simp
  have "collector_id (normalize_writer_lease_domain 0 ?a) = collector_id (normalize_writer_lease_domain 0 ?b)" by code_simp
  moreover have "colon_free (normalize_writer_lease_domain 0 ?a)" "colon_free (normalize_writer_lease_domain 0 ?b)" by code_simp+
  ultimately show "normalize_writer_lease_domain 0 ?a = normalize_writer_lease_domain 0 ?b"
    by (rule collector_id_injective)
qed

end
