(* ===== verification/Control_Types.thy ===== *)
theory Control_Types
  imports Storage_Router
begin

text \<open>
  The records the control plane exchanges (\<open>internal/controlplane/runtime.go\<close>, \<open>history.go\<close>) and the
  conversion of the protobuf messages into them (\<open>client.go\<close>). A message field of message type is an
  option (\<open>nil\<close>); the generated getters of a nil message return zero values.
\<close>

record stream_key =
  sk_exchange :: string
  sk_market :: string
  sk_kind :: string
  sk_symbol :: string
  sk_interval :: string

record stream =
  sm_id :: int
  sm_key :: stream_key
  sm_desired_state :: string
  sm_actual_state :: string
  sm_live_delivery :: bool
  sm_lease_count :: int
  sm_last_data_at :: "time option"
  sm_last_error :: string

record stream_state_report =
  sr_id :: int
  sr_actual_state :: string
  sr_last_data_at :: "time option"
  sr_last_error :: string

record historical_request =
  hr_id :: int
  hr_user_id :: int
  hr_portfolio_id :: int
  hr_key :: stream_key
  hr_status :: string
  hr_requested_start :: "time option"
  hr_requested_end :: "time option"
  hr_covered_start :: "time option"
  hr_covered_end :: "time option"
  hr_last_error :: string

record history_report =
  hs_id :: int
  hs_status :: string
  hs_covered_start :: "time option"
  hs_covered_end :: "time option"
  hs_last_error :: string

record coverage_segment_report =
  cr_key :: stream_key
  cr_year :: int
  cr_start :: time
  cr_end :: time
  cr_rows :: int
  cr_source :: string

definition empty_key :: stream_key where
  "empty_key = \<lparr>sk_exchange = [], sk_market = [], sk_kind = [], sk_symbol = [], sk_interval = []\<rparr>"

definition normalize_key :: "stream_key \<Rightarrow> stream_key" where
  "normalize_key k = \<lparr>sk_exchange = norm_lower (sk_exchange k), sk_market = norm_lower (sk_market k),
     sk_kind = norm_lower (sk_kind k), sk_symbol = norm_upper (sk_symbol k), sk_interval = trim_space (sk_interval k)\<rparr>"

lemma normalize_key_idem [simp]: "normalize_key (normalize_key k) = normalize_key k"
  by (simp add: normalize_key_def)

lemma normalize_empty_key [simp]: "normalize_key empty_key = empty_key"
  by (simp add: normalize_key_def empty_key_def string_defs)

subsection \<open>Protobuf messages\<close>

record proto_stream =
  ps_id :: int
  ps_key :: "stream_key option"
  ps_desired_state :: string
  ps_actual_state :: string
  ps_live_delivery :: bool
  ps_lease_count :: int
  ps_last_data_at :: "time option"
  ps_last_error :: string

record proto_request =
  pr_id :: int
  pr_user_id :: int
  pr_portfolio_id :: int
  pr_key :: "stream_key option"
  pr_status :: string
  pr_requested_start :: "time option"
  pr_requested_end :: "time option"
  pr_covered_start :: "time option"
  pr_covered_end :: "time option"
  pr_last_error :: string

definition empty_stream :: stream where
  "empty_stream = \<lparr>sm_id = 0, sm_key = empty_key, sm_desired_state = [], sm_actual_state = [],
     sm_live_delivery = False, sm_lease_count = 0, sm_last_data_at = None, sm_last_error = []\<rparr>"

definition from_proto_stream :: "proto_stream option \<Rightarrow> stream" where
  "from_proto_stream m =
     (case m of
        None \<Rightarrow> empty_stream
      | Some p \<Rightarrow> \<lparr>sm_id = ps_id p,
          sm_key = (case ps_key p of None \<Rightarrow> empty_key | Some k \<Rightarrow> normalize_key k),
          sm_desired_state = norm_lower (ps_desired_state p), sm_actual_state = norm_lower (ps_actual_state p),
          sm_live_delivery = ps_live_delivery p, sm_lease_count = ps_lease_count p,
          sm_last_data_at = ps_last_data_at p, sm_last_error = trim_space (ps_last_error p)\<rparr>)"

definition from_proto_historical_request :: "proto_request option \<Rightarrow> historical_request" where
  "from_proto_historical_request m =
     (case m of
        None \<Rightarrow> \<lparr>hr_id = 0, hr_user_id = 0, hr_portfolio_id = 0, hr_key = empty_key, hr_status = [],
          hr_requested_start = None, hr_requested_end = None, hr_covered_start = None, hr_covered_end = None,
          hr_last_error = []\<rparr>
      | Some p \<Rightarrow> \<lparr>hr_id = pr_id p, hr_user_id = pr_user_id p, hr_portfolio_id = pr_portfolio_id p,
          hr_key = normalize_key (case pr_key p of None \<Rightarrow> empty_key | Some k \<Rightarrow> k),
          hr_status = norm_lower (pr_status p),
          hr_requested_start = pr_requested_start p, hr_requested_end = pr_requested_end p,
          hr_covered_start = pr_covered_start p, hr_covered_end = pr_covered_end p,
          hr_last_error = trim_space (pr_last_error p)\<rparr>)"

text \<open>\<open>normalizeStream\<close> of the runtime; on a decoded message it changes nothing.\<close>

definition normalize_stream :: "stream \<Rightarrow> stream" where
  "normalize_stream s = s\<lparr>sm_desired_state := norm_lower (sm_desired_state s),
     sm_actual_state := norm_lower (sm_actual_state s), sm_last_error := trim_space (sm_last_error s),
     sm_key := normalize_key (sm_key s)\<rparr>"

lemma norm_Nil [simp]: "norm_lower [] = []" "norm_upper [] = []" "trim_space [] = []"
  by (simp_all add: string_defs)

lemma normalize_from_proto: "normalize_stream (from_proto_stream m) = from_proto_stream m"
  by (cases m) (simp_all add: normalize_stream_def from_proto_stream_def empty_stream_def split: option.splits)

subsection \<open>Writer leases\<close>

text \<open>
  \<open>internal/controlplane/writer_lease.go\<close>. The request's fields are the arguments of \<open>rpc\<close>; the ttl is
  truncated to seconds, the year to 32 bits. \<open>rpc\<close> answers an error or a message with an optional
  lease.
\<close>

record proto_lease =
  pl_lease_id :: string
  pl_owner :: string
  pl_scraper :: string
  pl_collector_id :: string
  pl_status :: string
  pl_expires_at :: "time option"

definition writer_lease_from_proto :: "proto_lease option \<Rightarrow> writer_lease" where
  "writer_lease_from_proto m =
     (case m of
        None \<Rightarrow> no_lease
      | Some p \<Rightarrow> \<lparr>wl_lease_id = trim_space (pl_lease_id p), wl_owner_instance_id = trim_space (pl_owner p),
          wl_scraper_instance_id = trim_space (pl_scraper p), wl_collector_id = trim_space (pl_collector_id p),
          wl_status = trim_space (pl_status p),
          wl_expires_at = (case pl_expires_at p of None \<Rightarrow> zero_time | Some t \<Rightarrow> t)\<rparr>)"

record lease_request =
  lq_key :: stream_key
  lq_year :: int
  lq_owner :: string
  lq_scraper :: string
  lq_collector_id :: string
  lq_ttl_seconds :: int

type_synonym 'w lease_rpc = "lease_request \<Rightarrow> 'w \<Rightarrow> (proto_lease option) res \<times> 'w"

definition wrap32 :: "int \<Rightarrow> int" where
  "wrap32 x = (x + 2 ^ 31) mod 2 ^ 32 - 2 ^ 31"

definition create_or_renew_writer_lease ::
  "'w lease_rpc \<Rightarrow> writer_lease_domain \<Rightarrow> string \<Rightarrow> string \<Rightarrow> string \<Rightarrow> duration \<Rightarrow> 'w \<Rightarrow> writer_lease res \<times> 'w" where
  "create_or_renew_writer_lease rpc d owner scraper cid ttl w =
     (case rpc \<lparr>lq_key = \<lparr>sk_exchange = wd_exchange d, sk_market = wd_market d, sk_kind = wd_kind d,
               sk_symbol = wd_symbol d, sk_interval = wd_interval d\<rparr>,
             lq_year = wrap32 (wd_year d), lq_owner = owner, lq_scraper = scraper, lq_collector_id = cid,
             lq_ttl_seconds = sgn ttl * (\<bar>ttl\<bar> div second)\<rparr> w of
        (Inl e, w1) \<Rightarrow> (Inl (Wrapped ''create/renew writer lease'' e), w1)
      | (Inr m, w1) \<Rightarrow> (Inr (writer_lease_from_proto m), w1))"

record 'w lease_manager =
  lm_client :: "(writer_lease_domain \<Rightarrow> string \<Rightarrow> string \<Rightarrow> string \<Rightarrow> duration \<Rightarrow> 'w \<Rightarrow> writer_lease res \<times> 'w) option"
  lm_owner :: string
  lm_scraper :: string
  lm_ttl :: duration

definition new_writer_lease_manager ::
  "(writer_lease_domain \<Rightarrow> string \<Rightarrow> string \<Rightarrow> string \<Rightarrow> duration \<Rightarrow> 'w \<Rightarrow> writer_lease res \<times> 'w) option
    \<Rightarrow> string \<Rightarrow> string \<Rightarrow> duration \<Rightarrow> 'w lease_manager" where
  "new_writer_lease_manager client owner scraper ttl =
     \<lparr>lm_client = client,
      lm_owner = (if trim_space owner = [] then trim_space scraper else trim_space owner),
      lm_scraper = trim_space scraper,
      lm_ttl = (if ttl \<le> 0 then 90 * second else ttl)\<rparr>"

text \<open>\<open>Acquire\<close>; \<open>now\<close> is the clock when the answer is checked. The expiry's text in the message is left
  as its nanoseconds.\<close>

definition lease_acquire :: "'w lease_manager \<Rightarrow> time \<Rightarrow> writer_lease_domain \<Rightarrow> string \<Rightarrow> 'w \<Rightarrow> writer_lease res \<times> 'w" where
  "lease_acquire m now d cid0 w =
     (case lm_client m of
        None \<Rightarrow> (Inl (Err ''writer lease client is not configured''), w)
      | Some call \<Rightarrow>
        if lm_owner m = [] then (Inl (Err ''writer lease owner_instance_id is not configured''), w)
        else if lm_scraper m = [] then (Inl (Err ''writer lease scraper_instance_id is not configured''), w)
        else if trim_space cid0 = [] then (Inl (Err ''writer lease collector_id is required''), w)
        else (case call d (lm_owner m) (lm_scraper m) (trim_space cid0) (lm_ttl m) w of
            (Inl e, w1) \<Rightarrow> (Inl e, w1)
          | (Inr lease, w1) \<Rightarrow>
            if norm_lower (wl_status lease) \<noteq> ''active''
            then (Inl (Err (''writer lease '' @ wl_lease_id lease @ '' is not active: '' @ wl_status lease)), w1)
            else if \<not> is_zero (wl_expires_at lease) \<and> \<not> now < wl_expires_at lease
            then (Inl (Err (''writer lease '' @ wl_lease_id lease @ '' expired at '' @ itoa (wl_expires_at lease))), w1)
            else (Inr lease, w1)))"

subsection \<open>Properties\<close>

text \<open>
  C16. A routed write under a lease manager was covered by a live lease: when the router has been given a
  lease manager and the write returns no error, the control plane was asked for the write's domain under the
  instance's own owner and scraper ids, and answered a lease that is active and, at that moment, not
  expired. (A router without a manager writes without asking for a lease.)
\<close>

theorem routed_write_has_live_lease:
  assumes "rt_lease env = Some (lease_acquire m t)" and "routed env now d wr s = (None, s')"
  shows "\<exists>call lease w1. lm_client m = Some call
    \<and> call (normalize_writer_lease_domain now d) (lm_owner m) (lm_scraper m)
        (trim_space (collector_id (normalize_writer_lease_domain now d))) (lm_ttl m) (snd s) = (Inr lease, w1)
    \<and> norm_lower (wl_status lease) = ''active'' \<and> (is_zero (wl_expires_at lease) \<or> t < wl_expires_at lease)
    \<and> lm_owner m \<noteq> [] \<and> lm_scraper m \<noteq> []"
proof -
  let ?d = "normalize_writer_lease_domain now d"
  obtain lease w1 where "acquire_lease env now d (snd s) = (Inr lease, w1)"
    using assms(2) by (auto simp: routed_def split: sum.splits prod.splits)
  then have "lease_acquire m t ?d (collector_id ?d) (snd s) = (Inr lease, w1)"
    by (auto simp: acquire_lease_def assms(1) Let_def split: sum.splits prod.splits)
  then show ?thesis
    by (auto simp: lease_acquire_def split: option.splits if_splits sum.splits prod.splits)
qed

definition sample_manager :: "kline list lease_manager" where
  "sample_manager = new_writer_lease_manager
     (Some (create_or_renew_writer_lease (\<lambda>q w. (Inr (Some \<lparr>pl_lease_id = ''l1'', pl_owner = lq_owner q,
        pl_scraper = lq_scraper q, pl_collector_id = lq_collector_id q, pl_status = '' Active '',
        pl_expires_at = Some (lq_ttl_seconds q * second)\<rparr>), w)))) [] ''scraper-1'' 0"

theorem routed_write_has_live_lease_witness:
  "fst (routed (log_router\<lparr>rt_lease := Some (lease_acquire sample_manager 89000000000)\<rparr>) 0
      (kline_domain 0 (hd mixed_batch)) (\<lambda>st w. (None, w)) ([], [])) = None
   \<and> lm_owner sample_manager \<noteq> []"
proof -
  let ?env = "log_router\<lparr>rt_lease := Some (lease_acquire sample_manager 89000000000)\<rparr>"
  let ?run = "routed ?env 0 (kline_domain 0 (hd mixed_batch)) (\<lambda>st w. (None, w)) ([], [])"
  have ok: "fst ?run = None" by code_simp
  then obtain s' where run: "?run = (None, s')" by (metis prod.collapse)
  have "rt_lease ?env = Some (lease_acquire sample_manager 89000000000)" by simp
  from routed_write_has_live_lease [OF this run] ok show ?thesis by blast
qed

end
