(* ===== verification/Control_Live.thy ===== *)
theory Control_Live
  imports Control_Types
begin

text \<open>
  The live control-plane runtime (\<open>internal/controlplane/runtime.go\<close>): one handle per stream, started
  and stopped by reconciliation against the streams the control plane lists, plus the goroutines
  that run beside it: the collectors with their observers. Each locked section is one function on
  the runtime's state. A start makes a gate, a context and a collector; they share one number.
  What a locked section leaves to do after the unlock is part of the state: the collectors still to be cancelled and
  stopped, the goroutines, and the reports that are on their way (a report with no state or no id
  is dropped by \<open>report\<close>).
\<close>

definition state_starting :: string where "state_starting = ''starting''"
definition state_running :: string where "state_running = ''running''"
definition state_draining :: string where "state_draining = ''draining''"
definition state_stopped :: string where "state_stopped = ''stopped''"
definition state_error :: string where "state_error = ''error''"

lemmas state_defs = state_starting_def state_running_def state_draining_def state_stopped_def state_error_def

record managed_stream =
  ms_stream :: stream
  ms_collector :: "nat option"
  ms_cancel :: "nat option"
  ms_publisher :: "nat option"
  ms_state :: string
  ms_last_data_at :: "time option"
  ms_last_error :: string
  ms_drain_deadline :: time
  ms_version :: int

definition new_handle :: managed_stream where
  "new_handle = \<lparr>ms_stream = empty_stream, ms_collector = None, ms_cancel = None, ms_publisher = None,
     ms_state = [], ms_last_data_at = None, ms_last_error = [], ms_drain_deadline = zero_time, ms_version = 0\<rparr>"

text \<open>A \<open>runCollector\<close> goroutine: its stream, its version, and whether \<open>Run\<close> has returned and the
  context was found alive.\<close>

record task =
  tk_stream :: int
  tk_version :: int
  tk_exited :: bool

text \<open>A Go map as an association list in which every key occurs once.\<close>

definition put :: "'k \<Rightarrow> 'v \<Rightarrow> ('k \<times> 'v) list \<Rightarrow> ('k \<times> 'v) list" where
  "put k v m = (k, v) # filter (\<lambda>p. fst p \<noteq> k) m"

lemma map_of_filter_key: "map_of (filter (\<lambda>p. P (fst p)) m) i = (if P i then map_of m i else None)"
  by (induction m) auto

lemma map_of_put [simp]: "map_of (put k v m) = (map_of m)(k \<mapsto> v)"
  by (rule ext) (simp add: put_def map_of_filter_key [where P = "\<lambda>x. x \<noteq> k"])

lemma put_keys: "distinct (map fst m) \<Longrightarrow> distinct (map fst (put k v m))"
  by (auto simp: put_def distinct_map inj_on_def)

record live_state =
  lv_managed :: "(int \<times> managed_stream) list"
  lv_next :: nat
  lv_gates :: "nat \<Rightarrow> bool option"
  lv_tasks :: "nat \<Rightarrow> task option"
  lv_to_stop :: "nat set"
  lv_stopped :: "nat set"
  lv_reports :: "stream_state_report list"

definition live_init :: live_state where
  "live_init = \<lparr>lv_managed = [], lv_next = 0, lv_gates = (\<lambda>_. None), lv_tasks = (\<lambda>_. None),
     lv_to_stop = {}, lv_stopped = {}, lv_reports = []\<rparr>"

text \<open>
  The configuration: is there a Kafka publisher, the grace period, and for each exchange a factory
  (the error it answers, or a collector).
\<close>

record live_config =
  lc_publisher :: bool
  lc_grace :: duration
  lc_factories :: "string \<Rightarrow> (stream \<Rightarrow> go_error option) option"

definition should_run :: "stream \<Rightarrow> bool" where
  "should_run s \<longleftrightarrow> sm_desired_state s = ''running'' \<or> 0 < sm_lease_count s"

definition snapshot_report :: "managed_stream \<Rightarrow> string \<Rightarrow> stream_state_report" where
  "snapshot_report h e = \<lparr>sr_id = sm_id (ms_stream h), sr_actual_state = ms_state h,
     sr_last_data_at = ms_last_data_at h, sr_last_error = trim_space e\<rparr>"

definition send_report :: "stream_state_report \<Rightarrow> live_state \<Rightarrow> live_state" where
  "send_report rep st =
     (if sr_id rep \<le> 0 \<or> sr_actual_state rep = [] then st else st\<lparr>lv_reports := lv_reports st @ [rep]\<rparr>)"

text \<open>Store the handle and report its snapshot.\<close>

definition commit :: "managed_stream \<Rightarrow> string \<Rightarrow> live_state \<Rightarrow> live_state" where
  "commit h e st = send_report (snapshot_report h e)
     (st\<lparr>lv_managed := put (sm_id (ms_stream h)) h (lv_managed st)\<rparr>)"

definition live_warning :: "live_config \<Rightarrow> stream \<Rightarrow> string" where
  "live_warning cfg s =
     (if sm_live_delivery s \<and> \<not> lc_publisher cfg
      then ''effective_live_delivery requested but market-data kafka publisher is unavailable'' else [])"

subsection \<open>The locked sections of the reconciler\<close>

text \<open>The handle of the stream, with the stream's new description.\<close>

definition current_handle :: "live_state \<Rightarrow> stream \<Rightarrow> managed_stream" where
  "current_handle st s =
     (case map_of (lv_managed st) (sm_id s) of None \<Rightarrow> new_handle | Some h \<Rightarrow> h)\<lparr>ms_stream := s\<rparr>"

text \<open>\<open>handle.publisher.SetEnabled\<close>, when there is a gate.\<close>

definition set_gate :: "nat option \<Rightarrow> bool \<Rightarrow> live_state \<Rightarrow> live_state" where
  "set_gate g on st = (case g of None \<Rightarrow> st | Some n \<Rightarrow> st\<lparr>lv_gates := (lv_gates st)(n := Some on)\<rparr>)"

definition keep_running :: "managed_stream \<Rightarrow> managed_stream" where
  "keep_running h =
     (if ms_state h = [] \<or> ms_state h = state_stopped \<or> ms_state h = state_error
      then h\<lparr>ms_state := (if ms_last_data_at h \<noteq> None then state_running else state_starting)\<rparr> else h)"

definition start_collector :: "live_config \<Rightarrow> stream \<Rightarrow> (stream \<Rightarrow> go_error option) \<Rightarrow> managed_stream \<Rightarrow> live_state \<Rightarrow> live_state" where
  "start_collector cfg s factory h st =
     (let n = lv_next st;
          live = (sm_live_delivery s \<and> lc_publisher cfg);
          st1 = st\<lparr>lv_next := n + 1, lv_gates := (lv_gates st)(n := Some live)\<rparr>
      in case factory s of
        Some e \<Rightarrow>
          commit (h\<lparr>ms_publisher := None, ms_collector := None, ms_cancel := None, ms_state := state_error,
                    ms_last_error := error_text e\<rparr>) (error_text e) st1
      | None \<Rightarrow>
          (let h' = h\<lparr>ms_version := ms_version h + 1, ms_collector := Some n, ms_cancel := Some n,
                      ms_publisher := Some n, ms_state := state_starting, ms_last_error := live_warning cfg s\<rparr>
           in commit h' (live_warning cfg s)
                (st1\<lparr>lv_tasks := (lv_tasks st1)(n := Some \<lparr>tk_stream = sm_id s, tk_version = ms_version h', tk_exited = False\<rparr>)\<rparr>)))"

text \<open>\<open>reconcileStream\<close>; cancelling and stopping the drained collector comes after the unlock.\<close>

definition reconcile_stream :: "live_config \<Rightarrow> time \<Rightarrow> stream \<Rightarrow> (stream \<Rightarrow> go_error option) \<Rightarrow> live_state \<Rightarrow> live_state" where
  "reconcile_stream cfg now s factory st0 =
     (let h = current_handle st0 s;
          st = set_gate (ms_publisher h) (sm_live_delivery s \<and> lc_publisher cfg) st0
      in if should_run s then
           (let h1 = h\<lparr>ms_drain_deadline := zero_time\<rparr>
            in if ms_collector h1 \<noteq> None then commit (keep_running h1) (live_warning cfg s) st
               else start_collector cfg s factory h1 st)
         else if ms_collector h = None then
           commit (h\<lparr>ms_state := state_stopped, ms_last_error := [], ms_drain_deadline := zero_time\<rparr>) [] st
         else
           (let deadline = (if is_zero (ms_drain_deadline h) then time_add now (lc_grace cfg) else ms_drain_deadline h)
            in if now < deadline then
                 commit (h\<lparr>ms_drain_deadline := deadline, ms_state := state_draining, ms_last_error := []\<rparr>) [] st
               else
                 commit (h\<lparr>ms_version := ms_version h + 1, ms_collector := None, ms_cancel := None, ms_publisher := None,
                           ms_state := state_stopped, ms_last_error := [], ms_drain_deadline := zero_time\<rparr>) []
                   (st\<lparr>lv_to_stop := lv_to_stop st \<union> set_option (ms_collector h)\<rparr>)))"

text \<open>\<open>stopMissingStreams\<close>: the handles of unseen streams are deleted, their collectors stopped.\<close>

definition collectors_of :: "(int \<times> managed_stream) list \<Rightarrow> nat set" where
  "collectors_of m = (\<Union>(i, h) \<in> set m. set_option (ms_collector h) \<union> set_option (ms_cancel h))"

definition stop_missing_streams :: "int set \<Rightarrow> live_state \<Rightarrow> live_state" where
  "stop_missing_streams seen st =
     st\<lparr>lv_managed := filter (\<lambda>p. fst p \<in> seen) (lv_managed st),
        lv_to_stop := lv_to_stop st \<union> collectors_of (filter (\<lambda>p. fst p \<notin> seen) (lv_managed st))\<rparr>"

text \<open>After the unlock: the contexts are cancelled and the collectors stopped.\<close>

definition perform_stops :: "live_state \<Rightarrow> live_state" where
  "perform_stops st = st\<lparr>lv_stopped := lv_stopped st \<union> lv_to_stop st, lv_to_stop := {}\<rparr>"

definition reconcile_listed :: "live_config \<Rightarrow> time \<Rightarrow> stream \<Rightarrow> int set \<times> live_state \<Rightarrow> int set \<times> live_state" where
  "reconcile_listed cfg now raw acc =
     (let s = normalize_stream raw
      in if sm_id s \<le> 0 \<or> sk_kind (sm_key s) \<noteq> ''kline'' then acc
         else (case lc_factories cfg (sk_exchange (sm_key s)) of
             None \<Rightarrow> acc
           | Some factory \<Rightarrow> (insert (sm_id s) (fst acc), perform_stops (reconcile_stream cfg now s factory (snd acc)))))"

text \<open>\<open>ReconcileOnce\<close> with the streams the control plane listed, undisturbed by other goroutines.\<close>

definition reconcile_once :: "live_config \<Rightarrow> time \<Rightarrow> stream list \<Rightarrow> live_state \<Rightarrow> live_state" where
  "reconcile_once cfg now streams st =
     (let (seen, st1) = fold (reconcile_listed cfg now) streams ({}, st)
      in perform_stops (stop_missing_streams seen st1))"

subsection \<open>The other goroutines\<close>

text \<open>\<open>recordStored\<close>, called by the observer of version \<open>v\<close>.\<close>

definition record_stored :: "live_config \<Rightarrow> int \<Rightarrow> int \<Rightarrow> time \<Rightarrow> live_state \<Rightarrow> live_state" where
  "record_stored cfg sid v at st =
     (case map_of (lv_managed st) sid of
        None \<Rightarrow> st
      | Some h \<Rightarrow>
        if ms_version h \<noteq> v then st
        else (let warning = live_warning cfg (ms_stream h);
                  h' = h\<lparr>ms_last_data_at := Some at, ms_state := state_running, ms_last_error := warning\<rparr>
              in send_report (snapshot_report h' warning) (st\<lparr>lv_managed := put sid h' (lv_managed st)\<rparr>)))"

text \<open>\<open>runCollector\<close> after \<open>Run\<close> has returned: first the look at the context, then the locked section.\<close>

definition collector_returned :: "nat \<Rightarrow> live_state \<Rightarrow> live_state" where
  "collector_returned n st =
     (case lv_tasks st n of
        None \<Rightarrow> st
      | Some t \<Rightarrow>
        if n \<in> lv_stopped st then st\<lparr>lv_tasks := (lv_tasks st)(n := None)\<rparr>
        else st\<lparr>lv_tasks := (lv_tasks st)(n := Some (t\<lparr>tk_exited := True\<rparr>))\<rparr>)"

definition collector_exited :: "nat \<Rightarrow> live_state \<Rightarrow> live_state" where
  "collector_exited n st =
     (case lv_tasks st n of
        None \<Rightarrow> st
      | Some t \<Rightarrow>
        (let st1 = st\<lparr>lv_tasks := (lv_tasks st)(n := None)\<rparr>
         in if \<not> tk_exited t then st
            else (case map_of (lv_managed st) (tk_stream t) of
                None \<Rightarrow> st1
              | Some h \<Rightarrow>
                if ms_version h \<noteq> tk_version t \<or> ms_collector h = None then st1
                else (let h' = h\<lparr>ms_collector := None, ms_cancel := None, ms_publisher := None, ms_state := state_error,
                                 ms_last_error := ''collector exited unexpectedly''\<rparr>
                      in send_report (snapshot_report h' (ms_last_error h'))
                           (st1\<lparr>lv_managed := put (tk_stream t) h' (lv_managed st)\<rparr>)))))"

text \<open>\<open>shutdown\<close>.\<close>

definition live_shutdown :: "live_state \<Rightarrow> live_state" where
  "live_shutdown st = perform_stops (stop_missing_streams {} st)"

subsection \<open>Every interleaving\<close>

text \<open>
  The steps of the goroutines in any order: the reconciler's locked sections, the stops after
  them, a bar stored by a collector whose goroutine runs, and the end of a collector.
\<close>

inductive live_step :: "live_config \<Rightarrow> live_state \<Rightarrow> live_state \<Rightarrow> bool" for cfg where
  reconcile: "0 < sm_id s \<Longrightarrow> live_step cfg st (reconcile_stream cfg now s factory st)"
| missing: "live_step cfg st (stop_missing_streams seen st)"
| stop_one: "n \<in> lv_to_stop st \<Longrightarrow>
    live_step cfg st (st\<lparr>lv_stopped := insert n (lv_stopped st), lv_to_stop := lv_to_stop st - {n}\<rparr>)"
| stored: "lv_tasks st n = Some t \<Longrightarrow> live_step cfg st (record_stored cfg (tk_stream t) (tk_version t) at st)"
| returned: "live_step cfg st (collector_returned n st)"
| exited: "live_step cfg st (collector_exited n st)"

definition live_reach :: "live_config \<Rightarrow> live_state \<Rightarrow> bool" where
  "live_reach cfg st \<longleftrightarrow> (live_step cfg)\<^sup>*\<^sup>* live_init st"

lemma live_reach_step: "live_reach cfg st \<Longrightarrow> live_step cfg st st' \<Longrightarrow> live_reach cfg st'"
  unfolding live_reach_def by (rule rtranclp.rtrancl_into_rtrancl)

lemma live_reach_init: "live_reach cfg live_init"
  by (simp add: live_reach_def)

lemma live_reach_induct [consumes 1, case_names init step]:
  assumes "live_reach cfg st" "P live_init" "\<And>st st'. P st \<Longrightarrow> live_step cfg st st' \<Longrightarrow> P st'"
  shows "P st"
  using assms(1) unfolding live_reach_def by (induction rule: rtranclp_induct) (auto intro: assms(2,3))

subsection \<open>Lemmas: the handles\<close>

text \<open>
  A handle has a collector, its context and its gate together or none of them; \<open>dead\<close> are the
  collectors that were or will be stopped, \<open>next\<close> bounds the numbers in use.
\<close>

definition handle_whole :: "managed_stream \<Rightarrow> bool" where
  "handle_whole h \<longleftrightarrow> ms_cancel h = ms_collector h \<and> ms_publisher h = ms_collector h"

definition handles_ok :: "(int \<times> managed_stream) list \<Rightarrow> nat \<Rightarrow> nat set \<Rightarrow> bool" where
  "handles_ok m next dead \<longleftrightarrow> distinct (map fst m)
     \<and> (\<forall>i h. map_of m i = Some h \<longrightarrow> sm_id (ms_stream h) = i \<and> handle_whole h)
     \<and> (\<forall>i h n. map_of m i = Some h \<longrightarrow> ms_collector h = Some n \<longrightarrow> n < next \<and> n \<notin> dead)
     \<and> (\<forall>i j h k n. map_of m i = Some h \<longrightarrow> map_of m j = Some k \<longrightarrow> ms_collector h = Some n \<longrightarrow>
          ms_collector k = Some n \<longrightarrow> i = j)"

definition live_inv :: "live_state \<Rightarrow> bool" where
  "live_inv st \<longleftrightarrow> handles_ok (lv_managed st) (lv_next st) (lv_to_stop st \<union> lv_stopped st)
     \<and> lv_to_stop st \<union> lv_stopped st \<subseteq> {..<lv_next st}"

lemma handles_ok_put:
  assumes "handles_ok m next dead" "sm_id (ms_stream h) = i" "handle_whole h" "next \<le> next'"
    and "\<And>n. n \<in> dead' \<Longrightarrow> n \<in> dead \<or> (\<exists>old. map_of m i = Some old \<and> ms_collector old = Some n)"
    and "\<And>n. ms_collector h = Some n \<Longrightarrow> n < next' \<and> n \<notin> dead'
      \<and> (next \<le> n \<or> (\<exists>old. map_of m i = Some old \<and> ms_collector old = Some n))"
  shows "handles_ok (put i h m) next' dead'"
proof -
  have other: "n \<noteq> n'" if "ms_collector h = Some n" "j \<noteq> i" "map_of m j = Some k" "ms_collector k = Some n'" for n n' j k
  proof -
    have "n' < next" using assms(1) that(3,4) by (auto simp: handles_ok_def)
    moreover have "n = n' \<Longrightarrow> map_of m i = Some old \<Longrightarrow> ms_collector old = Some n \<Longrightarrow> j = i" for old
      using assms(1) that(3,4) unfolding handles_ok_def by blast
    ultimately show ?thesis using assms(6) [OF that(1)] that(2) by auto
  qed
  show ?thesis
    unfolding handles_ok_def
  proof (intro conjI allI impI)
    show "distinct (map fst (put i h m))" using assms(1) by (intro put_keys) (simp add: handles_ok_def)
  next
    fix j k assume k: "map_of (put i h m) j = Some k"
    then show "sm_id (ms_stream k) = j" using assms(1,2) by (auto simp: handles_ok_def split: if_splits)
    show "handle_whole k" using k assms(1,3) by (auto simp: handles_ok_def split: if_splits)
  next
    fix j k n assume k: "map_of (put i h m) j = Some k" "ms_collector k = Some n"
    show "n < next'" using k assms(1,4,6) by (force simp: handles_ok_def split: if_splits)
    show "n \<notin> dead'"
    proof (cases "j = i")
      case True
      with k assms(6) show ?thesis by simp
    next
      case False
      with k have j: "map_of m j = Some k" by simp
      then have "n \<notin> dead" using assms(1) k(2) unfolding handles_ok_def by blast
      moreover have "\<not> (\<exists>old. map_of m i = Some old \<and> ms_collector old = Some n)"
        using assms(1) j k(2) False unfolding handles_ok_def by blast
      ultimately show ?thesis using assms(5) by blast
    qed
  next
    fix j j' k k' n
    assume "map_of (put i h m) j = Some k" "map_of (put i h m) j' = Some k'"
      "ms_collector k = Some n" "ms_collector k' = Some n"
    then show "j = j'"
      using other assms(1) unfolding handles_ok_def by (auto split: if_splits)
  qed
qed

lemma handles_ok_filter:
  assumes "handles_ok m next dead"
  shows "handles_ok (filter (\<lambda>p. P (fst p)) m) next (dead \<union> collectors_of (filter (\<lambda>p. \<not> P (fst p)) m))"
proof -
  have d: "distinct (map fst m)" using assms by (simp add: handles_ok_def)
  have gone: "\<exists>j k. map_of m j = Some k \<and> \<not> P j \<and> ms_collector k = Some n"
    if "n \<in> collectors_of (filter (\<lambda>p. \<not> P (fst p)) m)" for n
  proof -
    from that obtain j k where jk: "(j, k) \<in> set m" "\<not> P j" "ms_collector k = Some n \<or> ms_cancel k = Some n"
      by (auto simp: collectors_of_def)
    then have "map_of m j = Some k" using d by (simp add: map_of_eq_Some_iff)
    moreover from this have "ms_collector k = Some n"
      using jk(3) assms by (auto simp: handles_ok_def handle_whole_def)
    ultimately show ?thesis using jk(2) by blast
  qed
  have "n \<notin> collectors_of (filter (\<lambda>p. \<not> P (fst p)) m)"
    if "map_of m i = Some h" "P i" "ms_collector h = Some n" for i h n
  proof
    assume "n \<in> collectors_of (filter (\<lambda>p. \<not> P (fst p)) m)"
    from gone [OF this] obtain j k where "map_of m j = Some k" "\<not> P j" "ms_collector k = Some n" by blast
    with that assms have "i = j" unfolding handles_ok_def by blast
    with \<open>P i\<close> \<open>\<not> P j\<close> show False by simp
  qed
  moreover have "distinct (map fst (filter (\<lambda>p. P (fst p)) m))" using d by (simp add: distinct_map_filter)
  ultimately show ?thesis
    using assms unfolding handles_ok_def map_of_filter_key by (auto split: if_splits)
qed

lemma collectors_of_bound:
  assumes "handles_ok m next dead"
  shows "collectors_of (filter P m) \<subseteq> {..<next}"
proof
  fix n assume "n \<in> collectors_of (filter P m)"
  then obtain j k where "(j, k) \<in> set m" "ms_collector k = Some n \<or> ms_cancel k = Some n"
    by (auto simp: collectors_of_def)
  moreover from this have "map_of m j = Some k" using assms by (simp add: map_of_eq_Some_iff handles_ok_def)
  ultimately show "n \<in> {..<next}" using assms unfolding handles_ok_def handle_whole_def by auto
qed

subsection \<open>Lemmas: each step keeps the handles\<close>

lemma send_report_simps [simp]:
  "lv_managed (send_report r st) = lv_managed st" "lv_next (send_report r st) = lv_next st"
  "lv_to_stop (send_report r st) = lv_to_stop st" "lv_stopped (send_report r st) = lv_stopped st"
  "lv_tasks (send_report r st) = lv_tasks st" "lv_gates (send_report r st) = lv_gates st"
  by (simp_all add: send_report_def)

lemma commit_simps [simp]:
  "lv_managed (commit h e st) = put (sm_id (ms_stream h)) h (lv_managed st)" "lv_next (commit h e st) = lv_next st"
  "lv_to_stop (commit h e st) = lv_to_stop st" "lv_stopped (commit h e st) = lv_stopped st"
  "lv_tasks (commit h e st) = lv_tasks st" "lv_gates (commit h e st) = lv_gates st"
  by (simp_all add: commit_def)

lemma set_gate_simps [simp]:
  "lv_managed (set_gate g on st) = lv_managed st" "lv_next (set_gate g on st) = lv_next st"
  "lv_to_stop (set_gate g on st) = lv_to_stop st" "lv_stopped (set_gate g on st) = lv_stopped st"
  "lv_tasks (set_gate g on st) = lv_tasks st"
  by (simp_all add: set_gate_def split: option.splits)

lemma keep_running_simps [simp]:
  "ms_stream (keep_running h) = ms_stream h" "ms_collector (keep_running h) = ms_collector h"
  "ms_cancel (keep_running h) = ms_cancel h" "ms_publisher (keep_running h) = ms_publisher h"
  "ms_version (keep_running h) = ms_version h" "ms_drain_deadline (keep_running h) = ms_drain_deadline h"
  by (simp_all add: keep_running_def)

lemma current_handle_ok:
  assumes "live_inv st"
  shows "ms_stream (current_handle st s) = s \<and> handle_whole (current_handle st s)
    \<and> (\<forall>n. ms_collector (current_handle st s) = Some n \<longrightarrow>
         (\<exists>old. map_of (lv_managed st) (sm_id s) = Some old \<and> ms_collector old = Some n)
         \<and> n < lv_next st \<and> n \<notin> lv_to_stop st \<union> lv_stopped st)"
proof (cases "map_of (lv_managed st) (sm_id s)")
  case None
  then show ?thesis by (simp add: current_handle_def new_handle_def handle_whole_def)
next
  case (Some old)
  then have "handle_whole old" "\<And>n. ms_collector old = Some n \<Longrightarrow> n < lv_next st \<and> n \<notin> lv_to_stop st \<union> lv_stopped st"
    using assms unfolding live_inv_def handles_ok_def by blast+
  with Some show ?thesis by (simp add: current_handle_def handle_whole_def)
qed

lemma live_inv_commit:
  assumes "live_inv st" "handle_whole h" "lv_managed st' = lv_managed st" "lv_next st \<le> lv_next st'"
    "lv_stopped st' = lv_stopped st" "lv_to_stop st \<subseteq> lv_to_stop st'"
    and "\<And>n. n \<in> lv_to_stop st' \<Longrightarrow> n \<in> lv_to_stop st
      \<or> (\<exists>old. map_of (lv_managed st) (sm_id (ms_stream h)) = Some old \<and> ms_collector old = Some n)"
    and "\<And>n. ms_collector h = Some n \<Longrightarrow> n < lv_next st' \<and> n \<notin> lv_to_stop st' \<union> lv_stopped st'
      \<and> (lv_next st \<le> n \<or> (\<exists>old. map_of (lv_managed st) (sm_id (ms_stream h)) = Some old \<and> ms_collector old = Some n))"
  shows "live_inv (commit h e st')"
  unfolding live_inv_def commit_simps assms(3)
proof
  have ok: "handles_ok (lv_managed st) (lv_next st) (lv_to_stop st \<union> lv_stopped st)"
    and bound: "lv_to_stop st \<union> lv_stopped st \<subseteq> {..<lv_next st}" using assms(1) by (auto simp: live_inv_def)
  show "handles_ok (put (sm_id (ms_stream h)) h (lv_managed st)) (lv_next st') (lv_to_stop st' \<union> lv_stopped st')"
    by (rule handles_ok_put [OF ok refl assms(2,4)]) (use assms(5,7,8) in blast)+
  have "n < lv_next st'" if "n \<in> lv_to_stop st'" for n
    using assms(7) [OF that] bound ok assms(4) unfolding handles_ok_def by force
  then show "lv_to_stop st' \<union> lv_stopped st' \<subseteq> {..<lv_next st'}" using bound assms(4,5) by force
qed

lemma reconcile_stream_inv:
  assumes "live_inv st0"
  shows "live_inv (reconcile_stream cfg now s factory st0)"
proof -
  let ?h = "current_handle st0 s"
  let ?st = "set_gate (ms_publisher ?h) (sm_live_delivery s \<and> lc_publisher cfg) st0"
  have h: "ms_stream ?h = s" "handle_whole ?h"
    and c: "\<And>n. ms_collector ?h = Some n \<Longrightarrow>
      (\<exists>old. map_of (lv_managed st0) (sm_id s) = Some old \<and> ms_collector old = Some n)
      \<and> n < lv_next st0 \<and> n \<notin> lv_to_stop st0 \<union> lv_stopped st0"
    using current_handle_ok [OF assms, of s] by auto
  note unf = reconcile_stream_def Let_def
  show ?thesis
  proof (cases "should_run s")
    case True
    show ?thesis
    proof (cases "ms_collector ?h")
      case None
      have fresh: "lv_next st0 \<notin> lv_to_stop st0 \<union> lv_stopped st0" using assms by (auto simp: live_inv_def)
      show ?thesis
      proof (cases "factory s")
        case None
        with True \<open>ms_collector ?h = None\<close> show ?thesis
          unfolding unf by (auto simp: start_collector_def Let_def h handle_whole_def fresh
              intro!: live_inv_commit [OF assms] simp del: Un_iff) (use fresh in auto)
      next
        case (Some e)
        with True \<open>ms_collector ?h = None\<close> show ?thesis
          unfolding unf by (auto simp: start_collector_def Let_def h handle_whole_def intro!: live_inv_commit [OF assms])
      qed
    next
      case (Some n)
      with True h c show ?thesis
        unfolding unf by (auto simp: handle_whole_def intro!: live_inv_commit [OF assms])
    qed
  next
    case False
    with h c show ?thesis
      unfolding unf by (auto simp: handle_whole_def intro!: live_inv_commit [OF assms])
  qed
qed

lemma live_inv_other:
  assumes "live_inv st" "lv_managed st' = lv_managed st" "lv_next st' = lv_next st"
    "lv_to_stop st' \<union> lv_stopped st' = lv_to_stop st \<union> lv_stopped st"
  shows "live_inv st'"
  using assms by (simp add: live_inv_def)

lemma stop_missing_inv: "live_inv st \<Longrightarrow> live_inv (stop_missing_streams seen st)"
  using handles_ok_filter [of "lv_managed st" "lv_next st" "lv_to_stop st \<union> lv_stopped st" "\<lambda>i. i \<in> seen"]
    collectors_of_bound [of "lv_managed st" "lv_next st" "lv_to_stop st \<union> lv_stopped st"]
  by (simp add: live_inv_def stop_missing_streams_def Un_ac)

lemma record_stored_inv:
  assumes "live_inv st"
  shows "live_inv (record_stored cfg sid v at st)"
proof (cases "\<exists>h. map_of (lv_managed st) sid = Some h \<and> ms_version h = v")
  case False
  with assms show ?thesis by (auto simp: record_stored_def split: option.splits)
next
  case True
  then obtain h where h: "map_of (lv_managed st) sid = Some h" "ms_version h = v" by blast
  let ?h = "h\<lparr>ms_last_data_at := Some at, ms_state := state_running, ms_last_error := live_warning cfg (ms_stream h)\<rparr>"
  have ok: "sm_id (ms_stream h) = sid" "handle_whole h"
    "\<And>n. ms_collector h = Some n \<Longrightarrow> n < lv_next st \<and> n \<notin> lv_to_stop st \<union> lv_stopped st"
    using assms h(1) unfolding live_inv_def handles_ok_def by blast+
  have "record_stored cfg sid v at st = commit ?h (live_warning cfg (ms_stream h)) st"
    using h ok(1) by (simp add: record_stored_def commit_def Let_def)
  moreover have "live_inv (commit ?h (live_warning cfg (ms_stream h)) st)"
    by (rule live_inv_commit [OF assms]) (use ok h in \<open>auto simp: handle_whole_def\<close>)
  ultimately show ?thesis by simp
qed

lemma collector_exited_inv:
  assumes "live_inv st"
  shows "live_inv (collector_exited n st)"
proof (cases "\<exists>t h. lv_tasks st n = Some t \<and> tk_exited t \<and> map_of (lv_managed st) (tk_stream t) = Some h
    \<and> ms_version h = tk_version t \<and> ms_collector h \<noteq> None")
  case False
  then have "collector_exited n st = st \<or> collector_exited n st = st\<lparr>lv_tasks := (lv_tasks st)(n := None)\<rparr>"
    by (auto simp: collector_exited_def Let_def split: option.splits)
  with assms show ?thesis by (auto simp: live_inv_def)
next
  case True
  then obtain t h where t: "lv_tasks st n = Some t" "tk_exited t" "map_of (lv_managed st) (tk_stream t) = Some h"
    "ms_version h = tk_version t" "ms_collector h \<noteq> None" by blast
  let ?h = "h\<lparr>ms_collector := None, ms_cancel := None, ms_publisher := None, ms_state := state_error,
     ms_last_error := ''collector exited unexpectedly''\<rparr>"
  let ?st = "st\<lparr>lv_tasks := (lv_tasks st)(n := None)\<rparr>"
  have ok: "sm_id (ms_stream h) = tk_stream t" using assms t(3) unfolding live_inv_def handles_ok_def by blast
  have "collector_exited n st = commit ?h (ms_last_error ?h) ?st"
    using t ok by (auto simp: collector_exited_def commit_def Let_def)
  moreover have "live_inv (commit ?h (ms_last_error ?h) ?st)"
    by (rule live_inv_commit [OF assms]) (auto simp: handle_whole_def)
  ultimately show ?thesis by simp
qed

lemma live_step_inv: "live_step cfg st st' \<Longrightarrow> live_inv st \<Longrightarrow> live_inv st'"
proof (induction rule: live_step.induct)
  case (reconcile s st now factory)
  then show ?case by (intro reconcile_stream_inv)
next
  case (missing st seen)
  then show ?case by (rule stop_missing_inv)
next
  case (stop_one n st)
  then show ?case by (intro live_inv_other [OF stop_one.prems]) auto
next
  case (stored st n t at)
  then show ?case by (intro record_stored_inv)
next
  case (returned st n)
  then show ?case by (rule live_inv_other) (auto simp: collector_returned_def split: option.splits)
next
  case (exited st n)
  then show ?case by (rule collector_exited_inv)
qed

lemma live_reach_inv: "live_reach cfg st \<Longrightarrow> live_inv st"
proof (induction rule: live_reach_induct)
  case init
  show ?case by (simp add: live_init_def live_inv_def handles_ok_def)
qed (rule live_step_inv)

subsection \<open>Lemmas: no collector runs unmanaged\<close>

text \<open>
  While no handle is deleted, a goroutine whose collector was not told to stop is the one of its
  stream's handle: versions only grow, and the handle's version belongs to its collector.
\<close>

inductive keep_step :: "live_config \<Rightarrow> live_state \<Rightarrow> live_state \<Rightarrow> bool" for cfg where
  reconcile: "0 < sm_id s \<Longrightarrow> keep_step cfg st (reconcile_stream cfg now s factory st)"
| stop_one: "n \<in> lv_to_stop st \<Longrightarrow>
    keep_step cfg st (st\<lparr>lv_stopped := insert n (lv_stopped st), lv_to_stop := lv_to_stop st - {n}\<rparr>)"
| stored: "lv_tasks st n = Some t \<Longrightarrow> keep_step cfg st (record_stored cfg (tk_stream t) (tk_version t) at st)"
| returned: "keep_step cfg st (collector_returned n st)"
| exited: "keep_step cfg st (collector_exited n st)"

lemma keep_step_live: "keep_step cfg st st' \<Longrightarrow> live_step cfg st st'"
  by (induction rule: keep_step.induct) (auto intro: live_step.intros)

definition task_ok :: "live_state \<Rightarrow> nat \<Rightarrow> task \<Rightarrow> bool" where
  "task_ok st n t \<longleftrightarrow> n < lv_next st \<and> (\<exists>h. map_of (lv_managed st) (tk_stream t) = Some h \<and> tk_version t \<le> ms_version h
     \<and> (tk_version t = ms_version h \<longrightarrow> ms_collector h = Some n)
     \<and> (tk_version t < ms_version h \<longrightarrow> n \<in> lv_to_stop st \<union> lv_stopped st))"

definition tasks_ok :: "live_state \<Rightarrow> bool" where
  "tasks_ok st \<longleftrightarrow> (\<forall>n t. lv_tasks st n = Some t \<longrightarrow> task_ok st n t)"

text \<open>A locked section that stores a new version of one handle.\<close>

lemma tasks_ok_commit:
  assumes "tasks_ok st" "lv_managed st' = lv_managed st" "lv_next st \<le> lv_next st'"
    "lv_to_stop st \<union> lv_stopped st \<subseteq> lv_to_stop st' \<union> lv_stopped st'"
    and "\<And>n t. lv_tasks st' n = Some t \<Longrightarrow> tk_stream t \<noteq> sm_id (ms_stream h) \<Longrightarrow> lv_tasks st n = Some t"
    and "\<And>n t. lv_tasks st' n = Some t \<Longrightarrow> tk_stream t = sm_id (ms_stream h) \<Longrightarrow>
      n < lv_next st' \<and> tk_version t \<le> ms_version h \<and> (tk_version t = ms_version h \<longrightarrow> ms_collector h = Some n)
      \<and> (tk_version t < ms_version h \<longrightarrow> n \<in> lv_to_stop st' \<union> lv_stopped st')"
  shows "tasks_ok (commit h e st')"
  unfolding tasks_ok_def
proof (intro allI impI)
  fix n t assume t: "lv_tasks (commit h e st') n = Some t"
  then have t': "lv_tasks st' n = Some t" by simp
  show "task_ok (commit h e st') n t"
  proof (cases "tk_stream t = sm_id (ms_stream h)")
    case True
    with assms(6) [OF t'] show ?thesis by (simp add: task_ok_def assms(2))
  next
    case False
    with assms(1,5) t' have "task_ok st n t" by (simp add: tasks_ok_def)
    with False assms(2-4) show ?thesis unfolding task_ok_def by (auto dest: subsetD)
  qed
qed

lemma tasks_ok_mono:
  assumes "tasks_ok st" "lv_managed st' = lv_managed st" "lv_next st' = lv_next st"
    "lv_to_stop st' \<union> lv_stopped st' = lv_to_stop st \<union> lv_stopped st"
    "\<And>n t. lv_tasks st' n = Some t \<Longrightarrow> \<exists>u. lv_tasks st n = Some u \<and> tk_stream u = tk_stream t \<and> tk_version u = tk_version t"
  shows "tasks_ok st'"
  unfolding tasks_ok_def
proof (intro allI impI)
  fix n t assume "lv_tasks st' n = Some t"
  from assms(5) [OF this] obtain u where "task_ok st n u" "tk_stream u = tk_stream t" "tk_version u = tk_version t"
    using assms(1) by (auto simp: tasks_ok_def)
  then show "task_ok st' n t" using assms(2-4) by (simp add: task_ok_def)
qed

lemma reconcile_stream_tasks:
  assumes inv: "live_inv st0" and tasks: "tasks_ok st0"
  shows "tasks_ok (reconcile_stream cfg now s factory st0)"
proof -
  let ?h = "current_handle st0 s"
  have h: "ms_stream ?h = s" using current_handle_ok [OF inv, of s] by simp
  have old: "n < lv_next st0 \<and> tk_version t \<le> ms_version ?h \<and> (tk_version t = ms_version ?h \<longrightarrow> ms_collector ?h = Some n)
      \<and> (tk_version t < ms_version ?h \<longrightarrow> n \<in> lv_to_stop st0 \<union> lv_stopped st0)"
    if "lv_tasks st0 n = Some t" "tk_stream t = sm_id s" for n t
  proof -
    have "task_ok st0 n t" using tasks that(1) by (simp add: tasks_ok_def)
    then show ?thesis using that(2) by (auto simp: task_ok_def current_handle_def)
  qed
  note unf = reconcile_stream_def Let_def
  let ?gated = "set_gate (ms_publisher ?h) (sm_live_delivery s \<and> lc_publisher cfg) st0"
  have same: "tasks_ok (commit h' e ?gated)"
    if "ms_stream h' = s" "ms_version h' = ms_version ?h" "ms_collector h' = ms_collector ?h" for h' e
    by (rule tasks_ok_commit [OF tasks]) (use old that in simp_all)
  show ?thesis
  proof (cases "should_run s")
    case True
    show ?thesis
    proof (cases "ms_collector ?h")
      case None
      then have none: "tk_version t < ms_version ?h \<and> n < lv_next st0 \<and> n \<in> lv_to_stop st0 \<union> lv_stopped st0"
        if "lv_tasks st0 n = Some t" "tk_stream t = sm_id s" for n t
        using old [OF that] by auto
      show ?thesis
      proof (cases "factory s")
        case None
        let ?h' = "?h\<lparr>ms_drain_deadline := zero_time, ms_version := ms_version ?h + 1, ms_collector := Some (lv_next st0),
          ms_cancel := Some (lv_next st0), ms_publisher := Some (lv_next st0), ms_state := state_starting,
          ms_last_error := live_warning cfg s\<rparr>"
        let ?st = "?gated\<lparr>lv_next := lv_next st0 + 1,
          lv_gates := (lv_gates ?gated)(lv_next st0 := Some (sm_live_delivery s \<and> lc_publisher cfg)),
          lv_tasks := (lv_tasks st0)(lv_next st0 := Some \<lparr>tk_stream = sm_id s, tk_version = ms_version ?h + 1, tk_exited = False\<rparr>)\<rparr>"
        have "reconcile_stream cfg now s factory st0 = commit ?h' (live_warning cfg s) ?st"
          using True \<open>ms_collector ?h = None\<close> None by (simp add: unf start_collector_def)
        moreover have "tasks_ok (commit ?h' (live_warning cfg s) ?st)"
        proof (rule tasks_ok_commit [OF tasks], goal_cases)
          case (4 n t)
          then show ?case by (auto simp: h split: if_splits)
        next
          case (5 n t)
          then show ?case using none [of n t] by (fastforce simp: h split: if_splits)
        qed simp_all
        ultimately show ?thesis by simp
      next
        case (Some e)
        let ?h' = "?h\<lparr>ms_drain_deadline := zero_time, ms_publisher := None, ms_collector := None, ms_cancel := None,
          ms_state := state_error, ms_last_error := error_text e\<rparr>"
        let ?st = "?gated\<lparr>lv_next := lv_next st0 + 1,
          lv_gates := (lv_gates ?gated)(lv_next st0 := Some (sm_live_delivery s \<and> lc_publisher cfg))\<rparr>"
        have "reconcile_stream cfg now s factory st0 = commit ?h' (error_text e) ?st"
          using True \<open>ms_collector ?h = None\<close> Some by (simp add: unf start_collector_def)
        moreover have "tasks_ok (commit ?h' (error_text e) ?st)"
          by (rule tasks_ok_commit [OF tasks]) (use none in \<open>fastforce simp: h\<close>)+
        ultimately show ?thesis by simp
      qed
    next
      case (Some n)
      have "tasks_ok (commit (keep_running (?h\<lparr>ms_drain_deadline := zero_time\<rparr>)) (live_warning cfg s) ?gated)"
        by (rule same) (simp_all add: h)
      with True Some show ?thesis unfolding unf by simp
    qed
  next
    case False
    show ?thesis
    proof (cases "ms_collector ?h")
      case None
      have "tasks_ok (commit (?h\<lparr>ms_state := state_stopped, ms_last_error := [], ms_drain_deadline := zero_time\<rparr>) [] ?gated)"
        by (rule same) (simp_all add: h)
      with False None show ?thesis unfolding unf by simp
    next
      case (Some n)
      let ?d = "if is_zero (ms_drain_deadline ?h) then time_add now (lc_grace cfg) else ms_drain_deadline ?h"
      let ?h' = "?h\<lparr>ms_version := ms_version ?h + 1, ms_collector := None, ms_cancel := None, ms_publisher := None,
        ms_state := state_stopped, ms_last_error := [], ms_drain_deadline := zero_time\<rparr>"
      let ?st = "?gated\<lparr>lv_to_stop := lv_to_stop st0 \<union> {n}\<rparr>"
      have old': "m < lv_next st0 \<and> tk_version t < ms_version ?h + 1
          \<and> (m = n \<or> m \<in> lv_to_stop st0 \<union> lv_stopped st0)"
        if "lv_tasks st0 m = Some t" "tk_stream t = sm_id s" for m t
        using old [OF that] Some by (cases "tk_version t = ms_version ?h") auto
      have "tasks_ok (commit (?h\<lparr>ms_drain_deadline := ?d, ms_state := state_draining, ms_last_error := []\<rparr>) [] ?gated)"
        by (rule same) (simp_all add: h)
      moreover have "tasks_ok (commit ?h' [] ?st)"
        by (rule tasks_ok_commit [OF tasks]) (use old' in \<open>fastforce simp: h\<close>)+
      ultimately show ?thesis using False Some unfolding unf by simp
    qed
  qed
qed

lemma record_stored_tasks:
  assumes inv: "live_inv st" and tasks: "tasks_ok st"
  shows "tasks_ok (record_stored cfg sid v at st)"
proof (cases "\<exists>h. map_of (lv_managed st) sid = Some h \<and> ms_version h = v")
  case False
  with tasks show ?thesis by (auto simp: record_stored_def split: option.splits)
next
  case True
  then obtain h where h: "map_of (lv_managed st) sid = Some h" "ms_version h = v" by blast
  let ?h = "h\<lparr>ms_last_data_at := Some at, ms_state := state_running, ms_last_error := live_warning cfg (ms_stream h)\<rparr>"
  have id: "sm_id (ms_stream h) = sid" using inv h(1) unfolding live_inv_def handles_ok_def by blast
  have old: "task_ok st n t" if "lv_tasks st n = Some t" for n t using tasks that by (simp add: tasks_ok_def)
  have "record_stored cfg sid v at st = commit ?h (live_warning cfg (ms_stream h)) st"
    using h id by (simp add: record_stored_def commit_def Let_def)
  moreover have "tasks_ok (commit ?h (live_warning cfg (ms_stream h)) st)"
    by (rule tasks_ok_commit [OF tasks]) (use old h id in \<open>fastforce simp: task_ok_def\<close>)+
  ultimately show ?thesis by simp
qed

lemma collector_exited_tasks:
  assumes inv: "live_inv st" and tasks: "tasks_ok st"
  shows "tasks_ok (collector_exited n st)"
proof (cases "\<exists>t h. lv_tasks st n = Some t \<and> tk_exited t \<and> map_of (lv_managed st) (tk_stream t) = Some h
    \<and> ms_version h = tk_version t \<and> ms_collector h \<noteq> None")
  case False
  then have "collector_exited n st = st \<or> collector_exited n st = st\<lparr>lv_tasks := (lv_tasks st)(n := None)\<rparr>"
    by (auto simp: collector_exited_def Let_def split: option.splits)
  moreover have "tasks_ok (st\<lparr>lv_tasks := (lv_tasks st)(n := None)\<rparr>)"
    by (rule tasks_ok_mono [OF tasks]) (auto split: if_splits)
  ultimately show ?thesis using tasks by auto
next
  case True
  then obtain t h where t: "lv_tasks st n = Some t" "tk_exited t" "map_of (lv_managed st) (tk_stream t) = Some h"
    "ms_version h = tk_version t" "ms_collector h \<noteq> None" by blast
  let ?h = "h\<lparr>ms_collector := None, ms_cancel := None, ms_publisher := None, ms_state := state_error,
     ms_last_error := ''collector exited unexpectedly''\<rparr>"
  let ?st = "st\<lparr>lv_tasks := (lv_tasks st)(n := None)\<rparr>"
  have id: "sm_id (ms_stream h) = tk_stream t" using inv t(3) unfolding live_inv_def handles_ok_def by blast
  have ok: "task_ok st m u" if "lv_tasks st m = Some u" for m u using tasks that by (simp add: tasks_ok_def)
  have own: "ms_collector h = Some n" using ok [OF t(1)] t by (auto simp: task_ok_def)
  have "collector_exited n st = commit ?h (ms_last_error ?h) ?st"
    using t id by (auto simp: collector_exited_def commit_def Let_def)
  moreover have "tasks_ok (commit ?h (ms_last_error ?h) ?st)"
  proof (rule tasks_ok_commit [OF tasks], goal_cases)
    case (4 m u)
    then show ?case by (simp split: if_splits)
  next
    case (5 m u)
    then have "lv_tasks st m = Some u" "m \<noteq> n" "tk_stream u = tk_stream t" by (auto simp: id split: if_splits)
    then show ?case using ok [of m u] t(3) own by (auto simp: task_ok_def)
  qed simp_all
  ultimately show ?thesis by simp
qed

lemma keep_step_tasks: "keep_step cfg st st' \<Longrightarrow> live_inv st \<Longrightarrow> tasks_ok st \<Longrightarrow> tasks_ok st'"
proof (induction rule: keep_step.induct)
  case (reconcile s st now factory)
  then show ?case by (intro reconcile_stream_tasks)
next
  case (stop_one n st)
  then show ?case by (intro tasks_ok_mono [OF stop_one.prems(2)]) auto
next
  case (stored st n t at)
  then show ?case by (intro record_stored_tasks)
next
  case (returned st n)
  show ?case
    by (rule tasks_ok_mono [OF returned(2)]) (auto simp: collector_returned_def split: option.splits if_splits)
next
  case (exited st n)
  then show ?case by (intro collector_exited_tasks)
qed

definition kept_reach :: "live_config \<Rightarrow> live_state \<Rightarrow> bool" where
  "kept_reach cfg st \<longleftrightarrow> (keep_step cfg)\<^sup>*\<^sup>* live_init st"

lemma kept_reach_inv: "kept_reach cfg st \<Longrightarrow> live_inv st \<and> tasks_ok st"
  unfolding kept_reach_def
proof (induction rule: rtranclp_induct)
  case base
  show ?case by (simp add: live_init_def live_inv_def handles_ok_def tasks_ok_def)
next
  case (step y z)
  then show ?case using keep_step_tasks live_step_inv keep_step_live by blast
qed

subsection \<open>Lemmas: one reconciliation\<close>

lemma start_collector_managed:
  "lv_managed (start_collector cfg s factory h st) =
    put (sm_id (ms_stream h)) (case factory s of
        Some e \<Rightarrow> h\<lparr>ms_publisher := None, ms_collector := None, ms_cancel := None, ms_state := state_error, ms_last_error := error_text e\<rparr>
      | None \<Rightarrow> h\<lparr>ms_version := ms_version h + 1, ms_collector := Some (lv_next st), ms_cancel := Some (lv_next st),
          ms_publisher := Some (lv_next st), ms_state := state_starting, ms_last_error := live_warning cfg s\<rparr>) (lv_managed st)"
  by (simp add: start_collector_def Let_def split: option.splits)

lemma current_handle_stream [simp]: "ms_stream (current_handle st s) = s"
  by (simp add: current_handle_def split: option.splits)

lemma reconcile_stream_other:
  "j \<noteq> sm_id s \<Longrightarrow> map_of (lv_managed (reconcile_stream cfg now s factory st)) j = map_of (lv_managed st) j"
  by (simp add: reconcile_stream_def Let_def start_collector_managed)

lemma reconcile_stream_wanted:
  "should_run s \<Longrightarrow> factory s = None \<Longrightarrow>
   \<exists>h n. map_of (lv_managed (reconcile_stream cfg now s factory st)) (sm_id s) = Some h \<and> ms_collector h = Some n"
  by (auto simp: reconcile_stream_def Let_def start_collector_managed)

definition listed :: "live_config \<Rightarrow> stream \<Rightarrow> bool" where
  "listed cfg raw \<longleftrightarrow> 0 < sm_id raw \<and> sk_kind (sm_key (normalize_stream raw)) = ''kline''
     \<and> lc_factories cfg (sk_exchange (sm_key (normalize_stream raw))) \<noteq> None"

lemma normalize_stream_id [simp]: "sm_id (normalize_stream s) = sm_id s"
  by (simp add: normalize_stream_def)

lemma perform_stops_managed [simp]: "lv_managed (perform_stops st) = lv_managed st"
  by (simp add: perform_stops_def)

lemma perform_stops_inv: "live_inv st \<Longrightarrow> live_inv (perform_stops st)"
  by (rule live_inv_other) (auto simp: perform_stops_def)

lemma reconcile_listed_cases:
  "reconcile_listed cfg now raw acc =
    (if listed cfg raw
     then (insert (sm_id raw) (fst acc), perform_stops (reconcile_stream cfg now (normalize_stream raw)
             (the (lc_factories cfg (sk_exchange (sm_key (normalize_stream raw))))) (snd acc)))
     else acc)"
  by (auto simp: reconcile_listed_def listed_def Let_def split: option.splits)

lemma fold_reconcile_seen:
  "fst (fold (reconcile_listed cfg now) xs acc) = fst acc \<union> sm_id ` {raw \<in> set xs. listed cfg raw}"
  by (induction xs arbitrary: acc) (auto simp: reconcile_listed_cases)

lemma fold_reconcile_other:
  "i \<notin> sm_id ` set xs \<Longrightarrow>
   map_of (lv_managed (snd (fold (reconcile_listed cfg now) xs acc))) i = map_of (lv_managed (snd acc)) i"
  by (induction xs arbitrary: acc) (auto simp: reconcile_listed_cases reconcile_stream_other)

lemma fold_reconcile_inv: "live_inv (snd acc) \<Longrightarrow> live_inv (snd (fold (reconcile_listed cfg now) xs acc))"
proof (induction xs arbitrary: acc)
  case (Cons raw xs)
  then have "live_inv (snd (reconcile_listed cfg now raw acc))"
    by (simp add: reconcile_listed_cases perform_stops_inv reconcile_stream_inv)
  then show ?case using Cons.IH by simp
qed simp

lemma reconcile_once_managed:
  "map_of (lv_managed (reconcile_once cfg now streams st)) i =
    (if i \<in> sm_id ` {raw \<in> set streams. listed cfg raw}
     then map_of (lv_managed (snd (fold (reconcile_listed cfg now) streams ({}, st)))) i else None)"
  using fold_reconcile_seen [of cfg now streams "({}, st)"]
  by (simp add: reconcile_once_def stop_missing_streams_def split_beta map_of_filter_key [where P = "\<lambda>i. i \<in> _"])

lemma reconcile_once_inv: "live_inv st \<Longrightarrow> live_inv (reconcile_once cfg now streams st)"
  using fold_reconcile_inv [of "({}, st)" cfg now streams]
  by (simp add: reconcile_once_def split_beta perform_stops_inv stop_missing_inv)

text \<open>A stream that is listed but not wanted: stopped, still draining, or stopped now.\<close>

definition settled :: "live_config \<Rightarrow> time \<Rightarrow> managed_stream \<Rightarrow> managed_stream \<Rightarrow> nat set \<Rightarrow> bool" where
  "settled cfg now h h' stopped \<longleftrightarrow>
     (case ms_collector h of
        None \<Rightarrow> ms_collector h' = None \<and> ms_state h' = state_stopped
      | Some n \<Rightarrow>
        (let d = (if is_zero (ms_drain_deadline h) then time_add now (lc_grace cfg) else ms_drain_deadline h)
         in if now < d then ms_collector h' = Some n \<and> ms_state h' = state_draining \<and> ms_drain_deadline h' = d
            else ms_collector h' = None \<and> ms_state h' = state_stopped \<and> n \<in> stopped))"

lemma settled_mono: "settled cfg now h h' a \<Longrightarrow> a \<subseteq> b \<Longrightarrow> settled cfg now h h' b"
  by (auto simp: settled_def Let_def split: option.splits if_splits)

lemma reconcile_stream_stopped [simp]: "lv_stopped (reconcile_stream cfg now s factory st) = lv_stopped st"
  by (simp add: reconcile_stream_def start_collector_def Let_def split: option.splits)

lemma reconcile_stream_unwanted:
  "\<not> should_run s \<Longrightarrow> \<exists>h. map_of (lv_managed (reconcile_stream cfg now s factory st)) (sm_id s) = Some h
    \<and> settled cfg now (current_handle st s) h (lv_to_stop (reconcile_stream cfg now s factory st))"
proof (cases "ms_collector (current_handle st s)")
  case (Some n)
  let ?h = "current_handle st s"
  assume "\<not> should_run s"
  then show ?thesis
    by (cases "now < (if is_zero (ms_drain_deadline ?h) then time_add now (lc_grace cfg) else ms_drain_deadline ?h)")
      (simp_all add: reconcile_stream_def settled_def Let_def Some)
qed (simp add: reconcile_stream_def settled_def Let_def)

lemma reconcile_stream_keeps_collector:
  "should_run s \<Longrightarrow> ms_collector (current_handle st s) = Some n \<Longrightarrow>
   \<exists>h. map_of (lv_managed (reconcile_stream cfg now s factory st)) (sm_id s) = Some h \<and> ms_collector h = Some n"
  by (simp add: reconcile_stream_def Let_def)

lemma current_handle_cong:
  "map_of (lv_managed st) (sm_id s) = map_of (lv_managed st') (sm_id s) \<Longrightarrow> current_handle st s = current_handle st' s"
  by (simp add: current_handle_def)

lemma fold_reconcile_stopped: "lv_stopped (snd acc) \<subseteq> lv_stopped (snd (fold (reconcile_listed cfg now) xs acc))"
proof (induction xs arbitrary: acc)
  case (Cons raw xs)
  have "lv_stopped (snd acc) \<subseteq> lv_stopped (snd (reconcile_listed cfg now raw acc))"
    by (auto simp: reconcile_listed_cases perform_stops_def)
  with Cons.IH show ?case by (simp, blast)
qed simp

lemma fold_reconcile_unlisted:
  "i \<notin> sm_id ` {raw \<in> set xs. listed cfg raw} \<Longrightarrow>
   map_of (lv_managed (snd (fold (reconcile_listed cfg now) xs acc))) i = map_of (lv_managed (snd acc)) i"
proof (induction xs arbitrary: acc)
  case (Cons raw xs)
  have "map_of (lv_managed (snd (reconcile_listed cfg now raw acc))) i = map_of (lv_managed (snd acc)) i"
  proof (cases "listed cfg raw")
    case True
    then have "i \<noteq> sm_id (normalize_stream raw)" using Cons.prems by auto
    then show ?thesis by (simp add: reconcile_listed_cases True reconcile_stream_other)
  qed (simp add: reconcile_listed_cases)
  moreover have "i \<notin> sm_id ` {raw \<in> set xs. listed cfg raw}" using Cons.prems by auto
  ultimately show ?case using Cons.IH by simp
qed simp

lemma reconcile_once_stopped:
  "lv_stopped (snd (fold (reconcile_listed cfg now) streams ({}, st))) \<subseteq> lv_stopped (reconcile_once cfg now streams st)"
  by (auto simp: reconcile_once_def split_beta perform_stops_def stop_missing_streams_def)

text \<open>What one reconciliation makes of a listed stream is what its own step made of it.\<close>

lemma reconcile_once_listed:
  assumes "distinct (map sm_id streams)" "raw \<in> set streams" "listed cfg raw"
  obtains st1 where "current_handle st1 (normalize_stream raw) = current_handle st (normalize_stream raw)"
    and "map_of (lv_managed (reconcile_once cfg now streams st)) (sm_id raw) = map_of (lv_managed
      (reconcile_stream cfg now (normalize_stream raw) (the (lc_factories cfg (sk_exchange (sm_key (normalize_stream raw))))) st1)) (sm_id raw)"
    and "lv_to_stop (reconcile_stream cfg now (normalize_stream raw)
      (the (lc_factories cfg (sk_exchange (sm_key (normalize_stream raw))))) st1) \<subseteq> lv_stopped (reconcile_once cfg now streams st)"
proof -
  obtain ys zs where split: "streams = ys @ raw # zs" using assms(2) by (meson split_list)
  then have other: "sm_id raw \<notin> sm_id ` set ys" "sm_id raw \<notin> sm_id ` set zs" using assms(1) by auto
  let ?acc = "fold (reconcile_listed cfg now) ys ({}, st)"
  let ?acc' = "reconcile_listed cfg now raw ?acc"
  let ?step = "reconcile_stream cfg now (normalize_stream raw) (the (lc_factories cfg (sk_exchange (sm_key (normalize_stream raw))))) (snd ?acc)"
  have step: "snd ?acc' = perform_stops ?step" using assms(3) by (simp add: reconcile_listed_cases)
  have all: "fold (reconcile_listed cfg now) streams ({}, st) = fold (reconcile_listed cfg now) zs ?acc'" by (simp add: split)
  have "map_of (lv_managed (snd ?acc)) (sm_id raw) = map_of (lv_managed st) (sm_id raw)"
    using fold_reconcile_other [OF other(1), of cfg now "({}, st)"] by simp
  then have 1: "current_handle (snd ?acc) (normalize_stream raw) = current_handle st (normalize_stream raw)"
    by (intro current_handle_cong) simp
  have "sm_id raw \<in> sm_id ` {raw \<in> set streams. listed cfg raw}" using assms(2,3) by blast
  then have 2: "map_of (lv_managed (reconcile_once cfg now streams st)) (sm_id raw) = map_of (lv_managed ?step) (sm_id raw)"
    using fold_reconcile_other [OF other(2), of cfg now ?acc'] step by (simp only: reconcile_once_managed if_True all perform_stops_managed)
  have "lv_to_stop ?step \<subseteq> lv_stopped (snd ?acc')" unfolding step by (simp add: perform_stops_def)
  then have 3: "lv_to_stop ?step \<subseteq> lv_stopped (reconcile_once cfg now streams st)"
    using fold_reconcile_stopped [of ?acc' cfg now zs] reconcile_once_stopped [of cfg now streams st] unfolding all by blast
  show thesis by (rule that [OF 1 2 3])
qed

text \<open>A stream that is not listed loses its handle, and its collector is stopped.\<close>

lemma reconcile_once_unlisted:
  assumes "i \<notin> sm_id ` {raw \<in> set streams. listed cfg raw}"
  shows "map_of (lv_managed (reconcile_once cfg now streams st)) i = None"
    and "map_of (lv_managed st) i = Some h \<Longrightarrow>
      set_option (ms_collector h) \<union> set_option (ms_cancel h) \<subseteq> lv_stopped (reconcile_once cfg now streams st)"
proof -
  show "map_of (lv_managed (reconcile_once cfg now streams st)) i = None" using assms by (simp only: reconcile_once_managed if_False)
  assume h: "map_of (lv_managed st) i = Some h"
  let ?acc = "fold (reconcile_listed cfg now) streams ({}, st)"
  have "map_of (lv_managed (snd ?acc)) i = Some h" using fold_reconcile_unlisted [OF assms, of now "({}, st)"] h by simp
  from map_of_SomeD [OF this] have mem: "(i, h) \<in> set (filter (\<lambda>p. fst p \<notin> fst ?acc) (lv_managed (snd ?acc)))"
    using assms fold_reconcile_seen [of cfg now streams "({}, st)"] by simp
  have "set_option (ms_collector h) \<union> set_option (ms_cancel h)
      \<subseteq> collectors_of (filter (\<lambda>p. fst p \<notin> fst ?acc) (lv_managed (snd ?acc)))"
    unfolding collectors_of_def using mem by fastforce
  then show "set_option (ms_collector h) \<union> set_option (ms_cancel h) \<subseteq> lv_stopped (reconcile_once cfg now streams st)"
    by (auto simp: reconcile_once_def split_beta perform_stops_def stop_missing_streams_def)
qed

text \<open>A handle that drains, at one reconciliation before the deadline and at one after it.\<close>

lemma drain_step:
  assumes "map_of (lv_managed st) (sm_id s) = Some h" "ms_collector h = Some n" "\<not> should_run s"
    and "d = (if is_zero (ms_drain_deadline h) then time_add now (lc_grace cfg) else ms_drain_deadline h)" "now < d"
  shows "\<exists>h'. map_of (lv_managed (reconcile_stream cfg now s factory st)) (sm_id s) = Some h'
    \<and> ms_collector h' = Some n \<and> ms_drain_deadline h' = d
    \<and> lv_to_stop (reconcile_stream cfg now s factory st) = lv_to_stop st"
  using assms
  by (cases "is_zero (ms_drain_deadline h)") (simp_all add: reconcile_stream_def Let_def current_handle_def)

lemma drain_end:
  assumes "map_of (lv_managed st) (sm_id s) = Some h" "ms_collector h = Some n" "\<not> should_run s"
    and "\<not> is_zero (ms_drain_deadline h)" "ms_drain_deadline h \<le> now"
  shows "n \<in> lv_to_stop (reconcile_stream cfg now s factory st)
    \<and> map_option ms_collector (map_of (lv_managed (reconcile_stream cfg now s factory st)) (sm_id s)) = Some None"
  using assms by (simp add: reconcile_stream_def Let_def current_handle_def)

lemma drain_steps:
  assumes "\<not> should_run s" "\<not> is_zero d"
  shows "\<forall>t \<in> set ts. t < d \<Longrightarrow> map_of (lv_managed st) (sm_id s) = Some h \<Longrightarrow> ms_collector h = Some n \<Longrightarrow>
    ms_drain_deadline h = d \<Longrightarrow>
    \<exists>h'. map_of (lv_managed (fold (\<lambda>t. reconcile_stream cfg t s factory) ts st)) (sm_id s) = Some h'
      \<and> ms_collector h' = Some n \<and> ms_drain_deadline h' = d
      \<and> lv_to_stop (fold (\<lambda>t. reconcile_stream cfg t s factory) ts st) = lv_to_stop st"
proof (induction ts arbitrary: st h)
  case (Cons t ts)
  have "d = (if is_zero (ms_drain_deadline h) then time_add t (lc_grace cfg) else ms_drain_deadline h)" "t < d"
    using Cons.prems assms(2) by auto
  from drain_step [OF Cons.prems(2,3) assms(1) this, of factory] obtain h' where
    "map_of (lv_managed (reconcile_stream cfg t s factory st)) (sm_id s) = Some h'" "ms_collector h' = Some n"
    "ms_drain_deadline h' = d" "lv_to_stop (reconcile_stream cfg t s factory st) = lv_to_stop st" by blast
  with Cons.IH [of "reconcile_stream cfg t s factory st" h'] Cons.prems(1) show ?case by simp
qed simp

subsection \<open>Properties\<close>

text \<open>
  In every state the goroutines can reach, in any interleaving, a stream's handle has its
  collector, its context and its gate together or none of them; a managed collector has not been
  told to stop; and no two streams share one.
\<close>

theorem live_handles_consistent:
  assumes "live_reach cfg st" and "map_of (lv_managed st) i = Some h"
  shows "ms_cancel h = ms_collector h \<and> ms_publisher h = ms_collector h
    \<and> (\<forall>n. ms_collector h = Some n \<longrightarrow> n \<notin> lv_to_stop st \<union> lv_stopped st)
    \<and> (\<forall>j k. map_of (lv_managed st) j = Some k \<longrightarrow> ms_collector h \<noteq> None \<longrightarrow> ms_collector k = ms_collector h \<longrightarrow> i = j)"
proof -
  have ok: "handles_ok (lv_managed st) (lv_next st) (lv_to_stop st \<union> lv_stopped st)"
    using live_reach_inv [OF assms(1)] by (simp add: live_inv_def)
  have 1: "handle_whole h" using ok assms(2) unfolding handles_ok_def by blast
  have 2: "\<forall>n. ms_collector h = Some n \<longrightarrow> n \<notin> lv_to_stop st \<union> lv_stopped st"
    using ok assms(2) unfolding handles_ok_def by blast
  have 3: "\<forall>j k. map_of (lv_managed st) j = Some k \<longrightarrow> ms_collector h \<noteq> None \<longrightarrow> ms_collector k = ms_collector h \<longrightarrow> i = j"
  proof (intro allI impI)
    fix j k assume k: "map_of (lv_managed st) j = Some k" "ms_collector h \<noteq> None" "ms_collector k = ms_collector h"
    then obtain n where "ms_collector h = Some n" "ms_collector k = Some n" by auto
    with ok assms(2) k(1) show "i = j" unfolding handles_ok_def by blast
  qed
  show ?thesis using 1 2 3 by (simp add: handle_whole_def)
qed

definition sample_stream :: "int \<Rightarrow> string \<Rightarrow> stream" where
  "sample_stream i desired = \<lparr>sm_id = i, sm_key = \<lparr>sk_exchange = ''binance'', sk_market = ''spot'', sk_kind = ''kline'',
     sk_symbol = ''BTCUSDT'', sk_interval = ''1m''\<rparr>, sm_desired_state = desired, sm_actual_state = ''stopped'',
     sm_live_delivery = True, sm_lease_count = 0, sm_last_data_at = None, sm_last_error = []\<rparr>"

definition sample_config :: live_config where
  "sample_config = \<lparr>lc_publisher = True, lc_grace = 60 * second,
     lc_factories = (\<lambda>ex. if ex = ''binance'' then Some (\<lambda>_. None) else None)\<rparr>"

theorem live_handles_consistent_witness:
  "\<exists>h. map_of (lv_managed (reconcile_stream sample_config 0 (sample_stream 7 ''running'') (\<lambda>_. None) live_init)) 7 = Some h
     \<and> ms_collector h = Some 0 \<and> ms_cancel h = Some 0"
proof -
  let ?st = "reconcile_stream sample_config 0 (sample_stream 7 ''running'') (\<lambda>_. None) live_init"
  have "live_step sample_config live_init ?st"
    by (rule live_step.reconcile) (simp add: sample_stream_def)
  then have reach: "live_reach sample_config ?st" by (simp add: live_reach_def)
  have "map_option ms_collector (map_of (lv_managed ?st) 7) = Some (Some 0)" by code_simp
  then obtain h where h: "map_of (lv_managed ?st) 7 = Some h" "ms_collector h = Some 0" by auto
  with live_handles_consistent [OF reach h(1)] show ?thesis by auto
qed

text \<open>
  C5. No collector runs unmanaged: as long as the listing never drops a stream, a collector
  goroutine that was not told to stop belongs to its stream's handle, so a stream never has two
  live collectors, whatever the order of reconciliations, stored bars and exits.
\<close>

theorem no_unmanaged_collector:
  assumes "kept_reach cfg st" and "lv_tasks st n = Some t" and "n \<notin> lv_to_stop st \<union> lv_stopped st"
  shows "(\<exists>h. map_of (lv_managed st) (tk_stream t) = Some h \<and> ms_collector h = Some n \<and> ms_version h = tk_version t)
    \<and> (\<forall>m u. lv_tasks st m = Some u \<longrightarrow> m \<notin> lv_to_stop st \<union> lv_stopped st \<longrightarrow> tk_stream u = tk_stream t \<longrightarrow> m = n)"
proof -
  have own: "\<exists>h. map_of (lv_managed st) (tk_stream u) = Some h \<and> ms_collector h = Some m \<and> ms_version h = tk_version u"
    if "lv_tasks st m = Some u" "m \<notin> lv_to_stop st \<union> lv_stopped st" for m u
  proof -
    have "task_ok st m u" using kept_reach_inv [OF assms(1)] that(1) by (simp add: tasks_ok_def)
    then obtain h where h: "map_of (lv_managed st) (tk_stream u) = Some h" "tk_version u \<le> ms_version h"
      "tk_version u = ms_version h \<longrightarrow> ms_collector h = Some m" "tk_version u < ms_version h \<longrightarrow> m \<in> lv_to_stop st \<union> lv_stopped st"
      unfolding task_ok_def by blast
    then have "tk_version u = ms_version h" using that(2) by linarith
    with h show ?thesis by auto
  qed
  show ?thesis using own [OF assms(2,3)] own by fastforce
qed

theorem no_unmanaged_collector_witness:
  "\<exists>h. map_of (lv_managed (reconcile_stream sample_config 0 (sample_stream 7 ''running'') (\<lambda>_. None) live_init)) 7 = Some h
     \<and> ms_collector h = Some 0 \<and> ms_version h = 1"
proof -
  let ?st = "reconcile_stream sample_config 0 (sample_stream 7 ''running'') (\<lambda>_. None) live_init"
  have "keep_step sample_config live_init ?st" by (rule keep_step.reconcile) (simp add: sample_stream_def)
  then have reach: "kept_reach sample_config ?st" by (simp add: kept_reach_def)
  have t: "lv_tasks ?st 0 = Some \<lparr>tk_stream = 7, tk_version = 1, tk_exited = False\<rparr>" by code_simp
  have "0 \<notin> lv_to_stop ?st \<union> lv_stopped ?st" by code_simp
  from no_unmanaged_collector [OF reach t this] show ?thesis by simp
qed

text \<open>The sequence of the counterexample: stream 7 runs, its collector returns and the goroutine finds its
  context alive; the stream disappears and comes back; then the goroutine goes on.\<close>

definition orphan_run :: live_state where
  "orphan_run =
     (let run = reconcile_stream sample_config 0 (sample_stream 7 ''running'') (\<lambda>_. None);
          st1 = collector_returned 0 (run live_init);
          st2 = perform_stops (stop_missing_streams {} st1)
      in collector_exited 0 (run st2))"

text \<open>
  When a listing drops a stream and lists it again, its versions restart, and the guard on
  the version no longer tells the old collector from the new one: the exit of the old one clears
  the new one's handle, which then runs without a handle and without having been told to stop
  (the next reconciliation starts a second one).
\<close>

theorem relisted_stream_orphans_collector:
  "live_reach sample_config orphan_run
   \<and> lv_tasks orphan_run 1 = Some \<lparr>tk_stream = 7, tk_version = 1, tk_exited = False\<rparr>
   \<and> 1 \<notin> lv_to_stop orphan_run \<union> lv_stopped orphan_run
   \<and> map_option ms_collector (map_of (lv_managed orphan_run) 7) = Some None"
proof -
  let ?run = "reconcile_stream sample_config 0 (sample_stream 7 ''running'') (\<lambda>_. None)"
  let ?a = "collector_returned 0 (?run live_init)"
  let ?b = "stop_missing_streams {} ?a"
  have s: "0 < sm_id (sample_stream 7 ''running'')" by (simp add: sample_stream_def)
  have stops: "lv_to_stop ?b = {0}" by code_simp
  then have "perform_stops ?b = ?b\<lparr>lv_stopped := insert 0 (lv_stopped ?b), lv_to_stop := lv_to_stop ?b - {0}\<rparr>"
    by (simp add: perform_stops_def)
  then have one: "live_step sample_config ?b (perform_stops ?b)"
    using live_step.stop_one [of 0 ?b sample_config] stops by simp
  have run: "orphan_run = collector_exited 0 (?run (perform_stops ?b))" by (simp add: orphan_run_def Let_def)
  have "live_reach sample_config (?run live_init)"
    by (rule live_reach_step [OF live_reach_init live_step.reconcile [OF s]])
  then have "live_reach sample_config ?a" by (rule live_reach_step [OF _ live_step.returned])
  then have "live_reach sample_config ?b" by (rule live_reach_step [OF _ live_step.missing])
  then have "live_reach sample_config (perform_stops ?b)" by (rule live_reach_step [OF _ one])
  then have "live_reach sample_config (?run (perform_stops ?b))"
    by (rule live_reach_step [OF _ live_step.reconcile [OF s]])
  then have reach: "live_reach sample_config orphan_run"
    unfolding run by (rule live_reach_step [OF _ live_step.exited])
  have "lv_tasks orphan_run 1 = Some \<lparr>tk_stream = 7, tk_version = 1, tk_exited = False\<rparr>" by code_simp
  moreover have "1 \<notin> lv_to_stop orphan_run \<union> lv_stopped orphan_run" by code_simp
  moreover have "map_option ms_collector (map_of (lv_managed orphan_run) 7) = Some None" by code_simp
  ultimately show ?thesis using reach by blast
qed

text \<open>
  C10. The grace period is kept exactly: from the first reconciliation that no longer wants a
  running stream, the collector is kept by every reconciliation before the deadline, and the first
  one at or after it tells the collector to stop and clears the handle.
\<close>

theorem drain_keeps_grace_period:
  assumes "map_of (lv_managed st) (sm_id s) = Some h" and "ms_collector h = Some n"
    and "is_zero (ms_drain_deadline h)" and "\<not> should_run s"
    and "0 < lc_grace cfg" and "\<not> is_zero (first + lc_grace cfg)"
    and "\<forall>t \<in> set ts. t < first + lc_grace cfg" and "first + lc_grace cfg \<le> late"
  shows "(let st1 = fold (\<lambda>t. reconcile_stream cfg t s factory) (first # ts) st;
              st2 = reconcile_stream cfg late s factory st1
          in map_option ms_collector (map_of (lv_managed st1) (sm_id s)) = Some (Some n)
             \<and> lv_to_stop st1 = lv_to_stop st \<and> n \<in> lv_to_stop st2
             \<and> map_option ms_collector (map_of (lv_managed st2) (sm_id s)) = Some None)"
proof -
  let ?d = "first + lc_grace cfg"
  have "?d = (if is_zero (ms_drain_deadline h) then time_add first (lc_grace cfg) else ms_drain_deadline h)" "first < ?d"
    using assms(3,5) by (simp_all add: time_add_def)
  from drain_step [OF assms(1,2,4) this, of factory] obtain h1 where
    h1: "map_of (lv_managed (reconcile_stream cfg first s factory st)) (sm_id s) = Some h1" "ms_collector h1 = Some n"
    "ms_drain_deadline h1 = ?d" "lv_to_stop (reconcile_stream cfg first s factory st) = lv_to_stop st" by blast
  from drain_steps [OF assms(4,6,7) h1(1-3), of cfg factory] obtain h2 where
    h2: "map_of (lv_managed (fold (\<lambda>t. reconcile_stream cfg t s factory) (first # ts) st)) (sm_id s) = Some h2"
    "ms_collector h2 = Some n" "ms_drain_deadline h2 = ?d"
    "lv_to_stop (fold (\<lambda>t. reconcile_stream cfg t s factory) (first # ts) st) = lv_to_stop st"
    using h1(4) by auto
  have "\<not> is_zero (ms_drain_deadline h2)" "ms_drain_deadline h2 \<le> late" using h2(3) assms(6,8) by auto
  from drain_end [OF h2(1,2) assms(4) this, of cfg factory] h2 show ?thesis by (simp add: Let_def)
qed

text \<open>Reconciled at 10 s, 40 s and 69 s, the collector is kept; at 75 s it is stopped.\<close>

theorem drain_keeps_grace_period_witness:
  "0 \<in> lv_to_stop (reconcile_stream sample_config (75 * second) (sample_stream 7 ''stopped'') (\<lambda>_. None)
     (fold (\<lambda>t. reconcile_stream sample_config t (sample_stream 7 ''stopped'') (\<lambda>_. None)) [10 * second, 40 * second, 69 * second]
       (reconcile_stream sample_config 0 (sample_stream 7 ''running'') (\<lambda>_. None) live_init)))"
proof -
  let ?st = "reconcile_stream sample_config 0 (sample_stream 7 ''running'') (\<lambda>_. None) live_init"
  let ?s = "sample_stream 7 ''stopped''"
  have "map_option (\<lambda>h. (ms_collector h, ms_drain_deadline h)) (map_of (lv_managed ?st) (sm_id ?s)) = Some (Some 0, zero_time)"
    by code_simp
  then obtain h where h: "map_of (lv_managed ?st) (sm_id ?s) = Some h" "ms_collector h = Some 0"
    "is_zero (ms_drain_deadline h)" by (auto simp: is_zero_def)
  have g: "lc_grace sample_config = 60 * second" by (simp add: sample_config_def)
  have "\<not> should_run ?s" "0 < lc_grace sample_config" "\<not> is_zero (10 * second + lc_grace sample_config)"
    "\<forall>t \<in> set [40 * second, 69 * second]. t < 10 * second + lc_grace sample_config"
    "10 * second + lc_grace sample_config \<le> 75 * second"
    unfolding g by (simp_all add: should_run_def sample_stream_def second_def is_zero_def zero_time_def)
  from drain_keeps_grace_period [OF h this, of "\<lambda>_. None"] show ?thesis unfolding Let_def by blast
qed



text \<open>
  A stream that is wanted again while it drains keeps being reported as draining: the branch
  for a running collector resets the deadline but not the state, so the report stays wrong until
  the next stored bar.
\<close>

theorem rewanted_stream_reported_draining:
  "(let st1 = reconcile_stream sample_config 0 (sample_stream 7 ''running'') (\<lambda>_. None) live_init;
        st2 = reconcile_stream sample_config second (sample_stream 7 ''stopped'') (\<lambda>_. None) st1;
        st3 = reconcile_stream sample_config (2 * second) (sample_stream 7 ''running'') (\<lambda>_. None) st2
    in map sr_actual_state (lv_reports st3) = [''starting'', ''draining'', ''draining'']
       \<and> map_option (\<lambda>h. (ms_collector h, ms_drain_deadline h)) (map_of (lv_managed st3) 7) = Some (Some 0, zero_time))"
  by code_simp

end
