(* ===== verification/Backfill_Verify.thy ===== *)
theory Backfill_Verify
  imports Backfill_Sound
begin

text \<open>
  \<open>VerifyKlineCoverage\<close> of \<open>internal/backfill/klines.go\<close>: window by window, the rows of the year's
  table are counted and compared with the number of bars the window must hold. The query is a
  parameter: it returns \<open>COUNT(*)\<close>, \<open>MIN(open_time)\<close> and \<open>MAX(open_time)\<close> of a symbol's rows with an
  open time in a range. The lemmas say what a \<open>Ready\<close> answer is worth.
\<close>

type_synonym 'w coverage_query =
  "string \<Rightarrow> string \<Rightarrow> string \<Rightarrow> time \<Rightarrow> time \<Rightarrow> 'w \<Rightarrow> (int \<times> time option \<times> time option) res \<times> 'w"

definition is_undefined_table :: "go_error \<Rightarrow> bool" where
  "is_undefined_table e =
     (let msg = to_lower (error_text e) in contains msg ''does not exist'' \<or> contains msg ''undefined table'')"

text \<open>The result of one window: ready, covered start and end.\<close>

definition verify_window_coverage ::
  "('st, 'w) admin_env \<Rightarrow> 'w coverage_query \<Rightarrow> string \<Rightarrow> kline_request \<Rightarrow> time_window \<Rightarrow> 'w
    \<Rightarrow> (bool \<times> time option \<times> time option) res \<times> 'w" where
  "verify_window_coverage adm query db_name r window w =
     (let db = database_for_year db_name (rq_exchange r) (win_year window)
      in case database_exists adm db w of
        (Inl e, w1) \<Rightarrow> (Inl e, w1)
      | (Inr False, w1) \<Rightarrow> (Inr (False, None, None), w1)
      | (Inr True, w1) \<Rightarrow>
        (case adm_connect adm db w1 of
           (Some e, w2) \<Rightarrow> (Inl e, w2)
         | (None, w2) \<Rightarrow>
           (case query db (build_kline_table_name (rq_market r) (rq_symbol r) (rq_interval r)) (rq_symbol r)
                   (win_start window) (win_end window) w2 of
              (Inl e, w3) \<Rightarrow> if is_undefined_table e then (Inr (False, None, None), w3) else (Inl e, w3)
            | (Inr (n_rows, min_open, max_open), w3) \<Rightarrow>
              (case max_open of
                 Some t \<Rightarrow>
                   (case covered_end_from_max_open_time t (rq_interval r) of
                      Inl e \<Rightarrow> (Inl e, w3)
                    | Inr covered_end \<Rightarrow>
                      (case expected_bar_count (win_start window) (win_end window) (rq_interval r) of
                         Inl e \<Rightarrow> (Inl e, w3)
                       | Inr expected \<Rightarrow>
                         (Inr (expected \<le> n_rows \<and> min_open \<noteq> None, min_open, Some covered_end), w3)))
               | None \<Rightarrow>
                   (case expected_bar_count (win_start window) (win_end window) (rq_interval r) of
                      Inl e \<Rightarrow> (Inl e, w3)
                    | Inr expected \<Rightarrow> (Inr (False, min_open, None), w3))))))"

record coverage =
  cov_ready :: bool
  cov_start :: "time option"
  cov_end :: "time option"

definition earlier :: "time option \<Rightarrow> time option \<Rightarrow> time option" where
  "earlier acc new = (case new of None \<Rightarrow> acc | Some t \<Rightarrow>
     (case acc of None \<Rightarrow> Some t | Some u \<Rightarrow> if t < u then Some t else acc))"

definition later :: "time option \<Rightarrow> time option \<Rightarrow> time option" where
  "later acc new = (case new of None \<Rightarrow> acc | Some t \<Rightarrow>
     (case acc of None \<Rightarrow> Some t | Some u \<Rightarrow> if u < t then Some t else acc))"

fun verify_windows ::
  "('st, 'w) admin_env \<Rightarrow> 'w coverage_query \<Rightarrow> string \<Rightarrow> kline_request \<Rightarrow> time_window list \<Rightarrow> coverage
    \<Rightarrow> 'w \<Rightarrow> coverage res \<times> 'w" where
  "verify_windows adm query db_name r [] acc w = (Inr acc, w)"
| "verify_windows adm query db_name r (window # ws) acc w =
     (case verify_window_coverage adm query db_name r window w of
        (Inl e, w1) \<Rightarrow> (Inl e, w1)
      | (Inr (ready, seg_start, seg_end), w1) \<Rightarrow>
        verify_windows adm query db_name r ws
          \<lparr>cov_ready = (if ready then cov_ready acc else False), cov_start = earlier (cov_start acc) seg_start,
           cov_end = later (cov_end acc) seg_end\<rparr> w1)"

definition verify_kline_coverage ::
  "('st, 'w) admin_env \<Rightarrow> 'w coverage_query \<Rightarrow> string \<Rightarrow> kline_request \<Rightarrow> 'w \<Rightarrow> coverage res \<times> 'w" where
  "verify_kline_coverage adm query db_name r0 w =
     (let r = normalize_kline_request r0
      in case validate_kline_request r of
        Some e \<Rightarrow> (Inl e, w)
      | None \<Rightarrow>
        if rq_exchange r \<noteq> ''binance''
        then (Inl (Err (''historical kline coverage only supports exchange=binance, got '' @ go_quote (rq_exchange r))), w)
        else verify_windows adm query db_name r (split_by_year (rq_start r) (rq_end r))
               \<lparr>cov_ready = True, cov_start = None, cov_end = None\<rparr> w)"

subsection \<open>The interface of the counting query\<close>

text \<open>
  \<open>open_times w db table symbol\<close> is the set of open times a year database holds; a table has one row
  for each of them (its primary key is the open time and the symbol). The check only reads.
\<close>

locale coverage_reader =
  fixes adm :: "('st, 'w) admin_env" and query :: "'w coverage_query"
    and open_times :: "'w \<Rightarrow> string \<Rightarrow> string \<Rightarrow> string \<Rightarrow> time set"
  assumes query_counts: "query db table s a b w = (Inr (n, mn, mx), w') \<Longrightarrow>
      finite {t \<in> open_times w db table s. a \<le> t \<and> t < b} \<and> n = int (card {t \<in> open_times w db table s. a \<le> t \<and> t < b})"
    and query_min: "query db table s a b w = (Inr (n, mn, mx), w') \<Longrightarrow>
      mn \<noteq> None \<Longrightarrow> {t \<in> open_times w db table s. a \<le> t \<and> t < b} \<noteq> {}"
    and query_reads: "query db table s a b w = (x, w') \<Longrightarrow> open_times w' = open_times w"
    and connect_reads: "adm_connect adm db w = (e, w') \<Longrightarrow> open_times w' = open_times w"
    and exists_reads: "adm_exists adm db w = (y, w') \<Longrightarrow> open_times w' = open_times w"
begin

definition bars_in :: "string \<Rightarrow> kline_request \<Rightarrow> 'w \<Rightarrow> time_window \<Rightarrow> time set" where
  "bars_in db_name r w win =
     {t \<in> open_times w (database_for_year db_name (rq_exchange r) (win_year win))
            (build_kline_table_name (rq_market r) (rq_symbol r) (rq_interval r)) (rq_symbol r).
        win_start win \<le> t \<and> t < win_end win}"

lemma database_exists_reads: "database_exists adm db w = (x, w') \<Longrightarrow> open_times w' = open_times w"
  by (auto simp: database_exists_def split: prod.splits option.splits dest!: connect_reads exists_reads)

lemma verify_window_reads:
  "verify_window_coverage adm query db_name r win w = (x, w') \<Longrightarrow> open_times w' = open_times w"
  by (auto simp: verify_window_coverage_def Let_def split: prod.splits sum.splits option.splits bool.splits if_splits
      dest!: database_exists_reads connect_reads query_reads)

lemma verify_window_ready:
  assumes "verify_window_coverage adm query db_name r win w = (Inr (True, s, e), w')"
  shows "\<exists>n. expected_bar_count (win_start win) (win_end win) (rq_interval r) = Inr n
    \<and> finite (bars_in db_name r w win) \<and> bars_in db_name r w win \<noteq> {} \<and> n \<le> int (card (bars_in db_name r w win))"
proof -
  let ?db = "database_for_year db_name (rq_exchange r) (win_year win)"
  let ?table = "build_kline_table_name (rq_market r) (rq_symbol r) (rq_interval r)"
  from assms obtain w1 w2 w3 n mn mx expected where
    1: "database_exists adm ?db w = (Inr True, w1)" and 2: "adm_connect adm ?db w1 = (None, w2)"
    and 3: "query ?db ?table (rq_symbol r) (win_start win) (win_end win) w2 = (Inr (n, mn, mx), w3)"
    and 4: "expected_bar_count (win_start win) (win_end win) (rq_interval r) = Inr expected"
    and 5: "expected \<le> n" "mn \<noteq> None"
    by (auto simp: verify_window_coverage_def Let_def
        split: prod.splits sum.splits option.splits bool.splits if_splits)
  have same: "open_times w2 = open_times w"
    using database_exists_reads [OF 1] connect_reads [OF 2] by simp
  show ?thesis
    using query_counts [OF 3] query_min [OF 3 5(2)] 4 5 unfolding same bars_in_def by simp
qed

lemma verify_windows_ready:
  "verify_windows adm query db_name r ws acc w = (Inr cov, w') \<Longrightarrow> cov_ready cov \<Longrightarrow>
   cov_ready acc \<and> (\<forall>win \<in> set ws.
     \<exists>n. expected_bar_count (win_start win) (win_end win) (rq_interval r) = Inr n
       \<and> finite (bars_in db_name r w win) \<and> bars_in db_name r w win \<noteq> {} \<and> n \<le> int (card (bars_in db_name r w win)))"
proof (induction ws arbitrary: acc w)
  case (Cons win ws)
  from Cons.prems(1) obtain ready s e w1 where
    one: "verify_window_coverage adm query db_name r win w = (Inr (ready, s, e), w1)"
    and rest: "verify_windows adm query db_name r ws
      \<lparr>cov_ready = (if ready then cov_ready acc else False), cov_start = earlier (cov_start acc) s,
       cov_end = later (cov_end acc) e\<rparr> w1 = (Inr cov, w')"
    by (auto split: prod.splits sum.splits)
  have same: "bars_in db_name r w1 = bars_in db_name r w"
    using verify_window_reads [OF one] by (intro ext) (simp add: bars_in_def)
  note ih = Cons.IH [OF rest Cons.prems(2), unfolded same]
  then have "ready" "cov_ready acc" by (auto split: if_splits)
  then show ?case using ih verify_window_ready [of db_name r win w s e w1] one by simp
qed simp

end

subsection \<open>The grid of a window\<close>

definition grid :: "time \<Rightarrow> time \<Rightarrow> duration \<Rightarrow> time set" where
  "grid a b dur = {t. a \<le> t \<and> t < b \<and> dur dvd (t - a)}"

lemma grid_image:
  assumes "0 < dur" "dur dvd (b - a)"
  shows "grid a b dur = (\<lambda>i. a + i * dur) ` {0..<(b - a) div dur}"
proof
  obtain m where m: "b - a = dur * m" using assms(2) by (auto simp: dvd_def)
  have q: "(b - a) div dur = m" using assms(1) m by simp
  show "grid a b dur \<subseteq> (\<lambda>i. a + i * dur) ` {0..<(b - a) div dur}"
  proof
    fix t assume t: "t \<in> grid a b dur"
    then obtain i where i: "t - a = dur * i" by (auto simp: grid_def dvd_def)
    have "0 \<le> dur * i" "dur * i < dur * m" using t i m by (auto simp: grid_def)
    then have "0 \<le> i" "i < m" using assms(1) by (simp_all add: zero_le_mult_iff)
    moreover have "t = a + i * dur" using i by (simp add: mult.commute)
    ultimately show "t \<in> (\<lambda>i. a + i * dur) ` {0..<(b - a) div dur}" unfolding q by auto
  qed
  have "i * dur < b - a" if "i < m" for i
    using mult_strict_right_mono [OF that assms(1)] m by (simp add: mult.commute)
  then show "(\<lambda>i. a + i * dur) ` {0..<(b - a) div dur} \<subseteq> grid a b dur"
    unfolding q using assms(1) by (auto simp: grid_def less_diff_eq add.commute)
qed

lemma grid_card:
  assumes "0 < dur" "dur dvd (b - a)" "a \<le> b"
  shows "finite (grid a b dur) \<and> int (card (grid a b dur)) = (b - a) div dur"
proof -
  have "inj_on (\<lambda>i. a + i * dur) {0..<(b - a) div dur}" using assms(1) by (auto simp: inj_on_def)
  then show ?thesis
    using assms by (simp add: grid_image card_image pos_imp_zdiv_nonneg_iff)
qed

lemma full_count_is_grid:
  assumes "0 < dur" "dur dvd (b - a)" "a \<le> b" "bars \<subseteq> grid a b dur" "(b - a) div dur \<le> int (card bars)"
  shows "bars = grid a b dur"
  using grid_card [OF assms(1-3)] assms(4,5) by (intro card_seteq) auto

subsection \<open>The reference query\<close>

definition site_open_times :: "site \<Rightarrow> string \<Rightarrow> string \<Rightarrow> string \<Rightarrow> time set" where
  "site_open_times w db table s = {t. (table, t, s) \<in> set (pg_rows (site_db db w))}"

definition site_bar_times :: "string \<Rightarrow> string \<Rightarrow> string \<Rightarrow> time \<Rightarrow> time \<Rightarrow> site \<Rightarrow> time list" where
  "site_bar_times db table s a b w = remdups (map (\<lambda>(_, t, _). t)
     (filter (\<lambda>(u, t, v). u = table \<and> v = s \<and> a \<le> t \<and> t < b) (pg_rows (site_db db w))))"

definition site_query :: "site coverage_query" where
  "site_query db table s a b w =
     (let ts = site_bar_times db table s a b w
      in if table \<in> set (pg_tables (site_db db w))
         then (Inr (int (length ts), if ts = [] then None else Some (foldl min (hd ts) ts),
                    if ts = [] then None else Some (foldl max (hd ts) ts)), w)
         else (Inl (Err (''pq: relation '' @ go_quote table @ '' does not exist'')), w))"

lemma set_site_bar_times:
  "set (site_bar_times db table s a b w) = {t \<in> site_open_times w db table s. a \<le> t \<and> t < b}"
  by (force simp: site_bar_times_def site_open_times_def)

lemma site_bar_times_card:
  "length (site_bar_times db table s a b w) = card {t \<in> site_open_times w db table s. a \<le> t \<and> t < b}"
  unfolding set_site_bar_times [symmetric]
  by (rule distinct_card [symmetric]) (simp add: site_bar_times_def)

interpretation site: coverage_reader site_adm site_query site_open_times
proof
  fix db table s a b w n mn mx w'
  let ?S = "{t \<in> site_open_times w db table s. a \<le> t \<and> t < b}"
  assume q: "site_query db table s a b w = (Inr (n, mn, mx), w')"
  have "n = int (length (site_bar_times db table s a b w))"
    using q by (auto simp: site_query_def Let_def split: if_splits)
  then show "finite ?S \<and> n = int (card ?S)"
    unfolding site_bar_times_card using set_site_bar_times [of db table s a b w, symmetric] by simp
  show "mn \<noteq> None \<Longrightarrow> ?S \<noteq> {}"
    using q unfolding set_site_bar_times [symmetric] by (auto simp: site_query_def Let_def split: if_splits)
next
  fix db table s a b w x w'
  assume "site_query db table s a b w = (x, w')"
  then show "site_open_times w' = site_open_times w" by (auto simp: site_query_def Let_def split: if_splits)
qed (auto simp: site_adm_def)

subsection \<open>Properties\<close>

text \<open>The open times of the request's stream in the database of a window, inside the window.\<close>

definition window_bars ::
  "('w \<Rightarrow> string \<Rightarrow> string \<Rightarrow> string \<Rightarrow> time set) \<Rightarrow> string \<Rightarrow> kline_request \<Rightarrow> 'w \<Rightarrow> time_window \<Rightarrow> time set" where
  "window_bars open_times db_name r w win =
     {t \<in> open_times w (database_for_year db_name (rq_exchange r) (win_year win))
            (build_kline_table_name (rq_market r) (rq_symbol r) (rq_interval r)) (rq_symbol r).
        win_start win \<le> t \<and> t < win_end win}"

lemma verify_ready_windows:
  assumes "coverage_reader adm query open_times"
    and "verify_kline_coverage adm query db_name r0 w = (Inr cov, w')" and "cov_ready cov"
    and "win \<in> set (split_by_year (rq_start r0) (rq_end r0))"
  shows "\<exists>n. expected_bar_count (win_start win) (win_end win) (rq_interval (normalize_kline_request r0)) = Inr n
    \<and> finite (window_bars open_times db_name (normalize_kline_request r0) w win)
    \<and> window_bars open_times db_name (normalize_kline_request r0) w win \<noteq> {}
    \<and> n \<le> int (card (window_bars open_times db_name (normalize_kline_request r0) w win))"
proof -
  define r where "r = normalize_kline_request r0"
  have range: "rq_start r = rq_start r0" "rq_end r = rq_end r0"
    by (simp_all add: r_def normalize_kline_request_def Let_def)
  have "verify_windows adm query db_name r (split_by_year (rq_start r) (rq_end r))
      \<lparr>cov_ready = True, cov_start = None, cov_end = None\<rparr> w = (Inr cov, w')"
    using assms(2) unfolding verify_kline_coverage_def Let_def r_def [symmetric]
    by (auto split: option.splits if_splits)
  from coverage_reader.verify_windows_ready [OF assms(1) this assms(3)] assms(4) show ?thesis
    unfolding r_def [symmetric] range window_bars_def coverage_reader.bars_in_def [OF assms(1)] by blast
qed

lemma split_by_year_short:
  assumes "win \<in> set (split_by_year s e)"
  shows "win_start win \<le> win_end win \<and> win_end win - win_start win \<le> max_int64"
proof -
  have "s < e" using assms by (cases "s < e") (auto simp: split_by_year_def)
  note chain = split_by_year_window_chain [OF this]
  have lt: "win_start win < win_end win" using window_chain_bounds [OF chain assms] by simp
  then have "year_of (win_end win - 1) = win_year win"
    by (intro split_by_year_year [OF assms]) auto
  then have "win_end win - 1 < year_start (win_year win + 1)"
    using cal.yr_upper [of "win_end win - 1"] by simp
  moreover have "year_start (win_year win) \<le> win_start win"
    using cal.yr_lower [of "win_start win"] by (simp add: win_year_def)
  ultimately show ?thesis
    using lt year_length [of "win_year win"] by (simp add: day_ns_def max_int64_def)
qed

text \<open>
  C2. A \<open>Ready\<close> answer means complete data: if the stored open times of the stream lie on the
  interval's grid and the interval divides the window, then every point of the grid of the window
  is stored in the database of its year. Counting rows is enough.
\<close>

theorem verify_ready_means_complete:
  assumes "coverage_reader adm query open_times"
    and "verify_kline_coverage adm query db_name r0 w = (Inr cov, w')" and "cov_ready cov"
    and "interval_duration (rq_interval (normalize_kline_request r0)) = Inr dur" and "0 < dur"
    and "win \<in> set (split_by_year (rq_start r0) (rq_end r0))" and "dur dvd (win_end win - win_start win)"
    and "window_bars open_times db_name (normalize_kline_request r0) w win \<subseteq> {t. dur dvd (t - win_start win)}"
  shows "window_bars open_times db_name (normalize_kline_request r0) w win = grid (win_start win) (win_end win) dur"
proof -
  note short = split_by_year_short [OF assms(6)]
  let ?bars = "window_bars open_times db_name (normalize_kline_request r0) w win"
  have "(win_end win - win_start win) div dur \<le> int (card ?bars)"
    using verify_ready_windows [OF assms(1-3,6)] expected_bar_count_exact [OF assms(4,5)] short by auto
  moreover have "?bars \<subseteq> grid (win_start win) (win_end win) dur"
    using assms(8) by (auto simp: grid_def window_bars_def)
  ultimately show ?thesis using assms(5,7) short by (intro full_count_is_grid) auto
qed

definition year_site :: "string \<Rightarrow> time list \<Rightarrow> site" where
  "year_site table ts = \<lparr>site_dbs = [(''binance_2026'', \<lparr>pg_tables = [table],
     pg_rows = map (\<lambda>t. (table, t, ''BTCUSDT'')) ts\<rparr>)], site_net = []\<rparr>"

definition spot_request :: "string \<Rightarrow> time \<Rightarrow> time \<Rightarrow> kline_request" where
  "spot_request interval a b = \<lparr>rq_exchange = ''binance'', rq_market = ''spot'', rq_symbol = ''BTCUSDT'',
     rq_interval = interval, rq_start = a, rq_end = b\<rparr>"

text \<open>The first two minutes of 2026.\<close>

theorem verify_ready_means_complete_witness:
  "window_bars site_open_times [] (normalize_kline_request (spot_request ''1m'' 1767225600000000000 1767225720000000000))
     (year_site ''spot_klines_btcusdt_1m'' [1767225660000000000, 1767225600000000000])
     \<lparr>win_start = 1767225600000000000, win_end = 1767225720000000000\<rparr>
   = grid 1767225600000000000 1767225720000000000 minute"
proof -
  let ?r = "spot_request ''1m'' 1767225600000000000 1767225720000000000"
  let ?w = "year_site ''spot_klines_btcusdt_1m'' [1767225660000000000, 1767225600000000000]"
  let ?win = "\<lparr>win_start = 1767225600000000000, win_end = 1767225720000000000\<rparr>"
  let ?cov = "\<lparr>cov_ready = True, cov_start = Some 1767225600000000000, cov_end = Some 1767225720000000000\<rparr>"
  have run: "verify_kline_coverage site_adm site_query [] ?r ?w = (Inr ?cov, ?w)" by code_simp
  have iv: "interval_duration (rq_interval (normalize_kline_request ?r)) = Inr minute" by code_simp
  have win: "?win \<in> set (split_by_year (rq_start ?r) (rq_end ?r))" by code_simp
  have n: "database_for_year [] (rq_exchange (normalize_kline_request ?r)) (win_year ?win) = ''binance_2026''"
    "build_kline_table_name (rq_market (normalize_kline_request ?r)) (rq_symbol (normalize_kline_request ?r))
       (rq_interval (normalize_kline_request ?r)) = ''spot_klines_btcusdt_1m''" by code_simp+
  have sub: "window_bars site_open_times [] (normalize_kline_request ?r) ?w ?win \<subseteq> {t. minute dvd (t - win_start ?win)}"
    unfolding window_bars_def n
    by (auto simp: site_open_times_def site_db_def year_site_def minute_def)
  have "cov_ready ?cov" "0 < minute" "minute dvd (win_end ?win - win_start ?win)" by (simp_all add: minute_def)
  from verify_ready_means_complete [OF site.coverage_reader_axioms run this(1) iv this(2) win this(3) sub]
  show ?thesis by simp
qed

text \<open>
  A window in which no bar opens is never ready, although the check expects no bar of it: the
  request as a whole is then never ready, however complete the stored data is. A day-bar request
  that starts at noon of 31 December has such a first window.
\<close>

theorem empty_window_never_ready:
  assumes "coverage_reader adm query open_times"
    and "verify_kline_coverage adm query db_name r0 w = (Inr cov, w')"
    and "win \<in> set (split_by_year (rq_start r0) (rq_end r0))"
    and "window_bars open_times db_name (normalize_kline_request r0) w win = {}"
  shows "\<not> cov_ready cov"
  using verify_ready_windows [OF assms(1,2) _ assms(3)] assms(4) by blast

text \<open>31 December 2025, 12:00 to 3 January 2026, 00:00, with both day bars of 2026 stored.\<close>

theorem empty_window_never_ready_witness:
  "expected_bar_count 1767182400000000000 1767225600000000000 ''1d'' = Inr 0
   \<and> (\<exists>cov. verify_kline_coverage site_adm site_query [] (spot_request ''1d'' 1767182400000000000 1767398400000000000)
        (year_site ''spot_klines_btcusdt_1d'' [1767225600000000000, 1767312000000000000])
        = (Inr cov, year_site ''spot_klines_btcusdt_1d'' [1767225600000000000, 1767312000000000000])
      \<and> \<not> cov_ready cov)"
proof
  show "expected_bar_count 1767182400000000000 1767225600000000000 ''1d'' = Inr 0" by code_simp
  let ?r = "spot_request ''1d'' 1767182400000000000 1767398400000000000"
  let ?w = "year_site ''spot_klines_btcusdt_1d'' [1767225600000000000, 1767312000000000000]"
  let ?win = "\<lparr>win_start = 1767182400000000000, win_end = 1767225600000000000\<rparr>"
  let ?cov = "\<lparr>cov_ready = False, cov_start = Some 1767225600000000000, cov_end = Some 1767398400000000000\<rparr>"
  have run: "verify_kline_coverage site_adm site_query [] ?r ?w = (Inr ?cov, ?w)" by code_simp
  have win: "?win \<in> set (split_by_year (rq_start ?r) (rq_end ?r))" by code_simp
  have db: "database_for_year [] (rq_exchange (normalize_kline_request ?r)) (win_year ?win) = ''binance_2025''"
    by code_simp
  have none: "window_bars site_open_times [] (normalize_kline_request ?r) ?w ?win = {}"
    unfolding window_bars_def db by (simp add: site_open_times_def site_db_def year_site_def empty_pg_def)
  from empty_window_never_ready [OF site.coverage_reader_axioms run win none] run
  show "\<exists>cov. verify_kline_coverage site_adm site_query [] ?r ?w = (Inr cov, ?w) \<and> \<not> cov_ready cov" by blast
qed

text \<open>
  When the interval does not divide the window, \<open>expectedBarCount\<close> rounds down and the check
  can be ready with a bar missing: in two and a half minutes three minute bars open, two suffice.
\<close>

theorem ready_with_a_bar_missing:
  "\<exists>cov. verify_kline_coverage site_adm site_query [] (spot_request ''1m'' 1767225600000000000 1767225750000000000)
       (year_site ''spot_klines_btcusdt_1m'' [1767225660000000000, 1767225720000000000])
     = (Inr cov, year_site ''spot_klines_btcusdt_1m'' [1767225660000000000, 1767225720000000000])
   \<and> cov_ready cov \<and> grid 1767225600000000000 1767225750000000000 minute
       = {1767225600000000000, 1767225660000000000, 1767225720000000000}"
proof -
  let ?r = "spot_request ''1m'' 1767225600000000000 1767225750000000000"
  let ?w = "year_site ''spot_klines_btcusdt_1m'' [1767225660000000000, 1767225720000000000]"
  let ?cov = "\<lparr>cov_ready = True, cov_start = Some 1767225660000000000, cov_end = Some 1767225780000000000\<rparr>"
  have run: "verify_kline_coverage site_adm site_query [] ?r ?w = (Inr ?cov, ?w)" by code_simp
  have last: "x < 1767225750000000000" if "x - 1767225600000000000 = 60000000000 * k" "x < 1767225780000000000"
    for x k :: int
  proof -
    have "k \<le> 2" using that by linarith
    then show ?thesis using that by linarith
  qed
  have "grid 1767225600000000000 1767225750000000000 minute = grid 1767225600000000000 1767225780000000000 minute"
    by (auto simp: grid_def minute_def dvd_def dest: last)
  also have "\<dots> = (\<lambda>i. 1767225600000000000 + i * minute) ` {0..<3}"
    by (subst grid_image) (simp_all add: minute_def)
  also have "{0..<3 :: int} = {0, 1, 2}" by auto
  finally have "grid 1767225600000000000 1767225750000000000 minute
      = {1767225600000000000, 1767225660000000000, 1767225720000000000}" by (simp add: minute_def)
  with run show ?thesis by auto
qed

end
