(* ===== verification/Control_History.thy ===== *)
theory Control_History
  imports Backfill_Verify Control_Types
begin

text \<open>
  The history runtime (\<open>internal/controlplane/history_runtime.go\<close>): each listed historical request
  gets a worker goroutine that checks the coverage, back-fills, reports the segments and checks
  again. The coverage check, the back-fill and the control-plane client are called through package
  variables and an interface, so they are the fields of \<open>history_env\<close>; \<open>model_env\<close> fills them with
  the back-fill of this library. The runtime's own state is the map of requests in flight; a
  context is a number.
\<close>

record 'w history_env =
  he_verify :: "kline_request \<Rightarrow> 'w \<Rightarrow> coverage res \<times> 'w"
  he_backfill :: "kline_request \<Rightarrow> 'w \<Rightarrow> coverage_segment list res \<times> 'w"
  he_report :: "history_report \<Rightarrow> 'w \<Rightarrow> go_error option \<times> 'w"
  he_report_segments :: "coverage_segment_report list \<Rightarrow> 'w \<Rightarrow> go_error option \<times> 'w"

text \<open>The calls a worker makes to the control plane, in order.\<close>

datatype history_call = State_Report history_report | Segments_Report "coverage_segment_report list"

subsection \<open>One worker\<close>

definition request_of :: "historical_request \<Rightarrow> time \<Rightarrow> time \<Rightarrow> kline_request" where
  "request_of req a b = \<lparr>rq_exchange = sk_exchange (hr_key req), rq_market = sk_market (hr_key req),
     rq_symbol = sk_symbol (hr_key req), rq_interval = sk_interval (hr_key req), rq_start = a, rq_end = b\<rparr>"

definition coverage_report_of :: "stream_key \<Rightarrow> coverage_segment \<Rightarrow> coverage_segment_report" where
  "coverage_report_of key seg =
     \<lparr>cr_key = key\<lparr>sk_exchange := (if sk_exchange key = [] then cs_exchange seg else sk_exchange key),
                    sk_market := (if sk_market key = [] then cs_market seg else sk_market key),
                    sk_symbol := (if sk_symbol key = [] then cs_symbol seg else sk_symbol key),
                    sk_interval := (if sk_interval key = [] then cs_interval seg else sk_interval key)\<rparr>,
      cr_year = wrap32 (cs_year seg), cr_start = cs_start seg, cr_end = cs_end seg,
      cr_rows = cs_rows seg, cr_source = cs_source seg\<rparr>"

definition coverage_reports_from_segments :: "stream_key \<Rightarrow> coverage_segment list \<Rightarrow> coverage_segment_report list" where
  "coverage_reports_from_segments key segs = map (coverage_report_of key) segs"

definition state_report :: "int \<Rightarrow> string \<Rightarrow> time option \<Rightarrow> time option \<Rightarrow> string \<Rightarrow> history_report" where
  "state_report i status a b e = \<lparr>hs_id = i, hs_status = status, hs_covered_start = a, hs_covered_end = b, hs_last_error = e\<rparr>"

text \<open>\<open>reportHistorical\<close>: a failed report is logged and forgotten.\<close>

definition report_historical :: "'w history_env \<Rightarrow> history_report \<Rightarrow> 'w \<Rightarrow> history_call list \<times> 'w" where
  "report_historical env rep w = ([State_Report rep], snd (he_report env rep w))"

text \<open>The last part of \<open>runRequest\<close>: report "verifying", check again, report the outcome.\<close>

definition finish_request :: "'w history_env \<Rightarrow> historical_request \<Rightarrow> kline_request \<Rightarrow> coverage \<Rightarrow> 'w \<Rightarrow> history_call list \<times> 'w" where
  "finish_request env req r cov w =
     (let (c1, w1) = report_historical env (state_report (hr_id req) ''verifying'' (cov_start cov) (cov_end cov) []) w
      in case he_verify env r w1 of
        (Inl e, w2) \<Rightarrow>
          (let (c2, w3) = report_historical env (state_report (hr_id req) ''error'' None None (error_text e)) w2
           in (c1 @ c2, w3))
      | (Inr cov2, w2) \<Rightarrow>
          (let (c2, w3) = report_historical env (state_report (hr_id req)
                 (if cov_ready cov2 then ''ready'' else ''error'') (cov_start cov2) (cov_end cov2)
                 (if cov_ready cov2 then [] else ''coverage incomplete after backfill'')) w2
           in (c1 @ c2, w3)))"

definition run_request :: "'w history_env \<Rightarrow> historical_request \<Rightarrow> time \<Rightarrow> time \<Rightarrow> 'w \<Rightarrow> history_call list \<times> 'w" where
  "run_request env req a b w =
     (let r = request_of req a b
      in case he_verify env r w of
        (Inl e, w1) \<Rightarrow> report_historical env (state_report (hr_id req) ''error'' None None (error_text e)) w1
      | (Inr cov, w1) \<Rightarrow>
        if cov_ready cov
        then report_historical env (state_report (hr_id req) ''ready'' (cov_start cov) (cov_end cov) []) w1
        else
          (let (c1, w2) = report_historical env (state_report (hr_id req) ''running'' (cov_start cov) (cov_end cov) []) w1
           in case he_backfill env r w2 of
             (Inl e, w3) \<Rightarrow>
               (let (c2, w4) = report_historical env
                      (state_report (hr_id req) ''error'' (cov_start cov) (cov_end cov) (error_text e)) w3
                in (c1 @ c2, w4))
           | (Inr segs, w3) \<Rightarrow>
               if segs \<noteq> []
               then (let reps = coverage_reports_from_segments (hr_key req) segs
                     in case he_report_segments env reps w3 of
                       (Some e, w4) \<Rightarrow>
                         (let (c2, w5) = report_historical env (state_report (hr_id req) ''error''
                                (cov_start cov) (cov_end cov) (''coverage report failed: '' @ error_text e)) w4
                          in (c1 @ [Segments_Report reps] @ c2, w5))
                     | (None, w4) \<Rightarrow>
                         (let (c2, w5) = finish_request env req r cov w4
                          in (c1 @ [Segments_Report reps] @ c2, w5)))
               else (let (c2, w4) = finish_request env req r cov w3 in (c1 @ c2, w4))))"

subsection \<open>The requests in flight\<close>

text \<open>\<open>hy_workers\<close> are the goroutines, by the number of their context: the request each runs.\<close>

record history_state =
  hy_in_flight :: "(int \<times> nat) list"
  hy_next :: nat
  hy_workers :: "(nat \<times> int) list"
  hy_cancelled :: "nat set"
  hy_reports :: "history_report list"

definition history_init :: history_state where
  "history_init = \<lparr>hy_in_flight = [], hy_next = 0, hy_workers = [], hy_cancelled = {}, hy_reports = []\<rparr>"

definition error_report :: "int \<Rightarrow> string \<Rightarrow> history_state \<Rightarrow> history_state" where
  "error_report i e st = st\<lparr>hy_reports := hy_reports st @ [state_report i ''error'' None None e]\<rparr>"

text \<open>One listed request, and whether its id counts as seen.\<close>

definition reconcile_request :: "(string \<Rightarrow> bool) \<Rightarrow> historical_request \<Rightarrow> history_state \<Rightarrow> history_state" where
  "reconcile_request has_db req st =
     (if hr_id req \<le> 0 then st
      else if sk_kind (hr_key req) \<noteq> ''kline''
      then error_report (hr_id req) (''historical kind '' @ go_quote (sk_kind (hr_key req)) @ '' is not supported yet'') st
      else if hr_requested_start req = None \<or> hr_requested_end req = None
      then error_report (hr_id req) ''historical request is missing requested time range'' st
      else if \<not> has_db (sk_exchange (hr_key req))
      then error_report (hr_id req)
        (''historical exchange '' @ go_quote (sk_exchange (hr_key req)) @ '' is not configured in scraper'') st
      else if map_of (hy_in_flight st) (hr_id req) \<noteq> None then st
      else st\<lparr>hy_next := hy_next st + 1, hy_in_flight := (hr_id req, hy_next st) # hy_in_flight st,
              hy_workers := (hy_next st, hr_id req) # hy_workers st\<rparr>)"

text \<open>\<open>cancelMissing\<close>, and \<open>stopAll\<close> as the case where nothing was seen.\<close>

definition cancel_missing :: "int set \<Rightarrow> history_state \<Rightarrow> history_state" where
  "cancel_missing seen st =
     st\<lparr>hy_in_flight := filter (\<lambda>p. fst p \<in> seen) (hy_in_flight st),
        hy_cancelled := hy_cancelled st \<union> snd ` {p \<in> set (hy_in_flight st). fst p \<notin> seen}\<rparr>"

definition stop_all :: "history_state \<Rightarrow> history_state" where
  "stop_all = cancel_missing {}"

definition history_reconcile_once :: "(string \<Rightarrow> bool) \<Rightarrow> historical_request list \<Rightarrow> history_state \<Rightarrow> history_state" where
  "history_reconcile_once has_db reqs st =
     cancel_missing (set (filter (\<lambda>i. 0 < i) (map hr_id reqs))) (fold (reconcile_request has_db) reqs st)"

text \<open>The end of a worker: the deferred \<open>untrack\<close> deletes the entry of its request.\<close>

definition worker_done :: "nat \<Rightarrow> history_state \<Rightarrow> history_state" where
  "worker_done n st =
     (case map_of (hy_workers st) n of
        None \<Rightarrow> st
      | Some i \<Rightarrow> st\<lparr>hy_workers := filter (\<lambda>p. fst p \<noteq> n) (hy_workers st),
                       hy_in_flight := filter (\<lambda>p. fst p \<noteq> i) (hy_in_flight st)\<rparr>)"

text \<open>The workers and the reconciler in any order.\<close>

inductive history_step :: "(string \<Rightarrow> bool) \<Rightarrow> history_state \<Rightarrow> history_state \<Rightarrow> bool" for has_db where
  request: "history_step has_db st (reconcile_request has_db req st)"
| missing: "history_step has_db st (cancel_missing seen st)"
| finished: "history_step has_db st (worker_done n st)"

text \<open>The same, while no listing leaves out a request in flight.\<close>

inductive kept_history_step :: "(string \<Rightarrow> bool) \<Rightarrow> history_state \<Rightarrow> history_state \<Rightarrow> bool" for has_db where
  request: "kept_history_step has_db st (reconcile_request has_db req st)"
| missing: "fst ` set (hy_in_flight st) \<subseteq> seen \<Longrightarrow> kept_history_step has_db st (cancel_missing seen st)"
| finished: "kept_history_step has_db st (worker_done n st)"

lemma kept_history_step_is_step: "kept_history_step has_db st st' \<Longrightarrow> history_step has_db st st'"
  by (induction rule: kept_history_step.induct) (auto intro: history_step.intros)

definition history_inv :: "history_state \<Rightarrow> bool" where
  "history_inv st \<longleftrightarrow> distinct (map fst (hy_in_flight st)) \<and> distinct (map fst (hy_workers st))
     \<and> (\<forall>n i. (n, i) \<in> set (hy_workers st) \<longleftrightarrow> (i, n) \<in> set (hy_in_flight st))
     \<and> (\<forall>n \<in> fst ` set (hy_workers st). n < hy_next st)"

lemma history_inv_worker:
  "history_inv st \<Longrightarrow> (n, i) \<in> set (hy_workers st) \<Longrightarrow> map_of (hy_in_flight st) i = Some n"
  by (simp add: history_inv_def map_of_eq_Some_iff)

lemma history_inv_add:
  assumes "history_inv st" "i \<notin> fst ` set (hy_in_flight st)"
  shows "history_inv (st\<lparr>hy_next := hy_next st + 1, hy_in_flight := (i, hy_next st) # hy_in_flight st,
    hy_workers := (hy_next st, i) # hy_workers st\<rparr>)"
proof -
  have "hy_next st \<notin> fst ` set (hy_workers st)" using assms(1) by (auto simp: history_inv_def)
  then have "hy_next st \<notin> snd ` set (hy_in_flight st)" using assms(1) by (force simp: history_inv_def)
  with \<open>hy_next st \<notin> fst ` set (hy_workers st)\<close> assms show ?thesis
    unfolding history_inv_def by (auto simp: image_iff less_Suc_eq)
qed

lemma reconcile_request_cases:
  obtains (start) "map_of (hy_in_flight st) (hr_id req) = None"
      "reconcile_request has_db req st = st\<lparr>hy_next := hy_next st + 1,
         hy_in_flight := (hr_id req, hy_next st) # hy_in_flight st, hy_workers := (hy_next st, hr_id req) # hy_workers st\<rparr>"
  | (same) "hy_in_flight (reconcile_request has_db req st) = hy_in_flight st"
      "hy_workers (reconcile_request has_db req st) = hy_workers st" "hy_next (reconcile_request has_db req st) = hy_next st"
proof (cases "0 < hr_id req \<and> sk_kind (hr_key req) = ''kline'' \<and> hr_requested_start req \<noteq> None \<and> hr_requested_end req \<noteq> None
    \<and> has_db (sk_exchange (hr_key req)) \<and> map_of (hy_in_flight st) (hr_id req) = None")
  case True
  then show thesis by (intro start) (auto simp: reconcile_request_def)
next
  case False
  then show thesis by (intro same) (auto simp: reconcile_request_def error_report_def)
qed

lemma kept_history_step_inv: "kept_history_step has_db st st' \<Longrightarrow> history_inv st \<Longrightarrow> history_inv st'"
proof (induction rule: kept_history_step.induct)
  case (request st req)
  show ?case
  proof (cases rule: reconcile_request_cases [of st req has_db])
    case start
    then have "hr_id req \<notin> fst ` set (hy_in_flight st)" by (simp add: map_of_eq_None_iff)
    then show ?thesis unfolding start(2) by (rule history_inv_add [OF request])
  next
    case same
    with request show ?thesis by (simp add: history_inv_def)
  qed
next
  case (missing st seen)
  then have "filter (\<lambda>p. fst p \<in> seen) (hy_in_flight st) = hy_in_flight st" by (auto simp: filter_id_conv)
  with missing show ?case by (simp add: cancel_missing_def history_inv_def)
next
  case (finished st n)
  show ?case
  proof (cases "map_of (hy_workers st) n")
    case None
    with finished show ?thesis by (simp add: worker_done_def)
  next
    case (Some i)
    then have i: "map_of (hy_in_flight st) i = Some n" using history_inv_worker [OF finished] by (simp add: map_of_SomeD)
    have d: "distinct (map fst (hy_in_flight st))" "distinct (map fst (hy_workers st))" using finished by (simp_all add: history_inv_def)
    have "(m, j) \<in> set (hy_workers st) \<Longrightarrow> m = n \<longleftrightarrow> j = i" for m j
      using history_inv_worker [OF finished, of m j] i Some eq_key_imp_eq_value [OF d(2), of n j i] map_of_SomeD [OF Some]
      by auto
    then show ?thesis using finished Some by (auto simp: worker_done_def history_inv_def distinct_map_filter)
  qed
qed

definition kept_history_reach :: "(string \<Rightarrow> bool) \<Rightarrow> history_state \<Rightarrow> bool" where
  "kept_history_reach has_db st \<longleftrightarrow> (kept_history_step has_db)\<^sup>*\<^sup>* history_init st"

lemma kept_history_reach_inv: "kept_history_reach has_db st \<Longrightarrow> history_inv st"
  unfolding kept_history_reach_def
proof (induction rule: rtranclp_induct)
  case base
  show ?case by (simp add: history_init_def history_inv_def)
qed (rule kept_history_step_inv)

subsection \<open>Lemmas: what a worker reports\<close>

definition terminal :: "history_call \<Rightarrow> bool" where
  "terminal c \<longleftrightarrow> (case c of State_Report r \<Rightarrow> hs_status r \<in> {''ready'', ''error''} | Segments_Report _ \<Rightarrow> False)"

text \<open>The calls end with one terminal report; if it says ready, the last check said so just before.\<close>

definition well_ended :: "'w history_env \<Rightarrow> historical_request \<Rightarrow> kline_request \<Rightarrow> history_call list \<Rightarrow> 'w \<Rightarrow> bool" where
  "well_ended env req r calls w' \<longleftrightarrow> (\<exists>pre rep. calls = pre @ [State_Report rep] \<and> terminal (State_Report rep)
     \<and> (\<forall>c \<in> set pre. \<not> terminal c) \<and> hs_id rep = hr_id req
     \<and> (hs_status rep = ''ready'' \<longrightarrow> (\<exists>w0 w1 cov. he_verify env r w0 = (Inr cov, w1) \<and> cov_ready cov
          \<and> hs_covered_start rep = cov_start cov \<and> hs_covered_end rep = cov_end cov \<and> w' = snd (he_report env rep w1))))"

lemma well_ended_one:
  "hs_id rep = hr_id req \<Longrightarrow> hs_status rep = ''error'' \<Longrightarrow>
   report_historical env rep w = (calls, w') \<Longrightarrow> well_ended env req r calls w'"
  by (auto simp: report_historical_def well_ended_def terminal_def)

lemma well_ended_append:
  "well_ended env req r calls w' \<Longrightarrow> \<forall>c \<in> set pre. \<not> terminal c \<Longrightarrow> well_ended env req r (pre @ calls) w'"
  unfolding well_ended_def
proof (elim exE conjE, goal_cases)
  case (1 pre' rep)
  then show ?case by (intro exI [of _ "pre @ pre'"] exI [of _ rep]) auto
qed

lemma report_calls: "fst (report_historical env rep w) = [State_Report rep]"
  by (simp add: report_historical_def)

lemma well_ended_error:
  assumes "\<forall>c \<in> set pre. \<not> terminal c" "report_historical env (state_report (hr_id req) ''error'' a b e) w = (c2, w')"
  shows "well_ended env req r (pre @ c2) w'"
  by (rule well_ended_append [OF well_ended_one [OF _ _ assms(2)] assms(1)]) (simp_all add: state_report_def)

lemma finish_request_ended:
  assumes "finish_request env req r cov w = (calls, w')"
  shows "well_ended env req r calls w'"
proof -
  obtain c1 w1 where c1: "report_historical env (state_report (hr_id req) ''verifying'' (cov_start cov) (cov_end cov) []) w = (c1, w1)"
    by (meson surj_pair)
  then have pre: "\<forall>c \<in> set c1. \<not> terminal c" by (auto simp: report_historical_def terminal_def state_report_def)
  obtain v w2 where v: "he_verify env r w1 = (v, w2)" by (meson surj_pair)
  show ?thesis
  proof (cases v)
    case (Inl e)
    with assms c1 v obtain c2 where c2:
      "report_historical env (state_report (hr_id req) ''error'' None None (error_text e)) w2 = (c2, w')" "calls = c1 @ c2"
      by (auto simp: finish_request_def split: prod.splits)
    show ?thesis unfolding c2(2) by (rule well_ended_error [OF pre c2(1)])
  next
    case (Inr cov2)
    show ?thesis
    proof (cases "cov_ready cov2")
      case False
      with Inr assms c1 v obtain c2 where c2:
        "report_historical env (state_report (hr_id req) ''error'' (cov_start cov2) (cov_end cov2) ''coverage incomplete after backfill'') w2 = (c2, w')" "calls = c1 @ c2"
        by (auto simp: finish_request_def split: prod.splits)
      show ?thesis unfolding c2(2) by (rule well_ended_error [OF pre c2(1)])
    next
      case True
      let ?rep = "state_report (hr_id req) ''ready'' (cov_start cov2) (cov_end cov2) []"
      have "calls = c1 @ [State_Report ?rep]" "w' = snd (he_report env ?rep w2)"
        using True Inr assms c1 v by (auto simp: finish_request_def report_historical_def)
      moreover have "well_ended env req r [State_Report ?rep] (snd (he_report env ?rep w2))"
        using v Inr True by (fastforce simp: well_ended_def terminal_def state_report_def)
      ultimately show ?thesis using well_ended_append [OF _ pre] by simp
    qed
  qed
qed

lemma run_request_ended:
  assumes "run_request env req a b w = (calls, w')"
  shows "well_ended env req (request_of req a b) calls w'"
proof -
  let ?r = "request_of req a b"
  obtain v w1 where v: "he_verify env ?r w = (v, w1)" by (meson surj_pair)
  show ?thesis
  proof (cases v)
    case (Inl e)
    with assms v show ?thesis
      using well_ended_error [of "[]" env req None None "error_text e" w1 calls w'] by (simp add: run_request_def Let_def)
  next
    case (Inr cov)
    show ?thesis
    proof (cases "cov_ready cov")
      case True
      let ?rep = "state_report (hr_id req) ''ready'' (cov_start cov) (cov_end cov) []"
      have "calls = [State_Report ?rep]" "w' = snd (he_report env ?rep w1)"
        using True Inr assms v by (auto simp: run_request_def Let_def report_historical_def)
      then show ?thesis using v Inr True by (fastforce simp: well_ended_def terminal_def state_report_def)
    next
      case False
      let ?run = "state_report (hr_id req) ''running'' (cov_start cov) (cov_end cov) []"
      obtain c1 w2 where c1: "report_historical env ?run w1 = (c1, w2)" by (meson surj_pair)
      then have pre: "\<forall>c \<in> set c1. \<not> terminal c" by (auto simp: report_historical_def terminal_def state_report_def)
      obtain bf w3 where bf: "he_backfill env ?r w2 = (bf, w3)" by (meson surj_pair)
      note unf = assms [unfolded run_request_def Let_def v prod.case Inr sum.case if_not_P [OF False] c1 bf]
      show ?thesis
      proof (cases bf)
        case (Inl e)
        with unf obtain c2 where c2: "report_historical env (state_report (hr_id req) ''error'' (cov_start cov) (cov_end cov) (error_text e)) w3 = (c2, w')"
          "calls = c1 @ c2" by (auto split: prod.splits)
        show ?thesis unfolding c2(2) by (rule well_ended_error [OF pre c2(1)])
      next
        case (Inr segs)
        let ?reps = "coverage_reports_from_segments (hr_key req) segs"
        have pre': "\<forall>c \<in> set (c1 @ [Segments_Report ?reps]). \<not> terminal c" using pre by (auto simp: terminal_def)
        obtain e w4 where seg: "he_report_segments env ?reps w3 = (e, w4)" by (meson surj_pair)
        consider "segs = []" | "segs \<noteq> []" "e = None" | e' where "segs \<noteq> []" "e = Some e'" by (cases e) auto
        then show ?thesis
        proof cases
          case 1
          with unf Inr obtain c2 where c2: "finish_request env req ?r cov w3 = (c2, w')" "calls = c1 @ c2"
            by (auto split: prod.splits)
          show ?thesis unfolding c2(2) by (rule well_ended_append [OF finish_request_ended [OF c2(1)] pre])
        next
          case 2
          with unf Inr seg obtain c2 where c2: "finish_request env req ?r cov w4 = (c2, w')"
            "calls = (c1 @ [Segments_Report ?reps]) @ c2" by (auto split: prod.splits)
          show ?thesis unfolding c2(2) by (rule well_ended_append [OF finish_request_ended [OF c2(1)] pre'])
        next
          case 3
          with unf Inr seg obtain c2 where c2:
            "report_historical env (state_report (hr_id req) ''error'' (cov_start cov) (cov_end cov) (''coverage report failed: '' @ error_text e')) w4 = (c2, w')"
            "calls = (c1 @ [Segments_Report ?reps]) @ c2" by (auto split: prod.splits)
          show ?thesis unfolding c2(2) by (rule well_ended_error [OF pre' c2(1)])
        qed
      qed
    qed
  qed
qed

context coverage_reader
begin

lemma verify_windows_reads:
  "verify_windows adm query db_name r ws acc w = (x, w') \<Longrightarrow> open_times w' = open_times w"
proof (induction ws arbitrary: acc w)
  case (Cons win ws)
  obtain v w1 where v: "verify_window_coverage adm query db_name r win w = (v, w1)" by (meson surj_pair)
  with Cons.prems Cons.IH [of _ w1] verify_window_reads [OF v] show ?case
    by (auto split: sum.splits prod.splits)
qed simp

lemma verify_kline_coverage_reads:
  "verify_kline_coverage adm query db_name r w = (x, w') \<Longrightarrow> open_times w' = open_times w"
  by (auto simp: verify_kline_coverage_def Let_def split: option.splits if_splits dest: verify_windows_reads)

end

subsection \<open>Properties\<close>

text \<open>
  C14. Every worker ends its request with exactly one terminal report, its last call to the
  control plane, for its own request id; "ready" is only reported when the coverage check that was
  made just before it said so, with that check's covered range.
\<close>

theorem worker_reports_one_outcome:
  "\<exists>pre rep. fst (run_request env req a b w) = pre @ [State_Report rep]
    \<and> hs_id rep = hr_id req \<and> hs_status rep \<in> {''ready'', ''error''} \<and> (\<forall>c \<in> set pre. \<not> terminal c)
    \<and> (hs_status rep = ''ready'' \<longrightarrow> (\<exists>w0 w1 cov. he_verify env (request_of req a b) w0 = (Inr cov, w1) \<and> cov_ready cov
         \<and> hs_covered_start rep = cov_start cov \<and> hs_covered_end rep = cov_end cov))"
proof -
  obtain calls w' where run: "run_request env req a b w = (calls, w')" by (meson surj_pair)
  have "well_ended env req (request_of req a b) calls w'" by (rule run_request_ended [OF run])
  then obtain pre rep where ended: "calls = pre @ [State_Report rep]" "terminal (State_Report rep)"
      "\<forall>c \<in> set pre. \<not> terminal c" "hs_id rep = hr_id req"
    and ready: "hs_status rep = ''ready'' \<longrightarrow> (\<exists>w0 w1 cov. he_verify env (request_of req a b) w0 = (Inr cov, w1)
      \<and> cov_ready cov \<and> hs_covered_start rep = cov_start cov \<and> hs_covered_end rep = cov_end cov
      \<and> w' = snd (he_report env rep w1))"
    unfolding well_ended_def by blast
  have "hs_status rep \<in> {''ready'', ''error''}" using ended(2) by (simp add: terminal_def)
  with ended ready show ?thesis unfolding run fst_conv by blast
qed

text \<open>The environment of the program: the back-fill and the check of this library.\<close>

definition model_env ::
  "'w rest_env \<Rightarrow> float_parser \<Rightarrow> ('st, 'w) admin_env \<Rightarrow> 'w coverage_query \<Rightarrow> string
    \<Rightarrow> (history_report \<Rightarrow> 'w \<Rightarrow> go_error option \<times> 'w) \<Rightarrow> (coverage_segment_report list \<Rightarrow> 'w \<Rightarrow> go_error option \<times> 'w)
    \<Rightarrow> 'w history_env" where
  "model_env env pf adm query db_name report segments =
     \<lparr>he_verify = verify_kline_coverage adm query db_name, he_backfill = run_kline_request env pf adm db_name,
      he_report = report, he_report_segments = segments\<rparr>"

text \<open>
  C4. A request that a worker reports as ready is complete in the databases: for each of its year
  windows that the interval divides, every point of the interval's grid is stored, provided the
  stored bars lie on the grid.
\<close>

theorem ready_report_means_complete:
  assumes "coverage_reader adm query open_times"
    and "\<And>rep w x w'. report rep w = (x, w') \<Longrightarrow> open_times w' = open_times w"
    and "run_request (model_env env pf adm query db_name report segments) req a b w = (calls, w')"
    and "State_Report rep \<in> set calls" and "hs_status rep = ''ready''"
    and "interval_duration (rq_interval (normalize_kline_request (request_of req a b))) = Inr dur" and "0 < dur"
    and "win \<in> set (split_by_year a b)" and "dur dvd (win_end win - win_start win)"
    and "window_bars open_times db_name (normalize_kline_request (request_of req a b)) w' win
      \<subseteq> {t. dur dvd (t - win_start win)}"
  shows "window_bars open_times db_name (normalize_kline_request (request_of req a b)) w' win
    = grid (win_start win) (win_end win) dur"
proof -
  let ?r = "request_of req a b" and ?env = "model_env env pf adm query db_name report segments"
  have fields: "he_verify ?env = verify_kline_coverage adm query db_name" "he_report ?env = report"
    by (simp_all add: model_env_def)
  from run_request_ended [OF assms(3)] obtain pre last where last: "calls = pre @ [State_Report last]"
    "\<forall>c \<in> set pre. \<not> terminal c" "hs_status last = ''ready'' \<longrightarrow> (\<exists>w0 w1 cov. verify_kline_coverage adm query db_name ?r w0 = (Inr cov, w1)
      \<and> cov_ready cov \<and> w' = snd (report last w1))"
    unfolding well_ended_def fields by blast
  have "rep = last" using assms(4,5) last(1,2) by (auto simp: terminal_def)
  with last(3) assms(5) obtain w0 w1 cov where v: "verify_kline_coverage adm query db_name ?r w0 = (Inr cov, w1)"
    "cov_ready cov" "w' = snd (report last w1)" by blast
  have same: "open_times w' = open_times w0"
    using coverage_reader.verify_kline_coverage_reads [OF assms(1) v(1)] assms(2) [of last w1] v(3)
    by (metis prod.collapse)
  have win: "win \<in> set (split_by_year (rq_start ?r) (rq_end ?r))" using assms(8) by (simp add: request_of_def)
  note short = split_by_year_short [OF assms(8)]
  have eq: "window_bars open_times db_name (normalize_kline_request ?r) w0 win
      = window_bars open_times db_name (normalize_kline_request ?r) w' win" by (simp add: window_bars_def same)
  have "(win_end win - win_start win) div dur \<le> int (card (window_bars open_times db_name (normalize_kline_request ?r) w' win))"
    using verify_ready_windows [OF assms(1) v(1,2) win] expected_bar_count_exact [OF assms(6,7)] short
    unfolding eq by auto
  moreover have "window_bars open_times db_name (normalize_kline_request ?r) w' win \<subseteq> grid (win_start win) (win_end win) dur"
    using assms(10) by (auto simp: grid_def window_bars_def)
  ultimately show ?thesis using assms(7,9) short by (intro full_count_is_grid) auto
qed

definition listed_request :: historical_request where
  "listed_request = \<lparr>hr_id = 7, hr_user_id = 1, hr_portfolio_id = 1,
     hr_key = \<lparr>sk_exchange = ''binance'', sk_market = ''spot'', sk_kind = ''kline'', sk_symbol = ''BTCUSDT'', sk_interval = ''1m''\<rparr>,
     hr_status = ''pending'', hr_requested_start = Some 1767225600000000000, hr_requested_end = Some 1767225720000000000,
     hr_covered_start = None, hr_covered_end = None, hr_last_error = []\<rparr>"

text \<open>The first two minutes of 2026, already stored.\<close>

theorem ready_report_means_complete_witness:
  "window_bars site_open_times [] (normalize_kline_request (request_of listed_request 1767225600000000000 1767225720000000000))
     (year_site ''spot_klines_btcusdt_1m'' [1767225660000000000, 1767225600000000000])
     \<lparr>win_start = 1767225600000000000, win_end = 1767225720000000000\<rparr>
   = grid 1767225600000000000 1767225720000000000 minute"
proof -
  let ?a = "1767225600000000000" and ?b = "1767225720000000000"
  let ?r = "request_of listed_request ?a ?b"
  let ?w = "year_site ''spot_klines_btcusdt_1m'' [1767225660000000000, 1767225600000000000]"
  let ?win = "\<lparr>win_start = ?a, win_end = ?b\<rparr>"
  let ?rep = "state_report 7 ''ready'' (Some ?a) (Some ?b) []"
  have run: "run_request (model_env (site_env []) (\<lambda>s. (0, None)) site_adm site_query [] (\<lambda>_ w. (None, w)) (\<lambda>_ w. (None, w)))
      listed_request ?a ?b ?w = ([State_Report ?rep], ?w)" by code_simp
  have iv: "interval_duration (rq_interval (normalize_kline_request ?r)) = Inr minute" by code_simp
  have win: "?win \<in> set (split_by_year ?a ?b)" by code_simp
  have n: "database_for_year [] (rq_exchange (normalize_kline_request ?r)) (win_year ?win) = ''binance_2026''"
    "build_kline_table_name (rq_market (normalize_kline_request ?r)) (rq_symbol (normalize_kline_request ?r))
       (rq_interval (normalize_kline_request ?r)) = ''spot_klines_btcusdt_1m''" by code_simp+
  have sub: "window_bars site_open_times [] (normalize_kline_request ?r) ?w ?win \<subseteq> {t. minute dvd (t - win_start ?win)}"
    unfolding window_bars_def n
    by (auto simp: site_open_times_def site_db_def year_site_def minute_def)
  have "State_Report ?rep \<in> set [State_Report ?rep]" "hs_status ?rep = ''ready''" "0 < minute"
    "minute dvd (win_end ?win - win_start ?win)" by (simp_all add: minute_def state_report_def)
  from ready_report_means_complete [OF site.coverage_reader_axioms _ run this(1,2) iv this(3) win this(4) sub]
  show ?thesis by simp
qed

text \<open>A worker that finds the first two minutes of 2026 stored makes one report, "ready".\<close>

theorem worker_reports_one_outcome_witness:
  "\<exists>rep. fst (run_request (model_env (site_env []) (\<lambda>s. (0, None)) site_adm site_query [] (\<lambda>_ w. (None, w)) (\<lambda>_ w. (None, w)))
      listed_request 1767225600000000000 1767225720000000000
      (year_site ''spot_klines_btcusdt_1m'' [1767225660000000000, 1767225600000000000])) = [State_Report rep]
    \<and> hs_status rep = ''ready''
    \<and> (\<exists>w0 w1 cov. verify_kline_coverage site_adm site_query []
          (request_of listed_request 1767225600000000000 1767225720000000000) w0 = (Inr cov, w1) \<and> cov_ready cov)"
proof -
  let ?env = "model_env (site_env []) (\<lambda>s. (0, None)) site_adm site_query [] (\<lambda>_ w. (None, w)) (\<lambda>_ w. (None, w))"
  let ?w = "year_site ''spot_klines_btcusdt_1m'' [1767225660000000000, 1767225600000000000]"
  let ?rep = "state_report 7 ''ready'' (Some 1767225600000000000) (Some 1767225720000000000) []"
  have run: "fst (run_request ?env listed_request 1767225600000000000 1767225720000000000 ?w) = [State_Report ?rep]"
    by code_simp
  have v: "he_verify ?env = verify_kline_coverage site_adm site_query []" by (simp add: model_env_def)
  have "hs_status ?rep = ''ready''" by (simp add: state_report_def)
  with worker_reports_one_outcome [of ?env listed_request 1767225600000000000 1767225720000000000 ?w] run
  show ?thesis unfolding v by auto
qed

text \<open>
  C15. One worker per request: as long as no listing leaves out a request in flight, the requests
  in flight are exactly those with a running worker, each with one.
\<close>

theorem one_worker_per_request:
  assumes "kept_history_reach has_db st"
  shows "((n, i) \<in> set (hy_workers st) \<longleftrightarrow> (i, n) \<in> set (hy_in_flight st))
    \<and> ((n, i) \<in> set (hy_workers st) \<longrightarrow> (m, i) \<in> set (hy_workers st) \<longrightarrow> m = n)"
proof -
  note inv = kept_history_reach_inv [OF assms]
  have "(n, i) \<in> set (hy_workers st) \<longleftrightarrow> (i, n) \<in> set (hy_in_flight st)" using inv by (simp add: history_inv_def)
  moreover have "m = n" if "(n, i) \<in> set (hy_workers st)" "(m, i) \<in> set (hy_workers st)"
    using history_inv_worker [OF inv that(1)] history_inv_worker [OF inv that(2)] by simp
  ultimately show ?thesis by blast
qed

theorem one_worker_per_request_witness:
  "(0, 7) \<in> set (hy_workers (reconcile_request (\<lambda>_. True) listed_request history_init))
   \<and> (7, 0) \<in> set (hy_in_flight (reconcile_request (\<lambda>_. True) listed_request history_init))"
proof -
  let ?st = "reconcile_request (\<lambda>_. True) listed_request history_init"
  have reach: "kept_history_reach (\<lambda>_. True) ?st"
    unfolding kept_history_reach_def by (rule r_into_rtranclp) (rule kept_history_step.request)
  have "(0, 7) \<in> set (hy_workers ?st)" by code_simp
  with one_worker_per_request [OF reach, of 0 7 0] show ?thesis by simp
qed

definition history_step_once :: "historical_request list \<Rightarrow> history_state \<Rightarrow> history_state" where
  "history_step_once = history_reconcile_once (\<lambda>_. True)"

text \<open>
  A request that is left out of one listing and listed again gets a second worker, and then a
  third: the end of the cancelled first worker deletes the entry of the second, which is no longer
  in flight although it runs and was not cancelled.
\<close>

theorem relisted_request_runs_twice:
  "(let st1 = history_step_once [listed_request] history_init;
        st2 = history_step_once [listed_request] (history_step_once [] st1);
        st3 = history_step_once [listed_request] (worker_done 0 st2)
    in hy_workers st3 = [(2, 7), (1, 7)] \<and> hy_cancelled st3 = {0} \<and> hy_in_flight st3 = [(7, 2)])"
  by code_simp

end
