(* ===== verification/Control_Client.thy ===== *)
theory Control_Client
  imports Control_Live Control_History
begin

text \<open>
  The gRPC client of the control plane (\<open>internal/controlplane/client.go\<close>): five calls and \<open>Close\<close>. The
  generated stub is the parameter \<open>control_rpc\<close>; a call gets the time it may take, if its context has a
  deadline. A protobuf timestamp is the time it holds.
\<close>

record proto_state_report =
  qs_id :: int
  qs_actual_state :: string
  qs_last_error :: string
  qs_last_data_at :: "time option"

record proto_history_report =
  qh_id :: int
  qh_status :: string
  qh_last_error :: string
  qh_covered_start :: "time option"
  qh_covered_end :: "time option"

record proto_segment =
  qg_key :: "stream_key option"
  qg_year :: int
  qg_start :: "time option"
  qg_end :: "time option"
  qg_rows :: int
  qg_source :: string

record 'w control_rpc =
  gr_list_streams :: "duration option \<Rightarrow> 'w \<Rightarrow> proto_stream option list res \<times> 'w"
  gr_list_requests :: "duration option \<Rightarrow> bool \<Rightarrow> 'w \<Rightarrow> proto_request option list res \<times> 'w"
  gr_report_state :: "duration option \<Rightarrow> proto_state_report \<Rightarrow> 'w \<Rightarrow> go_error option \<times> 'w"
  gr_report_history :: "duration option \<Rightarrow> proto_history_report \<Rightarrow> 'w \<Rightarrow> go_error option \<times> 'w"
  gr_report_segments :: "duration option \<Rightarrow> proto_segment list \<Rightarrow> 'w \<Rightarrow> go_error option \<times> 'w"
  gr_close :: "'w \<Rightarrow> go_error option \<times> 'w"

record 'w grpc_client =
  gc_rpc :: "'w control_rpc"
  gc_timeout :: duration

definition new_grpc_client :: "(string \<Rightarrow> 'w control_rpc res) \<Rightarrow> string \<Rightarrow> duration \<Rightarrow> 'w grpc_client res" where
  "new_grpc_client dial addr timeout =
     (let a = trim_space addr
      in if a = [] then Inl (Err ''control-plane grpc target is required'')
         else (case dial a of
             Inl e \<Rightarrow> Inl (Wrapped (''dial control-plane grpc target '' @ go_quote a) e)
           | Inr rpc \<Rightarrow> Inr \<lparr>gc_rpc = rpc, gc_timeout = (if timeout \<le> 0 then 5 * second else timeout)\<rparr>))"

text \<open>The earlier of the caller's deadline and the client's own timeout.\<close>

definition with_timeout :: "'w grpc_client \<Rightarrow> duration option \<Rightarrow> duration option" where
  "with_timeout c parent =
     (if gc_timeout c \<le> 0 then parent
      else Some (case parent of None \<Rightarrow> gc_timeout c | Some d \<Rightarrow> min d (gc_timeout c)))"

subsection \<open>The calls\<close>

definition list_streams :: "'w grpc_client \<Rightarrow> duration option \<Rightarrow> 'w \<Rightarrow> stream list res \<times> 'w" where
  "list_streams c parent w =
     (case gr_list_streams (gc_rpc c) (with_timeout c parent) w of
        (Inl e, w1) \<Rightarrow> (Inl (Wrapped ''list market-data streams'' e), w1)
      | (Inr ms, w1) \<Rightarrow> (Inr (map from_proto_stream ms), w1))"

definition list_historical_requests :: "'w grpc_client \<Rightarrow> duration option \<Rightarrow> bool \<Rightarrow> 'w \<Rightarrow> historical_request list res \<times> 'w" where
  "list_historical_requests c parent terminal_too w =
     (case gr_list_requests (gc_rpc c) (with_timeout c parent) terminal_too w of
        (Inl e, w1) \<Rightarrow> (Inl (Wrapped ''list market-data history requests'' e), w1)
      | (Inr ms, w1) \<Rightarrow> (Inr (map from_proto_historical_request ms), w1))"

definition state_message :: "stream_state_report \<Rightarrow> proto_state_report" where
  "state_message r = \<lparr>qs_id = sr_id r, qs_actual_state = sr_actual_state r, qs_last_error = sr_last_error r,
     qs_last_data_at = sr_last_data_at r\<rparr>"

definition report_state :: "'w grpc_client \<Rightarrow> duration option \<Rightarrow> stream_state_report \<Rightarrow> 'w \<Rightarrow> go_error option \<times> 'w" where
  "report_state c parent r w =
     (case gr_report_state (gc_rpc c) (with_timeout c parent) (state_message r) w of
        (Some e, w1) \<Rightarrow> (Some (Wrapped (''report stream '' @ itoa (sr_id r) @ '' state '' @ go_quote (sr_actual_state r)) e), w1)
      | (None, w1) \<Rightarrow> (None, w1))"

definition history_message :: "history_report \<Rightarrow> proto_history_report" where
  "history_message r = \<lparr>qh_id = hs_id r, qh_status = hs_status r, qh_last_error = hs_last_error r,
     qh_covered_start = hs_covered_start r, qh_covered_end = hs_covered_end r\<rparr>"

definition report_historical_state :: "'w grpc_client \<Rightarrow> duration option \<Rightarrow> history_report \<Rightarrow> 'w \<Rightarrow> go_error option \<times> 'w" where
  "report_historical_state c parent r w =
     (case gr_report_history (gc_rpc c) (with_timeout c parent) (history_message r) w of
        (Some e, w1) \<Rightarrow> (Some (Wrapped (''report history request '' @ itoa (hs_id r) @ '' state '' @ go_quote (hs_status r)) e), w1)
      | (None, w1) \<Rightarrow> (None, w1))"

definition segment_message :: "coverage_segment_report \<Rightarrow> proto_segment" where
  "segment_message r = \<lparr>qg_key = Some (cr_key r), qg_year = cr_year r, qg_start = Some (cr_start r), qg_end = Some (cr_end r),
     qg_rows = cr_rows r, qg_source = cr_source r\<rparr>"

definition report_coverage_segments ::
  "'w grpc_client \<Rightarrow> duration option \<Rightarrow> coverage_segment_report list \<Rightarrow> 'w \<Rightarrow> go_error option \<times> 'w" where
  "report_coverage_segments c parent rs w =
     (if rs = [] then (None, w)
      else (case gr_report_segments (gc_rpc c) (with_timeout c parent) (map segment_message rs) w of
          (Some e, w1) \<Rightarrow> (Some (Wrapped ''report market-data coverage segments'' e), w1)
        | (None, w1) \<Rightarrow> (None, w1)))"

text \<open>\<open>Close\<close> of a client that may be nil.\<close>

definition close_client :: "'w grpc_client option \<Rightarrow> 'w \<Rightarrow> go_error option \<times> 'w" where
  "close_client c w = (case c of None \<Rightarrow> (None, w) | Some k \<Rightarrow> gr_close (gc_rpc k) w)"

subsection \<open>Lemmas\<close>

lemma with_timeout_bounded: "0 < gc_timeout c \<Longrightarrow> \<exists>d. with_timeout c parent = Some d \<and> d \<le> gc_timeout c"
  by (cases parent) (auto simp: with_timeout_def)

lemma new_grpc_client_timeout: "new_grpc_client dial addr timeout = Inr c \<Longrightarrow> 0 < gc_timeout c"
  by (auto simp: new_grpc_client_def Let_def second_def split: if_splits sum.splits)

lemma listed_streams_normal: "list_streams c parent w = (Inr ss, w') \<Longrightarrow> map normalize_stream ss = ss"
  by (auto simp: list_streams_def normalize_from_proto split: prod.splits sum.splits)

lemma segment_message_inj: "segment_message r = segment_message q \<longleftrightarrow> r = q"
  by (auto simp: segment_message_def intro: coverage_segment_report.equality)

lemma history_message_inj: "history_message r = history_message q \<longleftrightarrow> r = q"
  by (auto simp: history_message_def intro: history_report.equality)

text \<open>The environment of a worker whose reports go through the client.\<close>

definition client_history_env :: "'w history_env \<Rightarrow> 'w grpc_client \<Rightarrow> 'w history_env" where
  "client_history_env env c = env\<lparr>he_report := report_historical_state c None,
     he_report_segments := report_coverage_segments c None\<rparr>"

subsection \<open>What the control plane receives\<close>

datatype history_wire = State_Wire proto_history_report | Segments_Wire "proto_segment list"

definition wire :: "history_call \<Rightarrow> history_wire" where
  "wire c = (case c of State_Report r \<Rightarrow> State_Wire (history_message r) | Segments_Report rs \<Rightarrow> Segments_Wire (map segment_message rs))"

text \<open>
  A control plane that keeps the list of the messages it was sent, whatever it answers; checking the
  coverage and back-filling sends it nothing.
\<close>

locale wire_log =
  fixes rpc :: "'w control_rpc" and env :: "'w history_env" and sent :: "'w \<Rightarrow> history_wire list"
  assumes state: "gr_report_history rpc t m w = (e, w') \<Longrightarrow> sent w' = sent w @ [State_Wire m]"
    and segments: "gr_report_segments rpc t ms w = (e, w') \<Longrightarrow> sent w' = sent w @ [Segments_Wire ms]"
    and verify: "he_verify env r w = (v, w') \<Longrightarrow> sent w' = sent w"
    and backfill: "he_backfill env r w = (b, w') \<Longrightarrow> sent w' = sent w"
begin

lemma report_sends:
  assumes "gc_rpc c = rpc"
  shows "report_historical (client_history_env env c) rep w = (calls, w') \<Longrightarrow> sent w' = sent w @ map wire calls"
    and "he_report_segments (client_history_env env c) rs w = (e, w') \<Longrightarrow> rs \<noteq> [] \<Longrightarrow> sent w' = sent w @ [wire (Segments_Report rs)]"
    and "he_verify (client_history_env env c) r w = (v, w') \<Longrightarrow> sent w' = sent w"
    and "he_backfill (client_history_env env c) r w = (b, w') \<Longrightarrow> sent w' = sent w"
  by (auto simp: assms report_historical_def client_history_env_def report_historical_state_def report_coverage_segments_def
      wire_def verify backfill split: prod.splits option.splits dest: state segments)

lemma finish_request_sends:
  assumes "gc_rpc c = rpc" and "finish_request (client_history_env env c) req r cov w = (calls, w')"
  shows "sent w' = sent w @ map wire calls"
  using assms(2) report_sends [OF assms(1)]
  by (auto simp: finish_request_def Let_def split: prod.splits sum.splits)

lemma run_request_sends:
  assumes "gc_rpc c = rpc" and "run_request (client_history_env env c) req a b w = (calls, w')"
  shows "sent w' = sent w @ map wire calls"
  using assms(2) report_sends [OF assms(1)] finish_request_sends [OF assms(1)]
  by (auto simp: run_request_def Let_def coverage_reports_from_segments_def split: prod.splits sum.splits option.splits if_splits)

end

subsection \<open>A reference control plane\<close>

definition logged_env :: "'w history_env \<Rightarrow> ('w \<times> history_wire list) history_env" where
  "logged_env env = \<lparr>he_verify = (\<lambda>r (w, l). case he_verify env r w of (v, w1) \<Rightarrow> (v, (w1, l))),
     he_backfill = (\<lambda>r (w, l). case he_backfill env r w of (b, w1) \<Rightarrow> (b, (w1, l))),
     he_report = (\<lambda>_ w. (None, w)), he_report_segments = (\<lambda>_ w. (None, w))\<rparr>"

definition log_rpc :: "('w \<times> history_wire list) control_rpc" where
  "log_rpc = \<lparr>gr_list_streams = (\<lambda>t w. (Inr [], w)), gr_list_requests = (\<lambda>t b w. (Inr [], w)),
     gr_report_state = (\<lambda>t m w. (None, w)), gr_report_history = (\<lambda>t m (w, l). (None, (w, l @ [State_Wire m]))),
     gr_report_segments = (\<lambda>t ms (w, l). (None, (w, l @ [Segments_Wire ms]))), gr_close = (\<lambda>w. (None, w))\<rparr>"

interpretation wire_ref: wire_log log_rpc "logged_env env" snd for env
  by unfold_locales (auto simp: logged_env_def log_rpc_def split: prod.splits)

subsection \<open>Properties\<close>

definition terminal_wire :: "history_wire \<Rightarrow> bool" where
  "terminal_wire m \<longleftrightarrow> (case m of State_Wire r \<Rightarrow> qh_status r \<in> {''ready'', ''error''} | Segments_Wire _ \<Rightarrow> False)"

lemma terminal_wire: "terminal_wire (wire c) \<longleftrightarrow> terminal c"
  by (cases c) (simp_all add: terminal_wire_def wire_def terminal_def history_message_def)

text \<open>When a message says what a worker's call says: the fields one by one, and every segment in its order.\<close>

definition carries_segment :: "coverage_segment_report \<Rightarrow> proto_segment \<Rightarrow> bool" where
  "carries_segment r g \<longleftrightarrow> qg_key g = Some (cr_key r) \<and> qg_year g = cr_year r \<and> qg_start g = Some (cr_start r)
     \<and> qg_end g = Some (cr_end r) \<and> qg_rows g = cr_rows r \<and> qg_source g = cr_source r"

definition carries :: "history_call \<Rightarrow> history_wire \<Rightarrow> bool" where
  "carries c m \<longleftrightarrow> (case (c, m) of
       (State_Report r, State_Wire p) \<Rightarrow> qh_id p = hs_id r \<and> qh_status p = hs_status r \<and> qh_last_error p = hs_last_error r
         \<and> qh_covered_start p = hs_covered_start r \<and> qh_covered_end p = hs_covered_end r
     | (Segments_Report rs, Segments_Wire gs) \<Rightarrow> list_all2 carries_segment rs gs
     | _ \<Rightarrow> False)"

lemma carries_wire: "carries c (wire c)"
  by (cases c) (simp_all add: carries_def wire_def history_message_def list.rel_map list.rel_refl carries_segment_def segment_message_def)

lemma carries_all: "list_all2 carries calls (map wire calls)"
  by (simp add: list.rel_map list.rel_refl carries_wire)

text \<open>
  C9. The control plane hears what the worker reports, and of exactly one outcome of a request: over the
  gRPC client, the messages it is sent are the worker's calls, one for one and in order, each with
  all the fields of the report and every coverage segment; they are some that are not terminal, then one report of the
  request with status ready or error; a ready one carries the range that a ready coverage check found.
\<close>

theorem control_plane_hears_one_outcome:
  assumes "wire_log rpc env sent" and "gc_rpc c = rpc"
    and "run_request (client_history_env env c) req a b w = (calls, w')"
  shows "\<exists>pre m. sent w' = sent w @ pre @ [State_Wire m] \<and> list_all2 carries calls (pre @ [State_Wire m])
    \<and> list_all (\<lambda>x. \<not> terminal_wire x) pre
    \<and> qh_id m = hr_id req \<and> terminal_wire (State_Wire m)
    \<and> (qh_status m \<noteq> ''ready'' \<or> (\<exists>w0 w1 cov. he_verify env (request_of req a b) w0 = (Inr cov, w1) \<and> cov_ready cov
         \<and> qh_covered_start m = cov_start cov \<and> qh_covered_end m = cov_end cov))"
proof -
  have ended: "well_ended (client_history_env env c) req (request_of req a b) calls w'"
    by (rule run_request_ended [OF assms(3)])
  then obtain pre rep where rep: "calls = pre @ [State_Report rep]" "terminal (State_Report rep)"
    "\<forall>x \<in> set pre. \<not> terminal x" "hs_id rep = hr_id req"
    and ready: "hs_status rep = ''ready'' \<Longrightarrow> \<exists>w0 w1 cov. he_verify env (request_of req a b) w0 = (Inr cov, w1)
      \<and> cov_ready cov \<and> hs_covered_start rep = cov_start cov \<and> hs_covered_end rep = cov_end cov"
    unfolding well_ended_def client_history_env_def by (clarsimp) metis
  have all: "map wire calls = map wire pre @ [State_Wire (history_message rep)]" using rep(1) by (simp add: wire_def)
  then have "sent w' = sent w @ map wire pre @ [State_Wire (history_message rep)]"
    using wire_log.run_request_sends [OF assms] by simp
  moreover have "list_all2 carries calls (map wire pre @ [State_Wire (history_message rep)])"
    using carries_all [of calls] unfolding all .
  moreover have "terminal_wire (State_Wire (history_message rep))"
    using rep(2) terminal_wire [of "State_Report rep"] by (simp add: wire_def)
  moreover have "list_all (\<lambda>x. \<not> terminal_wire x) (map wire pre)"
    using rep(3) by (simp add: list_all_iff terminal_wire)
  ultimately show ?thesis using rep(4) ready
    by (intro exI [of _ "map wire pre"] exI [of _ "history_message rep"]) (auto simp: history_message_def)
qed

definition log_client :: "('w \<times> history_wire list) grpc_client" where
  "log_client = \<lparr>gc_rpc = log_rpc, gc_timeout = 5 * second\<rparr>"

text \<open>The first two minutes of 2026 are stored: one message, "ready".\<close>

theorem control_plane_hears_one_outcome_witness:
  "\<exists>m. snd (snd (run_request (client_history_env (logged_env (model_env (site_env []) (\<lambda>s. (0, None)) site_adm site_query []
        (\<lambda>_ w. (None, w)) (\<lambda>_ w. (None, w)))) log_client) listed_request 1767225600000000000 1767225720000000000
      (year_site ''spot_klines_btcusdt_1m'' [1767225660000000000, 1767225600000000000], []))) = [State_Wire m]
    \<and> qh_id m = 7"
proof -
  let ?env = "model_env (site_env []) (\<lambda>s. (0, None)) site_adm site_query [] (\<lambda>_ w. (None, w)) (\<lambda>_ w. (None, w))"
  let ?w = "(year_site ''spot_klines_btcusdt_1m'' [1767225660000000000, 1767225600000000000], [])"
  let ?run = "run_request (client_history_env (logged_env ?env) log_client) listed_request 1767225600000000000 1767225720000000000 ?w"
  have one: "length (snd (snd ?run)) = 1" by code_simp
  obtain calls w' where run: "?run = (calls, w')" by (meson surj_pair)
  have "gc_rpc log_client = log_rpc" by (simp add: log_client_def)
  from control_plane_hears_one_outcome [OF wire_ref.wire_log_axioms this run] obtain pre m where
    m: "snd w' = [] @ pre @ [State_Wire m]" "qh_id m = hr_id listed_request" by auto
  with one run show ?thesis by (auto simp: listed_request_def)
qed

end
