(* ===== verification/Service_Config.thy ===== *)
theory Service_Config
  imports Storage_Names
begin

text \<open>
  The configuration (\<open>internal/config/config.go\<close>) and the choice of the databases that
  \<open>cmd/ensure-scraper-db\<close> prepares. Reading the file and decoding YAML are outside the model; the
  environment variables are an argument. \<open>Validate\<close> changes the configuration in place and its only
  caller drops it on an error, so it is a function to a result.
\<close>

subsection \<open>The configuration\<close>

record forward_config =
  fw_spot_kline :: bool
  fw_futures_kline :: bool
  fw_spot_order_book :: bool
  fw_futures_order_book :: bool
  fw_funding_rate :: bool
  fw_open_interest :: bool

record reverse_config =
  rv_spot_kline :: bool
  rv_futures_kline :: bool
  rv_spot_order_book :: bool
  rv_futures_order_book :: bool
  rv_funding_rate :: bool
  rv_open_interest :: bool
  rv_start_time :: string
  rv_end_time :: string

record database_config =
  dc_host :: string
  dc_port :: int
  dc_user :: string
  dc_password :: string
  dc_dbname :: string
  dc_sslmode :: string

record exchange_config =
  ec_enabled :: bool
  ec_database :: database_config
  ec_spot_symbols :: "string list"
  ec_futures_symbols :: "string list"
  ec_kline_interval :: string
  ec_kline_intervals :: "string list"
  ec_depth_interval :: string
  ec_forward :: forward_config
  ec_reverse :: reverse_config

record kafka_config =
  kf_enabled :: bool
  kf_brokers :: "string list"

record control_plane_config =
  cp_enabled :: bool
  cp_grpc :: string
  cp_reconcile_seconds :: int
  cp_draining_seconds :: int
  cp_timeout_seconds :: int

record config =
  cf_mode :: string
  cf_binance :: exchange_config
  cf_okx :: exchange_config
  cf_kafka :: kafka_config
  cf_control_plane :: control_plane_config
  cf_scraper_interval :: int
  cf_shutdown_timeout :: int

definition connection_string :: "database_config \<Rightarrow> string" where
  "connection_string c = ''host='' @ dc_host c @ '' port='' @ itoa (dc_port c) @ '' user='' @ dc_user c
     @ '' password='' @ dc_password c @ '' dbname='' @ dc_dbname c @ '' sslmode='' @ dc_sslmode c"

definition normalize_list :: "string list \<Rightarrow> string list" where
  "normalize_list vs = filter (\<lambda>v. v \<noteq> []) (map trim_space vs)"

text \<open>\<open>strings.EqualFold\<close> on ASCII text.\<close>

definition equal_fold :: "string \<Rightarrow> string \<Rightarrow> bool" where
  "equal_fold a b \<longleftrightarrow> to_lower a = to_lower b"

definition validate_database_target :: "string \<Rightarrow> string \<Rightarrow> go_error option" where
  "validate_database_target exchange db_name =
     (let d = trim_space db_name
      in if d = [] then None
         else if equal_fold d exchange
         then Some (Err (exchange @ '' database.dbname must target a year database template, not fixed '' @ go_quote d))
         else None)"

definition validate_exchange :: "config \<Rightarrow> string \<Rightarrow> exchange_config \<Rightarrow> go_error option" where
  "validate_exchange c name ec =
     (if ec_enabled ec \<and> \<not> cp_enabled (cf_control_plane c) \<and> ec_spot_symbols ec = [] \<and> ec_futures_symbols ec = []
      then Some (Err (name @ '' is enabled but no symbols configured''))
      else if ec_enabled ec then validate_database_target name (dc_dbname (ec_database ec)) else None)"

definition default_intervals :: "exchange_config \<Rightarrow> exchange_config" where
  "default_intervals ec = (if ec_kline_intervals ec = [] then ec\<lparr>ec_kline_intervals := [''1m'']\<rparr> else ec)"

definition default_positive :: "int \<Rightarrow> int \<Rightarrow> int" where
  "default_positive d v = (if v \<le> 0 then d else v)"

definition validate_config :: "config \<Rightarrow> config res" where
  "validate_config c0 =
     (let mode = (let m = norm_lower (cf_mode c0) in if m = [] then ''forward'' else m);
          cp = cf_control_plane c0;
          brokers = normalize_list (kf_brokers (cf_kafka c0));
          target = trim_space (cp_grpc cp)
      in if mode \<noteq> ''forward'' \<and> mode \<noteq> ''reverse'' then Inl (Err ''mode must be either forward or reverse'')
         else if \<not> ec_enabled (cf_binance c0) \<and> \<not> ec_enabled (cf_okx c0)
         then Inl (Err ''at least one exchange must be enabled'')
         else (case validate_exchange c0 ''binance'' (cf_binance c0) of
             Some e \<Rightarrow> Inl e
           | None \<Rightarrow>
             (case validate_exchange c0 ''okx'' (cf_okx c0) of
                Some e \<Rightarrow> Inl e
              | None \<Rightarrow>
                if kf_enabled (cf_kafka c0) \<and> brokers = []
                then Inl (Err ''market_data.kafka is enabled but no brokers configured'')
                else if cp_enabled cp \<and> mode \<noteq> ''forward''
                then Inl (Err ''market_data.control_plane is only supported in forward mode'')
                else if cp_enabled cp \<and> target = []
                then Inl (Err ''market_data.control_plane.market_data_control_panel_grpc is required when control plane is enabled'')
                else Inr (c0\<lparr>cf_mode := mode,
                  cf_shutdown_timeout := default_positive 30 (cf_shutdown_timeout c0),
                  cf_kafka := (cf_kafka c0)\<lparr>kf_brokers := brokers\<rparr>,
                  cf_control_plane := cp\<lparr>cp_grpc := target,
                    cp_reconcile_seconds := default_positive 5 (cp_reconcile_seconds cp),
                    cp_draining_seconds := default_positive 60 (cp_draining_seconds cp),
                    cp_timeout_seconds := default_positive 15 (cp_timeout_seconds cp)\<rparr>,
                  cf_binance := default_intervals (cf_binance c0),
                  cf_okx := default_intervals (cf_okx c0)\<rparr>))))"

subsection \<open>The databases to prepare\<close>

text \<open>\<open>strings.Split(raw, ",")\<close>.\<close>

fun split_comma :: "string \<Rightarrow> string list" where
  "split_comma [] = [[]]"
| "split_comma (c # cs) =
     (if c = CHR '','' then [] # split_comma cs
      else (case split_comma cs of [] \<Rightarrow> [[c]] | p # ps \<Rightarrow> (c # p) # ps))"

definition split_csv :: "string \<Rightarrow> string list" where
  "split_csv raw = filter (\<lambda>p. p \<noteq> []) (map trim_space (split_comma raw))"

fun parse_years :: "string list \<Rightarrow> int list res" where
  "parse_years [] = Inr []"
| "parse_years (p # ps) =
     (case atoi p of
        None \<Rightarrow> Inl (Err (''invalid scraper year '' @ go_quote p))
      | Some y \<Rightarrow>
        if y < 1970 \<or> 9999 < y then Inl (Err (''invalid scraper year '' @ go_quote p))
        else (case parse_years ps of Inl e \<Rightarrow> Inl e | Inr ys \<Rightarrow> Inr (y # ys)))"

definition target_years :: "string \<Rightarrow> int list res" where
  "target_years raw =
     (case parse_years (split_csv raw) of
        Inl e \<Rightarrow> Inl e
      | Inr ys \<Rightarrow> if ys = [] then Inl (Err ''no scraper years configured'') else Inr ys)"

definition invalid_year_database :: "string \<Rightarrow> go_error option" where
  "invalid_year_database name = Some (Err (''invalid exchange-year database '' @ go_quote name))"

text \<open>The body of the loop over the exchanges: \<open>None\<close> when the name has another prefix.\<close>

definition check_year_part :: "string \<Rightarrow> string \<Rightarrow> (go_error option) option" where
  "check_year_part exchange name =
     (let prefix = exchange @ ''_''
      in if \<not> has_prefix name prefix then None
         else (let part = drop (length prefix) name
               in case atoi part of
                 None \<Rightarrow> Some (invalid_year_database name)
               | Some y \<Rightarrow> if length part \<noteq> 4 \<or> y < 1970 then Some (invalid_year_database name) else Some None))"

definition validate_exchange_year_database :: "string \<Rightarrow> go_error option" where
  "validate_exchange_year_database name =
     (if name = ''binance'' \<or> name = ''okx''
      then Some (Err (''fixed exchange database '' @ go_quote name @ '' is no longer supported; use '' @ name @ ''_<year>''))
      else (case check_year_part ''binance'' name of
          Some r \<Rightarrow> r
        | None \<Rightarrow>
          (case check_year_part ''okx'' name of
             Some r \<Rightarrow> r
           | None \<Rightarrow> Some (Err (''unsupported scraper database '' @ go_quote name @ ''; expected {exchange}_{year}'')))))"

fun validate_all :: "string list \<Rightarrow> string list res" where
  "validate_all [] = Inr []"
| "validate_all (d # ds) =
     (case validate_exchange_year_database d of
        Some e \<Rightarrow> Inl e
      | None \<Rightarrow> (case validate_all ds of Inl e \<Rightarrow> Inl e | Inr ts \<Rightarrow> Inr (d # ts)))"

fun exchange_targets :: "int list \<Rightarrow> string list \<Rightarrow> string list res" where
  "exchange_targets ys [] = Inr []"
| "exchange_targets ys (x # xs) =
     (if x \<noteq> ''binance'' \<and> x \<noteq> ''okx'' then Inl (Err (''unsupported scraper exchange '' @ go_quote x))
      else (case exchange_targets ys xs of
          Inl e \<Rightarrow> Inl e
        | Inr ts \<Rightarrow> Inr (map (\<lambda>y. x @ ''_'' @ itoa y) ys @ ts)))"

definition getenv :: "(string \<Rightarrow> string) \<Rightarrow> string \<Rightarrow> string \<Rightarrow> string" where
  "getenv env k d = (if env k \<noteq> [] then env k else d)"

definition target_databases :: "(string \<Rightarrow> string) \<Rightarrow> int \<Rightarrow> string list res" where
  "target_databases env current_year =
     (let raw = trim_space (env ''SCRAPER_DBS'')
      in if raw \<noteq> [] then validate_all (split_csv raw)
         else (case target_years (getenv env ''SCRAPER_YEARS'' (itoa current_year)) of
             Inl e \<Rightarrow> Inl e
           | Inr ys \<Rightarrow>
             (case exchange_targets ys (split_csv (getenv env ''SCRAPER_EXCHANGES'' ''binance,okx'')) of
                Inl e \<Rightarrow> Inl e
              | Inr ts \<Rightarrow> if ts = [] then Inl (Err ''no scraper target databases configured'') else Inr ts)))"

definition is_valid_ident :: "string \<Rightarrow> bool" where
  "is_valid_ident s \<longleftrightarrow> s \<noteq> [] \<and> length s \<le> 63 \<and> (is_letter (hd s) \<or> hd s = CHR ''_'')
     \<and> (\<forall>c \<in> set s. is_letter c \<or> is_digit c \<or> c = CHR ''_'')"

subsection \<open>Lemmas\<close>

lemma default_positive_pos: "0 < d \<Longrightarrow> 0 < default_positive d v"
  by (simp add: default_positive_def)

lemma default_positive_idem [simp]: "0 < d \<Longrightarrow> default_positive d (default_positive d v) = default_positive d v"
  by (simp add: default_positive_def)

lemma default_intervals_idem [simp]: "default_intervals (default_intervals ec) = default_intervals ec"
  by (simp add: default_intervals_def)

lemma default_intervals_keeps [simp]:
  "ec_enabled (default_intervals ec) = ec_enabled ec" "ec_database (default_intervals ec) = ec_database ec"
  "ec_spot_symbols (default_intervals ec) = ec_spot_symbols ec"
  "ec_futures_symbols (default_intervals ec) = ec_futures_symbols ec"
  "ec_kline_intervals (default_intervals ec) \<noteq> []"
  by (simp_all add: default_intervals_def)

lemma normalize_list_idem [simp]: "normalize_list (normalize_list vs) = normalize_list vs"
  by (induction vs) (simp_all add: normalize_list_def)

text \<open>What the validation found, for one exchange and for the rest of the configuration.\<close>

lemma validate_exchange_target:
  assumes "validate_exchange c name ec = None" "ec_enabled ec"
  shows "\<not> equal_fold (trim_space (dc_dbname (ec_database ec))) name \<or> trim_space (dc_dbname (ec_database ec)) = []"
  using assms by (auto simp: validate_exchange_def validate_database_target_def Let_def split: if_splits)

lemma validate_config_Inr:
  assumes "validate_config c0 = Inr c"
  obtains "validate_exchange c0 ''binance'' (cf_binance c0) = None" "validate_exchange c0 ''okx'' (cf_okx c0) = None"
    "cf_binance c = default_intervals (cf_binance c0)" "cf_okx c = default_intervals (cf_okx c0)"
    "cf_mode c = ''forward'' \<or> cf_mode c = ''reverse''"
    "ec_enabled (cf_binance c) \<or> ec_enabled (cf_okx c)"
    "cp_enabled (cf_control_plane c) = cp_enabled (cf_control_plane c0)"
    "cp_enabled (cf_control_plane c) \<Longrightarrow> cf_mode c = ''forward'' \<and> cp_grpc (cf_control_plane c) \<noteq> []"
    "kf_enabled (cf_kafka c) \<Longrightarrow> kf_brokers (cf_kafka c) \<noteq> []"
    "normalize_list (kf_brokers (cf_kafka c)) = kf_brokers (cf_kafka c)"
    "trim_space (cp_grpc (cf_control_plane c)) = cp_grpc (cf_control_plane c)"
    "cp_reconcile_seconds (cf_control_plane c) > 0" "cp_draining_seconds (cf_control_plane c) > 0"
    "cp_timeout_seconds (cf_control_plane c) > 0" "cf_shutdown_timeout c > 0"
  using assms default_positive_pos [of 5] default_positive_pos [of 60] default_positive_pos [of 15]
    default_positive_pos [of 30]
  by (auto simp: validate_config_def Let_def split: if_splits option.splits)

lemma database_name_ok:
  assumes "norm_lower e \<noteq> []" "1970 \<le> y" "trim_space t \<noteq> norm_lower e"
  shows "\<exists>db. database_name_for_year t e y = Inr db"
  using assms by (auto simp: database_name_for_year_def Let_def)

lemma equal_fold_of_norm: "trim_space t = norm_lower e \<Longrightarrow> norm_lower e = e \<Longrightarrow> equal_fold (trim_space t) e"
  by (simp add: equal_fold_def)

lemma validate_exchange_again:
  "validate_exchange c0 name ec = None \<Longrightarrow> cp_enabled (cf_control_plane c) = cp_enabled (cf_control_plane c0)
    \<Longrightarrow> validate_exchange c name (default_intervals ec) = None"
  by (simp add: validate_exchange_def split: if_splits)

text \<open>Four digits are the decimal representation of a year, unless they begin with a zero.\<close>

lemma digits_val_snoc: "digits_val (s @ [c]) = 10 * digits_val s + digit_val c"
  by (simp add: digits_val_def)

lemma digit_char_val: "is_digit c \<Longrightarrow> digit_char (digit_val c) = c"
  by (rule char_eqI) (auto simp: digit_char_def digit_val_def is_digit_def Let_def)

lemma digit_val_less: "is_digit c \<Longrightarrow> digit_val c < 10"
  by (auto simp: digit_val_def is_digit_def Let_def)

lemma itoa_nat_snoc: "0 < n \<Longrightarrow> d < 10 \<Longrightarrow> itoa_nat (10 * n + d) = itoa_nat n @ [digit_char d]"
  by (subst itoa_nat.simps) simp

lemma itoa_digits_val:
  assumes "s \<noteq> []" "\<forall>c \<in> set s. is_digit c" "0 < digit_val (hd s)"
  shows "itoa_nat (digits_val s) = s \<and> 0 < digits_val s"
  using assms
proof (induction s rule: rev_induct)
  case (snoc c s)
  then have c: "is_digit c" by simp
  show ?case
  proof (cases "s = []")
    case True
    with snoc c show ?thesis
      by (subst itoa_nat.simps) (simp add: digits_val_def digit_char_val digit_val_less)
  next
    case False
    with snoc.IH snoc.prems have "itoa_nat (digits_val s) = s" "0 < digits_val s" by simp_all
    with c show ?thesis by (simp add: digits_val_snoc itoa_nat_snoc digit_val_less digit_char_val)
  qed
qed simp

lemma digits_val_bound: "\<forall>c \<in> set s. is_digit c \<Longrightarrow> digits_val s < 10 ^ length s"
proof (induction s rule: rev_induct)
  case (snoc c s)
  then show ?case using digit_val_less [of c] by (simp add: digits_val_snoc)
qed (simp add: digits_val_def)

lemma digits_val_Cons: "digits_val (c # s) = digit_val c * 10 ^ length s + digits_val s"
proof (induction s rule: rev_induct)
  case (snoc d s)
  then show ?case using digits_val_snoc [of "c # s" d] by (simp add: digits_val_snoc)
qed (simp add: digits_val_def)

lemma length_itoa_year: "1970 \<le> y \<Longrightarrow> y \<le> 9999 \<Longrightarrow> length (itoa y) = 4"
proof -
  assume "1970 \<le> y" "y \<le> 9999"
  then have n: "1000 \<le> nat y" "nat y < 10000" and y: "itoa y = itoa_nat (nat y)" by (simp_all add: itoa_def)
  have r: "itoa_nat k = itoa_nat (k div 10) @ [digit_char (k mod 10)]" if "10 \<le> k" for k
    using that by (subst itoa_nat.simps) simp
  have "itoa_nat (nat y div 10 div 10 div 10) = [digit_char (nat y div 10 div 10 div 10)]"
  proof -
    have "nat y div 10 div 10 div 10 < 10"
      using n(2) by (simp add: div_mult2_eq [symmetric] less_mult_imp_div_less)
    then show ?thesis by (subst itoa_nat.simps) (simp only: if_True)
  qed
  then show ?thesis using n r [of "nat y"] r [of "nat y div 10"] r [of "nat y div 10 div 10"] y by simp
qed

lemma atoi_year: "1970 \<le> y \<Longrightarrow> y \<le> 9999 \<Longrightarrow> atoi (itoa y) = Some y"
  by (rule atoi_itoa) simp_all

lemma atoi_cases:
  assumes "atoi s = Some y" "0 \<le> y"
  obtains "s \<noteq> []" "\<forall>c \<in> set s. is_digit c" "y = int (digits_val s)"
  | t where "s = CHR ''+'' # t" "\<forall>c \<in> set t. is_digit c" "y = int (digits_val t)"
  | "y = 0"
  using assms by (cases s) (auto simp: atoi_def Let_def split: if_splits)

lemma four_digit_year: "(atoi s = Some y \<and> length s = 4 \<and> 1970 \<le> y) \<longleftrightarrow> (s = itoa y \<and> 1970 \<le> y \<and> y \<le> 9999)"
proof
  assume h: "atoi s = Some y \<and> length s = 4 \<and> 1970 \<le> y"
  then have "atoi s = Some y" "0 \<le> y" by simp_all
  then show "s = itoa y \<and> 1970 \<le> y \<and> y \<le> 9999"
  proof (cases rule: atoi_cases)
    case 1
    obtain c t where s: "s = c # t" using 1(1) by (cases s) auto
    have "digits_val t < 10 ^ 3" using digits_val_bound [of t] 1(2) h s by simp
    moreover have "digits_val s = digit_val c * 10 ^ 3 + digits_val t" using digits_val_Cons [of c t] h s by simp
    ultimately have "0 < digit_val (hd s)" using h 1(3) s by (cases "digit_val c") simp_all
    with 1 have "itoa_nat (digits_val s) = s" using itoa_digits_val by blast
    moreover have "digits_val s < 10 ^ 4" using digits_val_bound [of s] 1(2) h by simp
    ultimately show ?thesis using h 1(3) by (simp add: itoa_def)
  next
    case (2 t)
    with h digits_val_bound [of t] show ?thesis by simp
  next
    case 3
    with h show ?thesis by simp
  qed
qed (simp add: atoi_year length_itoa_year)

lemma has_prefix_iff: "has_prefix s p \<longleftrightarrow> (\<exists>t. s = p @ t)"
  by (induction s p rule: has_prefix.induct) auto

lemma check_year_part_ok:
  "check_year_part e name = Some None \<longleftrightarrow> (\<exists>y. name = e @ ''_'' @ itoa y \<and> 1970 \<le> y \<and> y \<le> 9999)"
proof -
  have year: "atoi part = Some y \<and> length part = 4 \<and> 1970 \<le> y \<longleftrightarrow> part = itoa y \<and> 1970 \<le> y \<and> y \<le> 9999" for part y
    by (rule four_digit_year)
  have "check_year_part e name = Some None \<longleftrightarrow>
      (\<exists>part y. name = (e @ ''_'') @ part \<and> atoi part = Some y \<and> length part = 4 \<and> 1970 \<le> y)"
    by (auto simp: check_year_part_def Let_def has_prefix_iff invalid_year_database_def not_less split: option.splits if_splits)
  then show ?thesis by (auto simp: year)
qed

lemma check_year_part_other: "check_year_part e name = None \<longleftrightarrow> \<not> (\<exists>t. name = e @ ''_'' @ t)"
  by (auto simp: check_year_part_def Let_def has_prefix_iff split: option.splits)

lemma default_database_name:
  "norm_lower e = e \<Longrightarrow> e \<noteq> [] \<Longrightarrow> 1970 \<le> y \<Longrightarrow> database_name_for_year [] e y = Inr (e @ ''_'' @ itoa y)"
  by (simp add: database_name_for_year_def trim_space_def)

lemma exchange_norm [simp]: "norm_lower ''binance'' = ''binance''" "norm_lower ''okx'' = ''okx''"
  by code_simp+

lemma parse_years_range: "parse_years ps = Inr ys \<Longrightarrow> \<forall>y \<in> set ys. 1970 \<le> y \<and> y \<le> 9999"
  by (induction ps arbitrary: ys) (auto split: option.splits if_splits sum.splits)

lemma target_years_range: "target_years raw = Inr ys \<Longrightarrow> \<forall>y \<in> set ys. 1970 \<le> y \<and> y \<le> 9999"
  by (auto simp: target_years_def parse_years_range split: sum.splits if_splits)

lemma exchange_targets_names:
  "exchange_targets ys xs = Inr ts \<Longrightarrow> d \<in> set ts \<Longrightarrow>
    (\<exists>y \<in> set ys. d = ''binance'' @ ''_'' @ itoa y) \<or> (\<exists>y \<in> set ys. d = ''okx'' @ ''_'' @ itoa y)"
proof (induction xs arbitrary: ts)
  case (Cons x xs)
  then obtain ts' where "x = ''binance'' \<or> x = ''okx''" "exchange_targets ys xs = Inr ts'"
    "ts = map (\<lambda>y. x @ ''_'' @ itoa y) ys @ ts'" by (auto split: if_splits sum.splits)
  with Cons.IH [of ts'] Cons.prems(2) show ?case by fastforce
qed simp

lemma validate_all_ok: "validate_all ds = Inr ts \<Longrightarrow> ts = ds \<and> (\<forall>d \<in> set ds. validate_exchange_year_database d = None)"
  by (induction ds arbitrary: ts) (auto split: option.splits sum.splits)

lemma year_name_accepted:
  "validate_exchange_year_database n = None
   \<longleftrightarrow> (\<exists>e y. (e = ''binance'' \<or> e = ''okx'') \<and> 1970 \<le> y \<and> y \<le> 9999 \<and> database_name_for_year [] e y = Inr n)"
proof -
  have names: "database_name_for_year [] e y = Inr n \<longleftrightarrow> n = e @ ''_'' @ itoa y"
    if "e = ''binance'' \<or> e = ''okx''" "1970 \<le> y" for e y
    using that default_database_name [of e y] by auto
  have "validate_exchange_year_database n = None
      \<longleftrightarrow> check_year_part ''binance'' n = Some None \<or> check_year_part ''okx'' n = Some None"
  proof (cases "n = ''binance'' \<or> n = ''okx''")
    case True
    then show ?thesis by (auto simp: validate_exchange_year_database_def check_year_part_ok)
  next
    case False
    have "check_year_part ''binance'' n = None \<or> check_year_part ''okx'' n = None"
      by (auto simp: check_year_part_other)
    with False show ?thesis
      by (auto simp: validate_exchange_year_database_def split: option.splits)
  qed
  also have "\<dots> \<longleftrightarrow> (\<exists>e y. (e = ''binance'' \<or> e = ''okx'') \<and> 1970 \<le> y \<and> y \<le> 9999 \<and> n = e @ ''_'' @ itoa y)"
    unfolding check_year_part_ok by blast
  also have "\<dots> \<longleftrightarrow> (\<exists>e y. (e = ''binance'' \<or> e = ''okx'') \<and> 1970 \<le> y \<and> y \<le> 9999 \<and> database_name_for_year [] e y = Inr n)"
    using names by blast
  finally show ?thesis .
qed

text \<open>A configuration for the witnesses: Binance with live publication under the control plane.\<close>

definition sample_exchange :: exchange_config where
  "sample_exchange = \<lparr>ec_enabled = True,
     ec_database = \<lparr>dc_host = ''db'', dc_port = 5432, dc_user = ''u'', dc_password = ''p'', dc_dbname = ''md_{year}'', dc_sslmode = ''disable''\<rparr>,
     ec_spot_symbols = [''BTCUSDT''], ec_futures_symbols = [], ec_kline_interval = [], ec_kline_intervals = [], ec_depth_interval = [],
     ec_forward = \<lparr>fw_spot_kline = True, fw_futures_kline = False, fw_spot_order_book = False, fw_futures_order_book = False,
       fw_funding_rate = False, fw_open_interest = False\<rparr>,
     ec_reverse = \<lparr>rv_spot_kline = False, rv_futures_kline = False, rv_spot_order_book = False, rv_futures_order_book = False,
       rv_funding_rate = False, rv_open_interest = False, rv_start_time = [], rv_end_time = []\<rparr>\<rparr>"

definition sample_settings :: config where
  "sample_settings = \<lparr>cf_mode = '' Forward'', cf_binance = sample_exchange, cf_okx = sample_exchange\<lparr>ec_enabled := False\<rparr>,
     cf_kafka = \<lparr>kf_enabled = True, kf_brokers = ['' '', ''kafka:9092 '']\<rparr>,
     cf_control_plane = \<lparr>cp_enabled = True, cp_grpc = ''panel:50051'', cp_reconcile_seconds = 0, cp_draining_seconds = 0, cp_timeout_seconds = 0\<rparr>,
     cf_scraper_interval = 0, cf_shutdown_timeout = 0\<rparr>"

definition sample_validated :: config where
  "sample_validated = (case validate_config sample_settings of Inr c \<Rightarrow> c | Inl e \<Rightarrow> sample_settings)"

lemma sample_validates: "validate_config sample_settings = Inr sample_validated"
  by code_simp

subsection \<open>Properties\<close>

text \<open>
  A validated configuration never names an unusable database: for each exchange that is enabled,
  the router finds the year database of every year from 1970 on.
\<close>

theorem validated_templates_route:
  assumes "validate_config c0 = Inr c" and "1970 \<le> y"
    and "(e = ''binance'' \<and> ec = cf_binance c) \<or> (e = ''okx'' \<and> ec = cf_okx c)" and "ec_enabled ec"
  shows "\<exists>db. database_name_for_year (dc_dbname (ec_database ec)) e y = Inr db"
proof -
  obtain ec0 where ec: "ec = default_intervals ec0" "validate_exchange c0 e ec0 = None"
    using assms(3) validate_config_Inr [OF assms(1)] by metis
  have e: "norm_lower e = e" "e \<noteq> []" using assms(3) by (elim disjE; simp)+
  have "trim_space (dc_dbname (ec_database ec)) \<noteq> norm_lower e"
    using validate_exchange_target [OF ec(2)] assms(4) ec(1) equal_fold_of_norm [OF _ e(1)] e by fastforce
  then show ?thesis using database_name_ok [OF _ assms(2)] e by simp
qed

theorem validated_templates_route_witness:
  "\<exists>db. database_name_for_year (dc_dbname (ec_database (cf_binance sample_validated))) ''binance'' 2026 = Inr db"
proof -
  have "ec_enabled (cf_binance sample_validated)" by code_simp
  with validated_templates_route [OF sample_validates, of 2026 "''binance''" "cf_binance sample_validated"]
  show ?thesis by simp
qed

text \<open>
  C35. Validation gives a usable configuration and is stable: an accepted configuration has one of the
  two modes, an enabled exchange, positive intervals and time-outs, brokers when Kafka is on and a
  target in forward mode when the control plane is on, and validating it again changes nothing.
\<close>

theorem validated_config_stable:
  assumes "validate_config c0 = Inr c"
  shows "validate_config c = Inr c
    \<and> (cf_mode c = ''forward'' \<or> cf_mode c = ''reverse'') \<and> (ec_enabled (cf_binance c) \<or> ec_enabled (cf_okx c))
    \<and> 0 < cf_shutdown_timeout c \<and> 0 < cp_reconcile_seconds (cf_control_plane c)
    \<and> 0 < cp_draining_seconds (cf_control_plane c) \<and> 0 < cp_timeout_seconds (cf_control_plane c)
    \<and> (kf_enabled (cf_kafka c) \<longrightarrow> kf_brokers (cf_kafka c) \<noteq> [])
    \<and> (cp_enabled (cf_control_plane c) \<longrightarrow> cf_mode c = ''forward'' \<and> cp_grpc (cf_control_plane c) \<noteq> [])
    \<and> ec_kline_intervals (cf_binance c) \<noteq> [] \<and> ec_kline_intervals (cf_okx c) \<noteq> []"
  (is "?fix \<and> ?wf")
proof -
  note v = validate_config_Inr [OF assms]
  have wf: ?wf using v by (metis default_intervals_keeps(5))
  have ex: "validate_exchange c ''binance'' (cf_binance c) = None" "validate_exchange c ''okx'' (cf_okx c) = None"
    using v validate_exchange_again by metis+
  have modes: "norm_lower ''forward'' = ''forward''" "norm_lower ''reverse'' = ''reverse''" by code_simp+
  have idem: "default_intervals (cf_binance c) = cf_binance c" "default_intervals (cf_okx c) = cf_okx c"
    "normalize_list (kf_brokers (cf_kafka c)) = kf_brokers (cf_kafka c)"
    "trim_space (cp_grpc (cf_control_plane c)) = cp_grpc (cf_control_plane c)"
    using v by (metis default_intervals_idem)+
  have ?fix
    using wf ex modes idem by (auto simp: validate_config_def Let_def default_positive_def)
  with wf show ?thesis by blast
qed

theorem validated_config_stable_witness: "validate_config sample_validated = Inr sample_validated"
  using validated_config_stable [OF sample_validates] by blast

text \<open>
  C36. The command accepts exactly the databases the router writes with the default template: a name
  passes \<open>validateExchangeYearDatabase\<close> if and only if it is \<open>DatabaseNameForYear\<close> of Binance or OKX
  for a year from 1970 to 9999, so no prepared database is one the router would not use.
\<close>

theorem year_database_roundtrip:
  "validate_exchange_year_database n = None
   \<longleftrightarrow> (\<exists>e y. (e = ''binance'' \<or> e = ''okx'') \<and> 1970 \<le> y \<and> y \<le> 9999 \<and> database_name_for_year [] e y = Inr n)"
  by (rule year_name_accepted)

text \<open>
  C37. Whatever the environment holds, the databases the command goes on to prepare are year databases
  it accepts, and their names are plain identifiers, so \<open>CREATE DATABASE\<close> is never refused and
  nothing of the environment reaches the SQL text unchecked.
\<close>

theorem target_databases_safe:
  assumes "target_databases env current_year = Inr ts" and "d \<in> set ts"
  shows "validate_exchange_year_database d = None \<and> is_valid_ident d"
proof -
  have ok: "validate_exchange_year_database d = None"
  proof (cases "trim_space (env ''SCRAPER_DBS'') = []")
    case False
    with assms show ?thesis using validate_all_ok by (auto simp: target_databases_def Let_def)
  next
    case True
    with assms(1) obtain ys xs where "target_years (getenv env ''SCRAPER_YEARS'' (itoa current_year)) = Inr ys"
      "exchange_targets ys xs = Inr ts"
      by (auto simp: target_databases_def Let_def split: sum.splits if_splits)
    with exchange_targets_names [OF this(2) assms(2)] target_years_range obtain e y where
      "e = ''binance'' \<or> e = ''okx''" "1970 \<le> y" "y \<le> 9999" "d = e @ ''_'' @ itoa y" by metis
    moreover from this have "database_name_for_year [] e y = Inr d"
      using default_database_name [of e y] by auto
    ultimately show ?thesis unfolding year_name_accepted by blast
  qed
  then obtain e y where d: "e = ''binance'' \<or> e = ''okx''" "1970 \<le> y" "y \<le> 9999" "d = e @ ''_'' @ itoa y"
    unfolding year_name_accepted using default_database_name by fastforce
  have "\<forall>c \<in> set (itoa y). is_digit c" using d(2) itoa_nat_digits by (auto simp: itoa_def)
  moreover have "is_letter CHR ''b''" "is_letter CHR ''i''" "is_letter CHR ''n''" "is_letter CHR ''a''"
    "is_letter CHR ''c''" "is_letter CHR ''e''" "is_letter CHR ''o''" "is_letter CHR ''k''" "is_letter CHR ''x''" by code_simp+
  ultimately have "is_valid_ident d" using d length_itoa_year [OF d(2,3)] by (auto simp: is_valid_ident_def)
  with ok show ?thesis by blast
qed

theorem target_databases_safe_witness:
  "validate_exchange_year_database ''okx_2025'' = None \<and> is_valid_ident ''okx_2025''"
proof -
  have "target_databases (\<lambda>k. if k = ''SCRAPER_YEARS'' then ''2025, 2026'' else []) 2024
      = Inr [''binance_2025'', ''binance_2026'', ''okx_2025'', ''okx_2026'']" by code_simp
  from target_databases_safe [OF this, of "''okx_2025''"] show ?thesis by simp
qed

text \<open>
  A list of databases that holds only separators is an empty list of targets, and no error: the command
  reports success without preparing a database, where an empty list of exchanges is an error.
\<close>

lemma separators_prepare_nothing:
  "target_databases (\<lambda>k. if k = ''SCRAPER_DBS'' then '' , '' else []) 2026 = Inr []
   \<and> target_databases (\<lambda>k. if k = ''SCRAPER_EXCHANGES'' then '' , '' else []) 2026
       = Inl (Err ''no scraper target databases configured'')"
  by code_simp

end
