(* ===== verification/Schema_Migrations.thy ===== *)
theory Schema_Migrations
  imports Storage_Timescale Service_Config "HOL-Library.List_Lexorder" "HOL-Library.Char_ord"
begin

text \<open>
  The schema of a year database: the migrations that the service runs when it opens a store
  (\<open>runMigrations\<close> of \<open>internal/storage/timescale.go\<close>, one transaction for all files), the same
  migrations run by \<open>cmd/ensure-scraper-db\<close> (one transaction for each file), the creation of a
  database by that command, and the inline schema. Both keep a ledger of applied files. The database
  is the argument \<open>env\<close>; the directory listing and the file contents are arguments too.
\<close>

subsection \<open>The migration files\<close>

definition has_suffix :: "string \<Rightarrow> string \<Rightarrow> bool" where
  "has_suffix s suf = has_prefix (rev s) (rev suf)"

text \<open>\<open>os.ReadDir\<close> gives names and whether they are directories; \<open>sort.Strings\<close> sorts them.\<close>

definition list_migration_files :: "(string \<times> bool) list res \<Rightarrow> string list res" where
  "list_migration_files dir =
     (case dir of
        Inl e \<Rightarrow> Inl (Wrapped ''failed to read migrations directory'' e)
      | Inr entries \<Rightarrow> Inr (sort (map fst (filter (\<lambda>(name, is_dir). \<not> is_dir \<and> has_suffix name ''.sql'') entries))))"

record migration =
  mg_name :: string
  mg_sql :: string

fun read_migrations :: "(string \<Rightarrow> string res) \<Rightarrow> string list \<Rightarrow> migration list res" where
  "read_migrations read [] = Inr []"
| "read_migrations read (f # fs) =
     (case read f of
        Inl e \<Rightarrow> Inl (Wrapped (''read '' @ f) e)
      | Inr body \<Rightarrow>
        (case read_migrations read fs of
           Inl e \<Rightarrow> Inl e
         | Inr ms \<Rightarrow> Inr (if trim_space body = [] then ms else \<lparr>mg_name = f, mg_sql = trim_space body\<rparr> # ms)))"

definition load_migrations :: "string \<Rightarrow> (string \<times> bool) list res \<Rightarrow> (string \<Rightarrow> string res) \<Rightarrow> migration list res" where
  "load_migrations dir_name dir read =
     (case dir of
        Inl e \<Rightarrow> Inl (Wrapped (''read migrations dir '' @ dir_name) e)
      | Inr entries \<Rightarrow>
        read_migrations read (sort (map fst (filter (\<lambda>(name, is_dir). \<not> is_dir \<and> has_suffix name ''.sql'') entries))))"

subsection \<open>The database\<close>

text \<open>
  The calls of the two runners: transactions, the two kinds of advisory lock, the ledger table
  \<open>schema_migrations\<close>, and the execution of a script. \<open>me_record_once\<close> is the insert with
  \<open>ON CONFLICT DO NOTHING\<close>.
\<close>

record 'w migration_env =
  me_open :: "'w \<Rightarrow> go_error option \<times> 'w"
  me_conn :: "'w \<Rightarrow> go_error option \<times> 'w"
  me_ping :: "'w \<Rightarrow> go_error option \<times> 'w"
  me_begin :: "'w \<Rightarrow> go_error option \<times> 'w"
  me_commit :: "'w \<Rightarrow> go_error option \<times> 'w"
  me_rollback :: "'w \<Rightarrow> 'w"
  me_lock_transaction :: "'w \<Rightarrow> go_error option \<times> 'w"
  me_lock_session :: "'w \<Rightarrow> go_error option \<times> 'w"
  me_unlock_session :: "'w \<Rightarrow> 'w"
  me_ensure_ledger :: "'w \<Rightarrow> go_error option \<times> 'w"
  me_applied :: "string \<Rightarrow> 'w \<Rightarrow> bool res \<times> 'w"
  me_script :: "string \<Rightarrow> 'w \<Rightarrow> go_error option \<times> 'w"
  me_record :: "string \<Rightarrow> 'w \<Rightarrow> go_error option \<times> 'w"
  me_record_once :: "string \<Rightarrow> 'w \<Rightarrow> go_error option \<times> 'w"

subsection \<open>The runner of the service\<close>

fun migrate_files :: "'w migration_env \<Rightarrow> (string \<Rightarrow> string res) \<Rightarrow> string list \<Rightarrow> 'w \<Rightarrow> go_error option \<times> 'w" where
  "migrate_files env read [] w = (None, w)"
| "migrate_files env read (f # fs) w =
     (case me_applied env f w of
        (Inl e, w1) \<Rightarrow> (Some (Wrapped (''check migration '' @ f) e), w1)
      | (Inr True, w1) \<Rightarrow> migrate_files env read fs w1
      | (Inr False, w1) \<Rightarrow>
        (case read f of
           Inl e \<Rightarrow> (Some (Wrapped (''failed to read migration file '' @ f) e), w1)
         | Inr sql \<Rightarrow>
           (case me_script env sql w1 of
              (Some e, w2) \<Rightarrow> (Some (Wrapped (''failed to execute migration '' @ f) e), w2)
            | (None, w2) \<Rightarrow>
              (case me_record_once env f w2 of
                 (Some e, w3) \<Rightarrow> (Some (Wrapped (''record migration '' @ f) e), w3)
               | (None, w3) \<Rightarrow> migrate_files env read fs w3))))"

text \<open>The deferred rollback does nothing after a commit, so it stands on the error paths.\<close>

definition run_migrations ::
  "'w migration_env \<Rightarrow> (string \<times> bool) list res \<Rightarrow> (string \<Rightarrow> string res) \<Rightarrow> 'w \<Rightarrow> go_error option \<times> 'w" where
  "run_migrations env dir read w =
     (case list_migration_files dir of
        Inl e \<Rightarrow> (Some e, w)
      | Inr files \<Rightarrow>
        (case me_begin env w of
           (Some e, w1) \<Rightarrow> (Some (Wrapped ''begin scraper migrations'' e), w1)
         | (None, w1) \<Rightarrow>
           (case me_lock_transaction env w1 of
              (Some e, w2) \<Rightarrow> (Some (Wrapped ''lock scraper migrations'' e), me_rollback env w2)
            | (None, w2) \<Rightarrow>
              (case me_ensure_ledger env w2 of
                 (Some e, w3) \<Rightarrow> (Some (Wrapped ''ensure schema_migrations'' e), me_rollback env w3)
               | (None, w3) \<Rightarrow>
                 (case migrate_files env read files w3 of
                    (Some e, w4) \<Rightarrow> (Some e, me_rollback env w4)
                  | (None, w4) \<Rightarrow> me_commit env w4)))))"

subsection \<open>The runner of the command\<close>

fun apply_each :: "'w migration_env \<Rightarrow> string \<Rightarrow> migration list \<Rightarrow> 'w \<Rightarrow> go_error option \<times> 'w" where
  "apply_each env db [] w = (None, w)"
| "apply_each env db (m # ms) w =
     (case me_begin env w of
        (Some e, w1) \<Rightarrow> (Some (Wrapped (''begin '' @ mg_name m @ '' on '' @ db) e), w1)
      | (None, w1) \<Rightarrow>
        (case me_applied env (mg_name m) w1 of
           (Inl e, w2) \<Rightarrow> (Some (Wrapped (''check migration '' @ mg_name m @ '' on '' @ db) e), me_rollback env w2)
         | (Inr True, w2) \<Rightarrow> apply_each env db ms (me_rollback env w2)
         | (Inr False, w2) \<Rightarrow>
           (case me_script env (mg_sql m) w2 of
              (Some e, w3) \<Rightarrow> (Some (Wrapped (''exec '' @ mg_name m @ '' on '' @ db) e), me_rollback env w3)
            | (None, w3) \<Rightarrow>
              (case me_record env (mg_name m) w3 of
                 (Some e, w4) \<Rightarrow> (Some (Wrapped (''record migration '' @ mg_name m @ '' on '' @ db) e), me_rollback env w4)
               | (None, w4) \<Rightarrow>
                 (case me_commit env w4 of
                    (Some e, w5) \<Rightarrow> (Some (Wrapped (''commit migration '' @ mg_name m @ '' on '' @ db) e), w5)
                  | (None, w5) \<Rightarrow> apply_each env db ms w5)))))"

definition apply_migrations_to_db :: "'w migration_env \<Rightarrow> string \<Rightarrow> migration list \<Rightarrow> 'w \<Rightarrow> go_error option \<times> 'w" where
  "apply_migrations_to_db env db ms w =
     (case me_ping env w of
        (Some e, w1) \<Rightarrow> (Some (Wrapped (''ping '' @ db) e), w1)
      | (None, w1) \<Rightarrow>
        (case me_conn env w1 of
           (Some e, w2) \<Rightarrow> (Some (Wrapped (''conn '' @ db) e), w2)
         | (None, w2) \<Rightarrow>
           (case me_lock_session env w2 of
              (Some e, w3) \<Rightarrow> (Some (Wrapped (''lock migrations on '' @ db) e), w3)
            | (None, w3) \<Rightarrow>
              (case me_ensure_ledger env w3 of
                 (Some e, w4) \<Rightarrow> (Some (Wrapped (''ensure schema_migrations on '' @ db) e), me_unlock_session env w4)
               | (None, w4) \<Rightarrow> (case apply_each env db ms w4 of (r, w5) \<Rightarrow> (r, me_unlock_session env w5))))))"

definition apply_migrations :: "'w migration_env \<Rightarrow> string \<Rightarrow> migration list \<Rightarrow> 'w \<Rightarrow> go_error option \<times> 'w" where
  "apply_migrations env db ms w =
     (case me_open env w of
        (Some e, w1) \<Rightarrow> (Some (Wrapped (''open '' @ db) e), w1)
      | (None, w1) \<Rightarrow> apply_migrations_to_db env db ms w1)"

text \<open>The connection to the server: ping, look the database up, create it.\<close>

record 'w admin_env =
  ad_open :: "'w \<Rightarrow> go_error option \<times> 'w"
  ad_ping :: "'w \<Rightarrow> go_error option \<times> 'w"
  ad_exists :: "string \<Rightarrow> 'w \<Rightarrow> bool res \<times> 'w"
  ad_create :: "string \<Rightarrow> 'w \<Rightarrow> go_error option \<times> 'w"

definition ensure_database :: "'w admin_env \<Rightarrow> string \<Rightarrow> 'w \<Rightarrow> go_error option \<times> 'w" where
  "ensure_database ad db w =
     (case ad_open ad w of
        (Some e, w1) \<Rightarrow> (Some (Wrapped ''open admin'' e), w1)
      | (None, w1) \<Rightarrow>
        (case ad_ping ad w1 of
           (Some e, w2) \<Rightarrow> (Some (Wrapped ''ping postgres'' e), w2)
         | (None, w2) \<Rightarrow>
           (case ad_exists ad db w2 of
              (Inl e, w3) \<Rightarrow> (Some (Wrapped ''check database'' e), w3)
            | (Inr True, w3) \<Rightarrow> (None, w3)
            | (Inr False, w3) \<Rightarrow>
              if \<not> is_valid_ident db
              then (Some (Err (''refusing to create db with suspicious name '' @ go_quote db)), w3)
              else (case ad_create ad db w3 of
                  (Some e, w4) \<Rightarrow> (Some (Wrapped (''CREATE DATABASE '' @ db) e), w4)
                | (None, w4) \<Rightarrow> (None, w4)))))"

text \<open>The loop of \<open>run\<close>: prepare each target, stop at the first error.\<close>

fun prepare_databases ::
  "'w admin_env \<Rightarrow> (string \<Rightarrow> 'w migration_env) \<Rightarrow> migration list \<Rightarrow> string list \<Rightarrow> 'w \<Rightarrow> go_error option \<times> 'w" where
  "prepare_databases ad env ms [] w = (None, w)"
| "prepare_databases ad env ms (db # dbs) w =
     (case ensure_database ad db w of
        (Some e, w1) \<Rightarrow> (Some (Wrapped db e), w1)
      | (None, w1) \<Rightarrow>
        (case apply_migrations (env db) db ms w1 of
           (Some e, w2) \<Rightarrow> (Some (Wrapped db e), w2)
         | (None, w2) \<Rightarrow> prepare_databases ad env ms dbs w2))"

text \<open>\<open>run\<close>: \<open>root\<close> is what \<open>findModuleRoot\<close> answers, \<open>dir\<close> and \<open>read\<close> the file system below it.\<close>

definition ensure_scraper_db ::
  "(string \<Rightarrow> string) \<Rightarrow> int \<Rightarrow> string res \<Rightarrow> (string \<Rightarrow> (string \<times> bool) list res) \<Rightarrow> (string \<Rightarrow> string \<Rightarrow> string res)
    \<Rightarrow> 'w admin_env \<Rightarrow> (string \<Rightarrow> 'w migration_env) \<Rightarrow> 'w \<Rightarrow> go_error option \<times> 'w" where
  "ensure_scraper_db vars year root dir read ad env w =
     (case target_databases vars year of
        Inl e \<Rightarrow> (Some e, w)
      | Inr targets \<Rightarrow>
        (case root of
           Inl e \<Rightarrow> (Some e, w)
         | Inr r \<Rightarrow>
           (let d = r @ ''/internal/storage/migrations''
            in case load_migrations d (dir d) (read d) of
                 Inl e \<Rightarrow> (Some e, w)
               | Inr ms \<Rightarrow> prepare_databases ad env ms targets w)))"

subsection \<open>The inline schema\<close>

datatype schema_stmt =
    Create_Extension string
  | Create_Hypertable sql_stmt
  | Add_Column string sql_column

text \<open>The legacy tables have the columns of the tables of a symbol, in chunks of a day.\<close>

fun daily_chunks :: "sql_stmt \<Rightarrow> sql_stmt" where
  "daily_chunks (Create_Table t cols pk _) = Create_Table t cols pk ''1 day''"
| "daily_chunks st = st"

definition legacy_table :: "string \<Rightarrow> string \<Rightarrow> string \<Rightarrow> string \<Rightarrow> schema_stmt" where
  "legacy_table exchange table market data_type =
     Create_Hypertable (daily_chunks (build_create_table_sql exchange table market data_type))"

definition inline_schema :: "string \<Rightarrow> schema_stmt list" where
  "inline_schema exchange =
     [Create_Extension ''timescaledb'',
      legacy_table exchange ''spot_klines'' ''spot'' ''klines'',
      legacy_table exchange ''futures_klines'' ''futures'' ''klines'',
      legacy_table exchange ''spot_orderbook'' ''spot'' ''orderbook'',
      legacy_table exchange ''futures_orderbook'' ''futures'' ''orderbook'',
      legacy_table exchange ''futures_funding_rates'' ''futures'' ''funding_rates'',
      legacy_table exchange ''futures_open_interest'' ''futures'' ''open_interest'',
      Add_Column ''spot_klines'' (with_default ''num_trades'' Bigint ''0''),
      Add_Column ''futures_klines'' (with_default ''num_trades'' Bigint ''0'')]"

definition init_schema_inline :: "(schema_stmt list \<Rightarrow> 'w \<Rightarrow> go_error option \<times> 'w) \<Rightarrow> string \<Rightarrow> 'w \<Rightarrow> go_error option \<times> 'w" where
  "init_schema_inline exec exchange w =
     (case exec (inline_schema exchange) w of
        (Some e, w1) \<Rightarrow> (Some (Wrapped ''failed to initialize schema'' e), w1)
      | (None, w1) \<Rightarrow> (None, w1))"

definition init_schema ::
  "bool \<Rightarrow> string \<Rightarrow> ('w \<Rightarrow> go_error option \<times> 'w) \<Rightarrow> (schema_stmt list \<Rightarrow> 'w \<Rightarrow> go_error option \<times> 'w) \<Rightarrow> string
    \<Rightarrow> 'w \<Rightarrow> go_error option \<times> 'w" where
  "init_schema routed migrations_dir migrate exec exchange w =
     (if routed then (None, w)
      else if migrations_dir \<noteq> [] then migrate w
      else init_schema_inline exec exchange w)"

subsection \<open>The interface of the database\<close>

text \<open>
  What PostgreSQL documents of the calls, in terms of what the connection sees: the ledger, and the
  scripts that took effect, both in order. A transaction starts from what it sees, a rollback goes
  back to it, and a failed commit leaves the one or the other. The scripts do not touch the ledger.
\<close>

locale migration_db =
  fixes env :: "'w migration_env" and view :: "'w \<Rightarrow> string list \<times> string list"
    and base :: "'w \<Rightarrow> string list \<times> string list"
  assumes quiet: "op \<in> {me_open env, me_ping env, me_conn env, me_lock_transaction env, me_lock_session env, me_ensure_ledger env}
      \<Longrightarrow> op w = (r, w') \<Longrightarrow> view w' = view w \<and> base w' = base w"
    and unlock: "view (me_unlock_session env w) = view w"
    and begin_ok: "me_begin env w = (r, w') \<Longrightarrow> view w' = view w \<and> (r = None \<longrightarrow> base w' = view w)"
    and applied: "me_applied env f w = (b, w') \<Longrightarrow> base w' = base w \<and> (\<forall>x. b = Inr x \<longrightarrow> x = (f \<in> set (fst (view w))) \<and> view w' = view w)"
    and script: "me_script env sql w = (r, w') \<Longrightarrow> base w' = base w \<and> (r = None \<longrightarrow> view w' = (fst (view w), snd (view w) @ [sql]))"
    and recorded: "me_record env f w = (r, w') \<Longrightarrow> base w' = base w \<and> (r = None \<longrightarrow> view w' = (fst (view w) @ [f], snd (view w)))"
    and recorded_once: "me_record_once env f w = (r, w') \<Longrightarrow> base w' = base w
      \<and> (r = None \<longrightarrow> view w' = (if f \<in> set (fst (view w)) then view w else (fst (view w) @ [f], snd (view w))))"
    and rollback: "view (me_rollback env w) = base w"
    and commit: "me_commit env w = (r, w') \<Longrightarrow> view w' = view w \<or> (r \<noteq> None \<and> view w' = base w)"

text \<open>
  Ledger and scripts belong together: no file is recorded twice, and the scripts that took effect are
  the contents of the recorded files, in order, up to surrounding space.
\<close>

definition ledger_agrees :: "(string \<Rightarrow> string res) \<Rightarrow> string list \<times> string list \<Rightarrow> bool" where
  "ledger_agrees read v \<longleftrightarrow> distinct (fst v)
     \<and> list_all2 (\<lambda>f s. case read f of Inr body \<Rightarrow> trim_space s = trim_space body | Inl _ \<Rightarrow> False) (fst v) (snd v)"

lemma ledger_agrees_step:
  "ledger_agrees read (l, s) \<Longrightarrow> f \<notin> set l \<Longrightarrow> read f = Inr body \<Longrightarrow> trim_space x = trim_space body
    \<Longrightarrow> ledger_agrees read (l @ [f], s @ [x])"
  by (simp add: ledger_agrees_def list_all2_appendI)

context migration_db
begin

text \<open>One file of either runner: run and recorded when it is new, left alone when it is not.\<close>

lemma migrate_files_run:
  assumes "migrate_files env read fs w = (r, w')"
  shows "base w' = base w
    \<and> (r = None \<longrightarrow> (ledger_agrees read (view w) \<longrightarrow> ledger_agrees read (view w'))
        \<and> set (fst (view w')) = set (fst (view w)) \<union> set fs
        \<and> (set fs \<subseteq> set (fst (view w)) \<longrightarrow> view w' = view w))"
  using assms
proof (induction fs arbitrary: w)
  case Nil
  then show ?case by auto
next
  case (Cons f fs)
  obtain b w1 where a: "me_applied env f w = (b, w1)" by (meson surj_pair)
  note A = applied [OF a]
  show ?case
  proof (cases b)
    case (Inl e)
    with Cons.prems a A show ?thesis by auto
  next
    case (Inr seen)
    note A = A [THEN conjunct1] A [THEN conjunct2, rule_format, OF Inr]
    show ?thesis
    proof (cases seen)
      case True
      with Cons.prems a Inr have "migrate_files env read fs w1 = (r, w')" by simp
      from Cons.IH [OF this] A True show ?thesis by (auto simp: insert_absorb)
    next
      case False
      show ?thesis
      proof (cases "r = None")
        case True
        with Cons.prems a Inr False obtain sql w2 w3 where
          s: "read f = Inr sql" "me_script env sql w1 = (None, w2)" "me_record_once env f w2 = (None, w3)"
            "migrate_files env read fs w3 = (r, w')"
          by (auto split: sum.splits prod.splits option.splits)
        from script [OF s(2)] recorded_once [OF s(3)] A False
        have v: "base w3 = base w" "view w3 = (fst (view w) @ [f], snd (view w) @ [sql])" "f \<notin> set (fst (view w))"
          by auto
        have "ledger_agrees read (view w3)" if "ledger_agrees read (view w)"
          using that ledger_agrees_step [of read "fst (view w)" "snd (view w)" f sql sql] v s(1) by simp
        with Cons.IH [OF s(4)] True v show ?thesis by auto
      next
        case r: False
        with Cons.prems a Inr False A Cons.IH show ?thesis
          by (auto split: sum.splits prod.splits option.splits dest!: script recorded_once)
      qed
    qed
  qed
qed

text \<open>A run without an error executed and recorded exactly the new files, in the order of the list.\<close>

lemma migrate_files_exact:
  assumes "migrate_files env read fs w = (None, w')" and "sorted fs"
  shows "\<exists>scripts. map read (sorted_list_of_set (set fs - set (fst (view w)))) = map Inr scripts
    \<and> view w' = (fst (view w) @ sorted_list_of_set (set fs - set (fst (view w))), snd (view w) @ scripts)"
  using assms
proof (induction fs arbitrary: w)
  case (Cons f fs)
  obtain b w1 where a: "me_applied env f w = (b, w1)" by (meson surj_pair)
  from Cons.prems(1) a obtain seen where b: "b = Inr seen" by (cases b) auto
  note A = applied [OF a, THEN conjunct2, rule_format, OF b]
  show ?case
  proof (cases seen)
    case True
    with Cons.prems(1) a b have "migrate_files env read fs w1 = (None, w')" by simp
    from Cons.IH [OF this] Cons.prems(2) A True show ?thesis by (simp add: insert_Diff_if)
  next
    case False
    with Cons.prems(1) a b obtain sql w2 w3 where
      s: "read f = Inr sql" "me_script env sql w1 = (None, w2)" "me_record_once env f w2 = (None, w3)"
        "migrate_files env read fs w3 = (None, w')"
      by (auto split: sum.splits prod.splits option.splits)
    from script [OF s(2)] recorded_once [OF s(3)] A False
    have v: "view w3 = (fst (view w) @ [f], snd (view w) @ [sql])" "f \<notin> set (fst (view w))" by auto
    let ?old = "set fs - set (fst (view w3))"
    have new: "set (f # fs) - set (fst (view w)) = insert f ?old" using v by auto
    have "sorted_list_of_set (insert f ?old) = f # sorted_list_of_set ?old"
      using Cons.prems(2) by (simp add: v(1) insort_is_Cons)
    with Cons.IH [OF s(4)] Cons.prems(2) s(1) v(1) show ?thesis unfolding new by auto
  qed
qed simp

lemma run_migrations_cases:
  assumes "run_migrations env dir read w = (r, w')"
  shows "view w' = view w \<and> r \<noteq> None
    \<or> (\<exists>files w3 w4. list_migration_files dir = Inr files \<and> view w3 = view w \<and> migrate_files env read files w3 = (None, w4)
        \<and> view w' = view w4)"
proof (cases "list_migration_files dir")
  case (Inl e)
  with assms show ?thesis by (auto simp: run_migrations_def)
next
  case (Inr files)
  obtain r1 w1 where 1: "me_begin env w = (r1, w1)" by (meson surj_pair)
  show ?thesis
  proof (cases r1)
    case (Some e)
    with assms Inr 1 begin_ok [OF 1] show ?thesis by (auto simp: run_migrations_def)
  next
    case None
    with begin_ok [OF 1] have b1: "view w1 = view w" "base w1 = view w" by auto
    obtain r2 w2 where 2: "me_lock_transaction env w1 = (r2, w2)" by (meson surj_pair)
    obtain r3 w3 where 3: "me_ensure_ledger env w2 = (r3, w3)" by (meson surj_pair)
    obtain r4 w4 where 4: "migrate_files env read files w3 = (r4, w4)" by (meson surj_pair)
    have q2: "view w2 = view w" "base w2 = view w" using quiet [of "me_lock_transaction env", OF _ 2] b1 by auto
    have q3: "view w3 = view w" "base w3 = view w" using quiet [of "me_ensure_ledger env", OF _ 3] q2 by auto
    have q4: "base w4 = view w" using migrate_files_run [OF 4] q3 by simp
    show ?thesis
      using assms Inr 1 None 2 3 4 q2 q3 q4 rollback [of w2] rollback [of w3] rollback [of w4]
      by (auto simp: run_migrations_def split: option.splits dest!: commit)
  qed
qed

lemma apply_each_run:
  assumes "apply_each env db ms w = (r, w')"
    and "\<forall>m \<in> set ms. \<exists>body. read (mg_name m) = Inr body \<and> mg_sql m = trim_space body"
  shows "(ledger_agrees read (view w) \<longrightarrow> ledger_agrees read (view w'))
    \<and> (r = None \<longrightarrow> set (fst (view w')) = set (fst (view w)) \<union> mg_name ` set ms)"
  using assms
proof (induction ms arbitrary: w)
  case Nil
  then show ?case by simp
next
  case (Cons m ms)
  obtain r1 w1 where 1: "me_begin env w = (r1, w1)" by (meson surj_pair)
  show ?case
  proof (cases r1)
    case (Some e)
    with Cons.prems 1 begin_ok [OF 1] show ?thesis by auto
  next
    case None
    with begin_ok [OF 1] have b1: "view w1 = view w" "base w1 = view w" by auto
    obtain b w2 where 2: "me_applied env (mg_name m) w1 = (b, w2)" by (meson surj_pair)
    note A = applied [OF 2]
    show ?thesis
    proof (cases b)
      case (Inl e)
      with Cons.prems 1 None 2 A b1 rollback [of w2] show ?thesis by auto
    next
      case (Inr seen)
      note A = A [THEN conjunct1] A [THEN conjunct2, rule_format, OF Inr]
      show ?thesis
      proof (cases seen)
        case True
        with Cons.prems 1 None 2 Inr have "apply_each env db ms (me_rollback env w2) = (r, w')" by simp
        from Cons.IH [OF this] Cons.prems(2) A True b1 rollback [of w2] show ?thesis by (auto simp: insert_absorb)
      next
        case False
        obtain r3 w3 where 3: "me_script env (mg_sql m) w2 = (r3, w3)" by (meson surj_pair)
        obtain r4 w4 where 4: "me_record env (mg_name m) w3 = (r4, w4)" by (meson surj_pair)
        obtain r5 w5 where 5: "me_commit env w4 = (r5, w5)" by (meson surj_pair)
        have b: "base w3 = view w" "base w4 = view w" using script [OF 3] recorded [OF 4] A b1 by auto
        have v: "view w4 = (fst (view w) @ [mg_name m], snd (view w) @ [mg_sql m])" if "r3 = None" "r4 = None"
          using script [OF 3] recorded [OF 4] A b1 that by auto
        have g: "ledger_agrees read (view w4)" if "r3 = None" "r4 = None" "ledger_agrees read (view w)"
          using that v ledger_agrees_step [of read "fst (view w)" "snd (view w)" "mg_name m" _ "mg_sql m"]
            Cons.prems(2) A False b1 by auto
        show ?thesis
          using Cons.prems 1 None 2 Inr False 3 4 5 b v g commit [OF 5] rollback [of w3] rollback [of w4] Cons.IH [of w5]
          by (auto split: option.splits)
      qed
    qed
  qed
qed

lemma quiet_steps:
  "me_open env w = (r, w') \<Longrightarrow> view w' = view w" "me_ping env w = (r, w') \<Longrightarrow> view w' = view w"
  "me_conn env w = (r, w') \<Longrightarrow> view w' = view w" "me_lock_session env w = (r, w') \<Longrightarrow> view w' = view w"
  "me_ensure_ledger env w = (r, w') \<Longrightarrow> view w' = view w"
  using quiet [of "me_open env" w r w'] quiet [of "me_ping env" w r w'] quiet [of "me_conn env" w r w']
    quiet [of "me_lock_session env" w r w'] quiet [of "me_ensure_ledger env" w r w'] by auto

lemma apply_migrations_cases:
  assumes "apply_migrations env db ms w = (r, w')"
  shows "view w' = view w \<and> r \<noteq> None
    \<or> (\<exists>w3 w4. view w3 = view w \<and> apply_each env db ms w3 = (r, w4) \<and> view w' = view w4)"
  using assms
  by (auto simp: apply_migrations_def apply_migrations_to_db_def unlock split: prod.splits option.splits dest!: quiet_steps;
      blast)

end

lemma load_migrations_read:
  "load_migrations d dir read = Inr ms \<Longrightarrow> m \<in> set ms \<Longrightarrow> \<exists>body. read (mg_name m) = Inr body \<and> mg_sql m = trim_space body"
proof -
  have "m \<in> set ms \<Longrightarrow> \<exists>body. read (mg_name m) = Inr body \<and> mg_sql m = trim_space body"
    if "read_migrations read fs = Inr ms" for fs ms
    using that by (induction fs arbitrary: ms) (auto split: sum.splits if_splits)
  then show "load_migrations d dir read = Inr ms \<Longrightarrow> m \<in> set ms \<Longrightarrow> \<exists>body. read (mg_name m) = Inr body \<and> mg_sql m = trim_space body"
    by (auto simp: load_migrations_def split: sum.splits)
qed

subsection \<open>A reference database\<close>

text \<open>
  A database that answers as documented and rejects a script that is not SQL; it shows that the
  interface can be met and runs the witnesses.
\<close>

record ref_db =
  rd_view :: "string list \<times> string list"
  rd_base :: "string list \<times> string list"

definition ref_ok :: "ref_db \<Rightarrow> go_error option \<times> ref_db" where "ref_ok w = (None, w)"

definition ref_script :: "string \<Rightarrow> ref_db \<Rightarrow> go_error option \<times> ref_db" where
  "ref_script sql w =
     (if has_prefix (trim_space sql) ''CREATE'' then (None, w\<lparr>rd_view := (fst (rd_view w), snd (rd_view w) @ [sql])\<rparr>)
      else (Some (Err ''pq: syntax error''), w))"

definition ref_record :: "bool \<Rightarrow> string \<Rightarrow> ref_db \<Rightarrow> go_error option \<times> ref_db" where
  "ref_record once f w =
     (if f \<in> set (fst (rd_view w)) then ((if once then None else Some (Err ''pq: duplicate key'')), w)
      else (None, w\<lparr>rd_view := (fst (rd_view w) @ [f], snd (rd_view w))\<rparr>))"

definition ref_env :: "ref_db migration_env" where
  "ref_env = \<lparr>me_open = ref_ok, me_conn = ref_ok, me_ping = ref_ok,
     me_begin = (\<lambda>w. (None, w\<lparr>rd_base := rd_view w\<rparr>)), me_commit = ref_ok,
     me_rollback = (\<lambda>w. w\<lparr>rd_view := rd_base w\<rparr>), me_lock_transaction = ref_ok, me_lock_session = ref_ok,
     me_unlock_session = (\<lambda>w. w), me_ensure_ledger = ref_ok,
     me_applied = (\<lambda>f w. (Inr (f \<in> set (fst (rd_view w))), w)), me_script = ref_script,
     me_record = ref_record False, me_record_once = ref_record True\<rparr>"

interpretation ref: migration_db ref_env rd_view rd_base
  by unfold_locales (auto simp: ref_env_def ref_ok_def ref_script_def ref_record_def split: if_splits)

subsection \<open>Properties\<close>

text \<open>
  C18. The ledger never lies, whatever fails: from a database where it agrees with the scripts that
  took effect (none recorded twice, each recorded one run), the service's runner, for every answer of
  the database, leaves one where it agrees, and so does the runner of the command, in any mixture.
\<close>

theorem migrations_keep_ledger:
  assumes "migration_db env view base" and "ledger_agrees read (view w)"
    and "run_migrations env dir read w = (r1, w1)"
    and "load_migrations d dir' read = Inr ms" and "apply_migrations env db ms w1 = (r2, w2)"
  shows "ledger_agrees read (view w1) \<and> ledger_agrees read (view w2)"
proof -
  have 1: "ledger_agrees read (view w1)"
    using migration_db.run_migrations_cases [OF assms(1,3)] migration_db.migrate_files_run [OF assms(1)] assms(2)
    by metis
  moreover have "ledger_agrees read (view w2)"
    using migration_db.apply_migrations_cases [OF assms(1,5)] 1
      migration_db.apply_each_run [OF assms(1)] load_migrations_read [OF assms(4)] by metis
  ultimately show ?thesis ..
qed

definition sample_dir :: "(string \<times> bool) list" where
  "sample_dir = [(''2_b.sql'', False), (''README.md'', False), (''1_a.sql'', False), (''old.sql'', True)]"

definition sample_file :: "string \<Rightarrow> string res" where
  "sample_file f = (if f = ''1_a.sql'' then Inr ''CREATE TABLE a '' else if f = ''2_b.sql'' then Inr '' CREATE TABLE b''
     else Inl (Err ''no such file''))"

definition empty_db :: ref_db where "empty_db = \<lparr>rd_view = ([], []), rd_base = ([], [])\<rparr>"

definition migrated_db :: ref_db where
  "migrated_db = \<lparr>rd_view = ([''1_a.sql'', ''2_b.sql''], [''CREATE TABLE a '', '' CREATE TABLE b'']), rd_base = ([], [])\<rparr>"

lemma sample_run: "run_migrations ref_env (Inr sample_dir) sample_file empty_db = (None, migrated_db)"
  by code_simp

theorem migrations_keep_ledger_witness:
  "ledger_agrees sample_file (rd_view migrated_db)"
proof -
  have a: "ledger_agrees sample_file (rd_view empty_db)" by code_simp
  have l: "load_migrations [] (Inr sample_dir) sample_file
      = Inr [\<lparr>mg_name = ''1_a.sql'', mg_sql = ''CREATE TABLE a''\<rparr>, \<lparr>mg_name = ''2_b.sql'', mg_sql = ''CREATE TABLE b''\<rparr>]"
    (is "_ = Inr ?ms") by code_simp
  obtain r w where "apply_migrations ref_env ''binance_2026'' ?ms migrated_db = (r, w)" by fastforce
  from migrations_keep_ledger [OF ref.migration_db_axioms a sample_run l this] show ?thesis by simp
qed

text \<open>
  C22. Migrating is all or nothing and idempotent: the service's runner either changes nothing and returns an
  error, or runs the contents of exactly the \<open>.sql\<close> files of the directory that the ledger does not name,
  each once and in the order of their names, and adds these names to the ledger in that order; after it
  has returned no error, running it again changes neither the ledger nor the schema.
\<close>

theorem run_migrations_atomic:
  assumes "migration_db env view base" and "run_migrations env dir read w = (r, w')"
  shows "(r \<noteq> None \<and> view w' = view w
      \<or> (\<exists>files scripts. list_migration_files dir = Inr files
          \<and> map read (sorted_list_of_set (set files - set (fst (view w)))) = map Inr scripts
          \<and> view w' = (fst (view w) @ sorted_list_of_set (set files - set (fst (view w))), snd (view w) @ scripts)))
    \<and> (r = None \<longrightarrow> (\<forall>r2 w2. run_migrations env dir read w' = (r2, w2) \<longrightarrow> view w2 = view w'))"
proof -
  note run = migration_db.migrate_files_run [OF assms(1)] and cases = migration_db.run_migrations_cases [OF assms(1)]
  have sorted: "sorted files" if "list_migration_files dir = Inr files" for files
    using that by (auto simp: list_migration_files_def split: sum.splits)
  have added: "r \<noteq> None \<and> view w' = view w
      \<or> (\<exists>files scripts. list_migration_files dir = Inr files
          \<and> map read (sorted_list_of_set (set files - set (fst (view w)))) = map Inr scripts
          \<and> view w' = (fst (view w) @ sorted_list_of_set (set files - set (fst (view w))), snd (view w) @ scripts))"
    using cases [OF assms(2)] migration_db.migrate_files_exact [OF assms(1) _ sorted] by metis
  have again: "view w2 = view w'" if "r = None" "run_migrations env dir read w' = (r2, w2)" for r2 w2
  proof -
    from added that(1) obtain files where f: "list_migration_files dir = Inr files" "set files \<subseteq> set (fst (view w'))"
      by auto
    from cases [OF that(2)] show ?thesis
    proof
      assume "\<exists>files w3 w4. list_migration_files dir = Inr files \<and> view w3 = view w'
        \<and> migrate_files env read files w3 = (None, w4) \<and> view w2 = view w4"
      then obtain w3 w4 where m: "view w3 = view w'" "migrate_files env read files w3 = (None, w4)" "view w2 = view w4"
        using f(1) by auto
      from run [OF m(2)] m(1,3) f(2) show ?thesis by simp
    qed simp
  qed
  show ?thesis using added again by blast
qed

text \<open>From the empty database both scripts run, the one of \<open>1_a.sql\<close> first; a second run does nothing.\<close>

theorem run_migrations_atomic_witness:
  "rd_view (snd (run_migrations ref_env (Inr sample_dir) sample_file empty_db))
     = ([''1_a.sql'', ''2_b.sql''], [''CREATE TABLE a '', '' CREATE TABLE b''])
   \<and> rd_view (snd (run_migrations ref_env (Inr sample_dir) sample_file migrated_db)) = rd_view migrated_db"
proof
  have files: "list_migration_files (Inr sample_dir) = Inr [''1_a.sql'', ''2_b.sql'']" by code_simp
  have "sorted [''1_a.sql'', ''2_b.sql'']" by code_simp
  then have new: "sorted_list_of_set (set [''1_a.sql'', ''2_b.sql'']) = [''1_a.sql'', ''2_b.sql'']"
    by (intro sorted_list_of_set_unique [THEN iffD1]) auto
  have contents: "sample_file ''1_a.sql'' = Inr ''CREATE TABLE a ''" "sample_file ''2_b.sql'' = Inr '' CREATE TABLE b''" by code_simp+
  from run_migrations_atomic [OF ref.migration_db_axioms sample_run] files new contents
  have "rd_view migrated_db = ([''1_a.sql'', ''2_b.sql''], [''CREATE TABLE a '', '' CREATE TABLE b''])"
    by (auto simp: empty_db_def)
  then show "rd_view (snd (run_migrations ref_env (Inr sample_dir) sample_file empty_db))
     = ([''1_a.sql'', ''2_b.sql''], [''CREATE TABLE a '', '' CREATE TABLE b''])" by (simp add: sample_run)
  obtain r2 w2 where "run_migrations ref_env (Inr sample_dir) sample_file migrated_db = (r2, w2)" by fastforce
  with run_migrations_atomic [OF ref.migration_db_axioms sample_run]
  show "rd_view (snd (run_migrations ref_env (Inr sample_dir) sample_file migrated_db)) = rd_view migrated_db" by simp
qed

end
