(* ===== verification/Exchange_Build.thy ===== *)
theory Exchange_Build
  imports Schema_Migrations Control_Types
begin

text \<open>
  Which collectors run: the collection plan (\<open>internal/scraper/common/plan.go\<close>, \<open>planner.go\<close>), the
  exchange adapters and their registry (\<open>internal/exchange\<close>), and how \<open>cmd/scraper/main.go\<close> calls
  them: the flags it clears under the control plane, the factories of managed collectors, and the
  store of a year. A collector is the call of its constructor, with the range of \<open>SetReverse\<close>.
  \<open>time.Parse\<close> and \<open>Time.Format\<close> for RFC 3339 are arguments, and so is the clock.
\<close>

datatype kind = Kline_Kind | Order_Book_Kind | Funding_Rate_Kind | Open_Interest_Kind
datatype market = Spot | Futures

type_synonym range = "(time \<times> time) option"

datatype scraper =
    Kline_Scraper string market string string range \<comment> \<open>symbol, market, exchange, interval\<close>
  | Order_Book_Scraper string market string
  | Funding_Scraper "string list" string range
  | Open_Interest_Scraper "string list" string range

fun is_kline :: "scraper \<Rightarrow> bool" where
  "is_kline (Kline_Scraper _ _ _ _ _) = True"
| "is_kline _ = False"

record 'w clock_env =
  ck_now :: "'w \<Rightarrow> time \<times> 'w"
  ck_parse :: "string \<Rightarrow> time res"
  ck_format :: "time \<Rightarrow> string"

subsection \<open>The collection plan\<close>

type_synonym kind_selection = "kind \<times> market"

record collection_plan =
  pl_reverse :: bool
  pl_spot_symbols :: "string list"
  pl_futures_symbols :: "string list"
  pl_kinds :: "kind_selection list"
  pl_realtime :: bool
  pl_start :: time
  pl_end :: time
  pl_warnings :: "string list"

definition when_on :: "bool \<Rightarrow> 'a \<Rightarrow> 'a list" where "when_on b x = (if b then [x] else [])"

definition no_forward :: "forward_config \<Rightarrow> bool" where
  "no_forward f \<longleftrightarrow> \<not> fw_spot_kline f \<and> \<not> fw_futures_kline f \<and> \<not> fw_spot_order_book f \<and> \<not> fw_futures_order_book f
     \<and> \<not> fw_funding_rate f \<and> \<not> fw_open_interest f"

definition forward_kinds :: "exchange_config \<Rightarrow> kind_selection list" where
  "forward_kinds cfg =
     (let f = ec_forward cfg;
          f = (if no_forward f
               then \<lparr>fw_spot_kline = True, fw_futures_kline = True, fw_spot_order_book = True, fw_futures_order_book = True,
                     fw_funding_rate = True, fw_open_interest = True\<rparr> else f)
      in when_on (fw_spot_kline f) (Kline_Kind, Spot) @ when_on (fw_futures_kline f) (Kline_Kind, Futures)
         @ when_on (fw_spot_order_book f) (Order_Book_Kind, Spot) @ when_on (fw_futures_order_book f) (Order_Book_Kind, Futures)
         @ when_on (fw_funding_rate f) (Funding_Rate_Kind, Futures) @ when_on (fw_open_interest f) (Open_Interest_Kind, Futures))"

definition reverse_kinds :: "exchange_config \<Rightarrow> kind_selection list" where
  "reverse_kinds cfg =
     (let r = ec_reverse cfg;
          none = \<not> rv_spot_kline r \<and> \<not> rv_futures_kline r \<and> \<not> rv_funding_rate r \<and> \<not> rv_open_interest r
      in when_on (none \<or> rv_spot_kline r) (Kline_Kind, Spot) @ when_on (none \<or> rv_futures_kline r) (Kline_Kind, Futures)
         @ when_on (none \<or> rv_funding_rate r) (Funding_Rate_Kind, Futures)
         @ when_on (none \<or> rv_open_interest r) (Open_Interest_Kind, Futures))"

definition normalize_reverse_range :: "'w clock_env \<Rightarrow> string \<Rightarrow> string \<Rightarrow> 'w \<Rightarrow> (time \<times> time \<times> string list) \<times> 'w" where
  "normalize_reverse_range env raw_start raw_end w =
     (let (now, w1) = ck_now env w;
          back = add_months now (- 1);
          (a, wa) = (if raw_start = [] then (back, [''empty start_time, fallback to now-30d''])
                     else (case ck_parse env raw_start of
                         Inr t \<Rightarrow> (t, [])
                       | Inl _ \<Rightarrow> (back, [''invalid start_time '' @ go_quote raw_start @ '', fallback to now-30d''])));
          (b, wb) = (if raw_end = [] then (now, [''empty end_time, fallback to now''])
                     else (case ck_parse env raw_end of
                         Inr t \<Rightarrow> (t, [])
                       | Inl _ \<Rightarrow> (now, [''invalid end_time '' @ go_quote raw_end @ '', fallback to now''])))
      in if \<not> a < b
         then ((back, now, wa @ wb @ [''end_time ('' @ ck_format env b @ '') <= start_time ('' @ ck_format env a
                 @ ''), fallback to [now-30d, now]'']), w1)
         else ((a, b, wa @ wb), w1))"

definition build_collection_plan :: "'w clock_env \<Rightarrow> exchange_config \<Rightarrow> string \<Rightarrow> 'w \<Rightarrow> collection_plan \<times> 'w" where
  "build_collection_plan env cfg mode w =
     (let m = norm_lower mode;
          plan = \<lparr>pl_reverse = False, pl_spot_symbols = ec_spot_symbols cfg, pl_futures_symbols = ec_futures_symbols cfg,
                  pl_kinds = [], pl_realtime = True, pl_start = zero_time, pl_end = zero_time, pl_warnings = []\<rparr>
      in if m = ''reverse''
         then (let warn = when_on (rv_spot_order_book (ec_reverse cfg)) ''reverse mode does not support spot orderbook; skipped''
                   @ when_on (rv_futures_order_book (ec_reverse cfg)) ''reverse mode does not support futures orderbook; skipped'';
                   ((a, b, more), w1) = normalize_reverse_range env (rv_start_time (ec_reverse cfg)) (rv_end_time (ec_reverse cfg)) w
               in (plan\<lparr>pl_reverse := True, pl_realtime := False, pl_kinds := reverse_kinds cfg, pl_start := a, pl_end := b,
                     pl_warnings := warn @ more\<rparr>, w1))
         else (plan\<lparr>pl_kinds := forward_kinds cfg,
                 pl_warnings := when_on (m \<noteq> [] \<and> m \<noteq> ''forward'') (''unsupported mode '' @ go_quote mode @ '', fallback to forward'')\<rparr>, w))"

definition plan_range :: "collection_plan \<Rightarrow> range" where
  "plan_range plan = (if pl_reverse plan then Some (pl_start plan, pl_end plan) else None)"

fun plan_item :: "collection_plan \<Rightarrow> kind_selection \<Rightarrow> scraper list" where
  "plan_item plan (Kline_Kind, Spot) = map (\<lambda>s. Kline_Scraper s Spot ''binance'' ''1m'' (plan_range plan)) (pl_spot_symbols plan)"
| "plan_item plan (Kline_Kind, Futures) = map (\<lambda>s. Kline_Scraper s Futures ''binance'' ''1m'' (plan_range plan)) (pl_futures_symbols plan)"
| "plan_item plan (Order_Book_Kind, Spot) = map (\<lambda>s. Order_Book_Scraper s Spot ''binance'') (pl_spot_symbols plan)"
| "plan_item plan (Order_Book_Kind, Futures) = map (\<lambda>s. Order_Book_Scraper s Futures ''binance'') (pl_futures_symbols plan)"
| "plan_item plan (Funding_Rate_Kind, Futures) =
     (if pl_futures_symbols plan = [] then [] else [Funding_Scraper (pl_futures_symbols plan) ''binance'' (plan_range plan)])"
| "plan_item plan (Open_Interest_Kind, Futures) = [Open_Interest_Scraper (pl_futures_symbols plan) ''binance'' (plan_range plan)]"
| "plan_item plan _ = []"

definition build_plugins :: "collection_plan \<Rightarrow> scraper list" where
  "build_plugins plan = concat (map (plan_item plan) (pl_kinds plan))"

fun can_reverse :: "kind \<Rightarrow> market \<Rightarrow> bool" where
  "can_reverse Order_Book_Kind _ = False"
| "can_reverse _ _ = True"

subsection \<open>The exchange adapters\<close>

record runtime_config =
  rc_mode :: string
  rc_exchange_name :: string
  rc_spot_symbols :: "string list"
  rc_futures_symbols :: "string list"
  rc_kline_intervals :: "string list"
  rc_forward :: forward_config
  rc_reverse :: reverse_config

definition parse_reverse_range :: "'w clock_env \<Rightarrow> reverse_config \<Rightarrow> 'w \<Rightarrow> (time \<times> time) \<times> 'w" where
  "parse_reverse_range env cfg w =
     (let (n1, w1) = ck_now env w; (n2, w2) = ck_now env w1
      in ((case ck_parse env (rv_start_time cfg) of Inr t \<Rightarrow> t | Inl _ \<Rightarrow> add_months n1 (- 1),
           case ck_parse env (rv_end_time cfg) of Inr t \<Rightarrow> t | Inl _ \<Rightarrow> n2), w2))"

text \<open>The range is read for each collector of a reverse run.\<close>

definition with_range :: "'w clock_env \<Rightarrow> bool \<Rightarrow> reverse_config \<Rightarrow> (range \<Rightarrow> scraper) \<Rightarrow> 'w \<Rightarrow> scraper \<times> 'w" where
  "with_range env reverse cfg mk w =
     (if reverse then (case parse_reverse_range env cfg w of (r, w1) \<Rightarrow> (mk (Some r), w1)) else (mk None, w))"

fun build_intervals ::
  "'w clock_env \<Rightarrow> bool \<Rightarrow> runtime_config \<Rightarrow> market \<Rightarrow> string \<Rightarrow> string list \<Rightarrow> 'w \<Rightarrow> scraper list \<times> 'w" where
  "build_intervals env reverse cfg m x [] w = ([], w)"
| "build_intervals env reverse cfg m x (i # is) w =
     (case with_range env reverse (rc_reverse cfg) (Kline_Scraper x m (rc_exchange_name cfg) i) w of
        (s, w1) \<Rightarrow> (case build_intervals env reverse cfg m x is w1 of (ss, w2) \<Rightarrow> (s # ss, w2)))"

fun build_symbols ::
  "'w clock_env \<Rightarrow> bool \<Rightarrow> runtime_config \<Rightarrow> market \<Rightarrow> bool \<Rightarrow> bool \<Rightarrow> string list \<Rightarrow> string list \<Rightarrow> 'w \<Rightarrow> scraper list \<times> 'w" where
  "build_symbols env reverse cfg m klines books ivs [] w = ([], w)"
| "build_symbols env reverse cfg m klines books ivs (s # ss) w =
     (case (if klines then build_intervals env reverse cfg m s ivs w else ([], w)) of
        (ks, w1) \<Rightarrow>
          (case build_symbols env reverse cfg m klines books ivs ss w1 of
             (rest, w2) \<Rightarrow> (ks @ when_on (books \<and> \<not> reverse) (Order_Book_Scraper s m (rc_exchange_name cfg)) @ rest, w2)))"

definition binance_build :: "'w clock_env \<Rightarrow> runtime_config \<Rightarrow> 'w \<Rightarrow> scraper list \<times> 'w" where
  "binance_build env cfg w =
     (let reverse = (norm_lower (rc_mode cfg) = ''reverse''); f = rc_forward cfg; r = rc_reverse cfg;
          ivs = (if rc_kline_intervals cfg = [] then [''1m''] else rc_kline_intervals cfg);
          (spot, w1) = build_symbols env reverse cfg Spot (fw_spot_kline f \<or> reverse \<and> rv_spot_kline r)
             (fw_spot_order_book f) ivs (rc_spot_symbols cfg) w;
          (fut, w2) = build_symbols env reverse cfg Futures (fw_futures_kline f \<or> reverse \<and> rv_futures_kline r)
             (fw_futures_order_book f) ivs (rc_futures_symbols cfg) w1;
          (fund, w3) = (if (fw_funding_rate f \<and> \<not> reverse \<or> reverse \<and> rv_funding_rate r) \<and> rc_futures_symbols cfg \<noteq> []
             then (case with_range env reverse r (Funding_Scraper (rc_futures_symbols cfg) (rc_exchange_name cfg)) w2 of (s, w3) \<Rightarrow> ([s], w3))
             else ([], w2));
          (oi, w4) = (if fw_open_interest f \<and> \<not> reverse \<or> reverse \<and> rv_open_interest r
             then (case with_range env reverse r (Open_Interest_Scraper (rc_futures_symbols cfg) (rc_exchange_name cfg)) w3 of (s, w4) \<Rightarrow> ([s], w4))
             else ([], w3))
      in (spot @ fut @ fund @ oi, w4))"

definition okx_build :: "runtime_config \<Rightarrow> 'w \<Rightarrow> scraper list \<times> 'w" where
  "okx_build cfg w = ([], w)"

text \<open>The registry is a map from normalised names to adapters.\<close>

type_synonym 'w build = "runtime_config \<Rightarrow> 'w \<Rightarrow> scraper list \<times> 'w"
type_synonym 'w registry = "(string \<times> 'w build) list"

definition register :: "string \<Rightarrow> 'w build \<Rightarrow> 'w registry \<Rightarrow> 'w registry" where
  "register name f r = (norm_lower name, f) # filter (\<lambda>p. fst p \<noteq> norm_lower name) r"

definition registry_build :: "'w registry \<Rightarrow> string \<Rightarrow> runtime_config \<Rightarrow> 'w \<Rightarrow> scraper list res \<times> 'w" where
  "registry_build r name cfg w =
     (case map_of r (norm_lower name) of
        None \<Rightarrow> (Inl (Err (''exchange '' @ go_quote name @ '' not registered'')), w)
      | Some build \<Rightarrow> (case build cfg w of (ss, w1) \<Rightarrow> (Inr ss, w1)))"

subsection \<open>The service\<close>

definition main_registry :: "'w clock_env \<Rightarrow> 'w registry" where
  "main_registry env = register ''okx'' okx_build (register ''binance'' (binance_build env) [])"

definition exchange_runtime :: "config \<Rightarrow> string \<Rightarrow> exchange_config \<Rightarrow> runtime_config" where
  "exchange_runtime c name ec =
     (let rc = \<lparr>rc_mode = (if cf_mode c = [] then ''forward'' else cf_mode c), rc_exchange_name = name,
                rc_spot_symbols = ec_spot_symbols ec, rc_futures_symbols = ec_futures_symbols ec,
                rc_kline_intervals = ec_kline_intervals ec, rc_forward = ec_forward ec, rc_reverse = ec_reverse ec\<rparr>
      in if cp_enabled (cf_control_plane c)
         then rc\<lparr>rc_forward := (rc_forward rc)\<lparr>fw_spot_kline := False, fw_futures_kline := False\<rparr>\<rparr>
         else rc)"

definition build_exchange :: "'w clock_env \<Rightarrow> config \<Rightarrow> string \<Rightarrow> exchange_config \<Rightarrow> 'w \<Rightarrow> scraper list res \<times> 'w" where
  "build_exchange env c name ec w =
     (if ec_enabled ec then registry_build (main_registry env) name (exchange_runtime c name ec) w else (Inr [], w))"

definition build_all :: "'w clock_env \<Rightarrow> config \<Rightarrow> 'w \<Rightarrow> scraper list res \<times> 'w" where
  "build_all env c w =
     (case build_exchange env c ''binance'' (cf_binance c) w of
        (Inl e, w1) \<Rightarrow> (Inl e, w1)
      | (Inr bs, w1) \<Rightarrow>
        (case build_exchange env c ''okx'' (cf_okx c) w1 of
           (Inl e, w2) \<Rightarrow> (Inl e, w2)
         | (Inr os, w2) \<Rightarrow> (Inr (bs @ os), w2)))"

text \<open>The factories of managed collectors.\<close>

definition binance_managed_kline :: "stream \<Rightarrow> scraper res" where
  "binance_managed_kline s =
     (let k = sm_key s
      in if sk_market k = ''spot'' then Inr (Kline_Scraper (sk_symbol k) Spot (sk_exchange k) (sk_interval k) None)
         else if sk_market k = ''futures'' then Inr (Kline_Scraper (sk_symbol k) Futures (sk_exchange k) (sk_interval k) None)
         else Inl (Err (''managed kline market '' @ go_quote (sk_market k) @ '' is not supported for exchange ''
                @ go_quote (sk_exchange k))))"

definition unsupported_managed_kline :: "string \<Rightarrow> stream \<Rightarrow> scraper res" where
  "unsupported_managed_kline name s =
     Inl (Err (''managed control-plane kline collectors are not implemented for exchange '' @ go_quote name))"

definition managed_factories :: "config \<Rightarrow> (string \<times> (stream \<Rightarrow> scraper res)) list" where
  "managed_factories c =
     when_on (ec_enabled (cf_binance c) \<and> cp_enabled (cf_control_plane c)) (''binance'', binance_managed_kline)
     @ when_on (ec_enabled (cf_okx c) \<and> cp_enabled (cf_control_plane c)) (''okx'', unsupported_managed_kline ''okx'')"

text \<open>The store of a year: connect to its database, then bring the schema up to date.\<close>

record ('s, 'w) store_env =
  st_connect :: "string \<Rightarrow> string \<Rightarrow> 'w \<Rightarrow> 's res \<times> 'w" \<comment> \<open>connection string, exchange\<close>
  st_init :: "'s \<Rightarrow> 'w \<Rightarrow> go_error option \<times> 'w"
  st_close :: "'s \<Rightarrow> 'w \<Rightarrow> 'w"

definition open_year_store :: "('s, 'w) store_env \<Rightarrow> string \<Rightarrow> database_config \<Rightarrow> string \<Rightarrow> int \<Rightarrow> 'w \<Rightarrow> 's res \<times> 'w" where
  "open_year_store env name cfg exchange year w =
     (case database_name_for_year (dc_dbname cfg) exchange year of
        Inl e \<Rightarrow> (Inl e, w)
      | Inr db \<Rightarrow>
        (case st_connect env (connection_string (cfg\<lparr>dc_dbname := db\<rparr>)) name w of
           (Inl e, w1) \<Rightarrow> (Inl (Wrapped (''connect TimescaleDB('' @ db @ '')'') e), w1)
         | (Inr s, w1) \<Rightarrow>
           (case st_init env s w1 of
              (Some e, w2) \<Rightarrow> (Inl (Wrapped (''init schema('' @ db @ '')'') e), st_close env s w2)
            | (None, w2) \<Rightarrow> (Inr s, w2))))"

subsection \<open>Lemmas\<close>

text \<open>Forward, building reads no clock: the collectors are a plain list.\<close>

definition forward_klines :: "runtime_config \<Rightarrow> market \<Rightarrow> string list \<Rightarrow> string \<Rightarrow> scraper list" where
  "forward_klines cfg m ivs x = map (\<lambda>i. Kline_Scraper x m (rc_exchange_name cfg) i None) ivs"

definition forward_symbols :: "runtime_config \<Rightarrow> market \<Rightarrow> bool \<Rightarrow> bool \<Rightarrow> string list \<Rightarrow> string list \<Rightarrow> scraper list" where
  "forward_symbols cfg m klines books ivs xs =
     concat (map (\<lambda>x. (if klines then forward_klines cfg m ivs x else []) @ when_on books (Order_Book_Scraper x m (rc_exchange_name cfg))) xs)"

lemma build_intervals_forward: "build_intervals env False cfg m x ivs w = (forward_klines cfg m ivs x, w)"
  by (induction ivs) (simp_all add: forward_klines_def with_range_def)

lemma build_symbols_forward:
  "build_symbols env False cfg m klines books ivs xs w = (forward_symbols cfg m klines books ivs xs, w)"
  by (induction xs; cases klines) (simp_all add: forward_symbols_def build_intervals_forward)

definition intervals_of :: "runtime_config \<Rightarrow> string list" where
  "intervals_of cfg = (if rc_kline_intervals cfg = [] then [''1m''] else rc_kline_intervals cfg)"

lemma binance_build_forward:
  "norm_lower (rc_mode cfg) \<noteq> ''reverse'' \<Longrightarrow> binance_build env cfg w =
    (forward_symbols cfg Spot (fw_spot_kline (rc_forward cfg)) (fw_spot_order_book (rc_forward cfg)) (intervals_of cfg) (rc_spot_symbols cfg)
     @ forward_symbols cfg Futures (fw_futures_kline (rc_forward cfg)) (fw_futures_order_book (rc_forward cfg)) (intervals_of cfg) (rc_futures_symbols cfg)
     @ when_on (fw_funding_rate (rc_forward cfg) \<and> rc_futures_symbols cfg \<noteq> []) (Funding_Scraper (rc_futures_symbols cfg) (rc_exchange_name cfg) None)
     @ when_on (fw_open_interest (rc_forward cfg)) (Open_Interest_Scraper (rc_futures_symbols cfg) (rc_exchange_name cfg) None), w)"
  by (simp add: binance_build_def build_symbols_forward with_range_def when_on_def intervals_of_def Let_def)

lemma when_on_set [simp]: "x \<in> set (when_on b y) \<longleftrightarrow> b \<and> x = y"
  by (auto simp: when_on_def)

lemma when_on_mset: "mset (when_on b y) = (if b then {#y#} else {#})"
  by (simp add: when_on_def)

lemma forward_symbols_klines:
  "Kline_Scraper x m' e i r \<in> set (forward_symbols cfg m klines books ivs xs)
   \<longleftrightarrow> klines \<and> m' = m \<and> x \<in> set xs \<and> i \<in> set ivs \<and> e = rc_exchange_name cfg \<and> r = None"
  by (auto simp: forward_symbols_def forward_klines_def)

text \<open>The collection plan collects bars of one minute only.\<close>

fun minute_or_other :: "scraper \<Rightarrow> bool" where
  "minute_or_other (Kline_Scraper x m e i r) = (i = ''1m'')"
| "minute_or_other _ = True"

lemma minute_klines:
  "count_list ivs ''1m'' = 1 \<Longrightarrow> filter minute_or_other (forward_klines cfg m ivs x) = [Kline_Scraper x m (rc_exchange_name cfg) ''1m'' None]"
proof -
  have none: "''1m'' \<notin> set is \<Longrightarrow> filter minute_or_other (forward_klines cfg m is x) = []" for "is"
    by (auto simp: forward_klines_def filter_empty_conv)
  have cons: "forward_klines cfg m (i # is) x = Kline_Scraper x m (rc_exchange_name cfg) i None # forward_klines cfg m is x" for i "is"
    by (simp add: forward_klines_def)
  show "count_list ivs ''1m'' = 1 \<Longrightarrow> ?thesis"
  proof (induction ivs)
    case (Cons i ivs)
    then show ?case by (cases "i = ''1m''") (simp_all add: cons none count_list_0_iff)
  qed simp
qed

lemma forward_symbols_mset:
  "count_list ivs ''1m'' = 1 \<Longrightarrow> mset (filter minute_or_other (forward_symbols cfg m klines books ivs xs))
   = mset (if klines then map (\<lambda>x. Kline_Scraper x m (rc_exchange_name cfg) ''1m'' None) xs else [])
     + mset (if books then map (\<lambda>x. Order_Book_Scraper x m (rc_exchange_name cfg)) xs else [])"
proof -
  assume one: "count_list ivs ''1m'' = 1"
  have "filter_mset minute_or_other (mset (forward_klines cfg m ivs x)) = {#Kline_Scraper x m (rc_exchange_name cfg) ''1m'' None#}" for x
    using minute_klines [OF one, of cfg m x] by (metis mset_filter mset_single_iff)
  then show ?thesis by (induction xs) (auto simp: forward_symbols_def when_on_def)
qed

lemma is_kline_iff: "is_kline s \<longleftrightarrow> (\<exists>x m e i r. s = Kline_Scraper x m e i r)"
  by (cases s) auto

lemma registered: "map_of (main_registry env) ''binance'' = Some (binance_build env)" "map_of (main_registry env) ''okx'' = Some okx_build"
  by (simp_all add: main_registry_def register_def)

lemma build_exchange_ok:
  "build_exchange env c ''binance'' ec w = (case (if ec_enabled ec then binance_build env (exchange_runtime c ''binance'' ec) w else ([], w)) of (ss, w1) \<Rightarrow> (Inr ss, w1))"
  "build_exchange env c ''okx'' ec w = (Inr [], w)"
  by (simp_all add: build_exchange_def registry_build_def registered okx_build_def split: prod.split)

subsection \<open>Properties\<close>

text \<open>
  No stream has two collectors: under the control plane, whatever a validated configuration enables,
  building the service's own collectors succeeds and none of them collects bars, which is left to
  the managed streams.
\<close>

theorem managed_klines_not_built_twice:
  assumes "validate_config c0 = Inr c" and "cp_enabled (cf_control_plane c)"
  shows "\<exists>ss. build_all env c w = (Inr ss, w) \<and> (\<forall>s \<in> set ss. \<not> is_kline s)"
proof -
  let ?cfg = "exchange_runtime c ''binance'' (cf_binance c)"
  have mode: "cf_mode c = ''forward''" using validate_config_Inr [OF assms(1)] assms(2) by metis
  have m: "norm_lower (rc_mode ?cfg) \<noteq> ''reverse''"
  proof -
    have "norm_lower ''forward'' = ''forward''" by code_simp
    with mode show ?thesis by (simp add: exchange_runtime_def Let_def)
  qed
  have off: "\<not> fw_spot_kline (rc_forward ?cfg)" "\<not> fw_futures_kline (rc_forward ?cfg)"
    using assms(2) by (simp_all add: exchange_runtime_def Let_def)
  have none: "\<not> is_kline s" if "s \<in> set (fst (binance_build env ?cfg w))" for s
    using that off by (auto simp: is_kline_iff binance_build_forward [OF m] forward_symbols_klines)
  have same: "snd (binance_build env ?cfg w) = w" by (simp add: binance_build_forward [OF m])
  let ?ss = "if ec_enabled (cf_binance c) then fst (binance_build env ?cfg w) else []"
  have "build_exchange env c ''binance'' (cf_binance c) w = (Inr ?ss, w)"
    using same by (auto simp: build_exchange_ok split: prod.split)
  then have "build_all env c w = (Inr ?ss, w)" by (simp add: build_all_def build_exchange_ok)
  moreover have "\<forall>s \<in> set ?ss. \<not> is_kline s" using none by simp
  ultimately show ?thesis by blast
qed

definition still_clock :: "unit clock_env" where
  "still_clock = \<lparr>ck_now = (\<lambda>w. (0, w)), ck_parse = (\<lambda>t. Inl (Err ''bad'')), ck_format = (\<lambda>t. [])\<rparr>"

theorem managed_klines_not_built_twice_witness:
  "\<exists>ss. build_all still_clock sample_validated () = (Inr ss, ()) \<and> filter is_kline ss = []"
proof -
  have "cp_enabled (cf_control_plane sample_validated)" by code_simp
  from managed_klines_not_built_twice [OF sample_validates this, of still_clock "()"]
  show ?thesis by (auto simp: filter_empty_conv)
qed

text \<open>
  Forward, the Binance adapter builds a bar collector for exactly the pairs of a configured symbol and
  a configured interval (\<open>1m\<close> when there is none) of each market that is switched on, all of them
  without a range and for the exchange it was called for.
\<close>

theorem forward_build_klines:
  assumes "norm_lower (rc_mode cfg) \<noteq> ''reverse''"
  shows "Kline_Scraper x m e i r \<in> set (fst (binance_build env cfg w))
    \<longleftrightarrow> e = rc_exchange_name cfg \<and> r = None \<and> i \<in> set (if rc_kline_intervals cfg = [] then [''1m''] else rc_kline_intervals cfg)
      \<and> (case m of Spot \<Rightarrow> fw_spot_kline (rc_forward cfg) \<and> x \<in> set (rc_spot_symbols cfg)
         | Futures \<Rightarrow> fw_futures_kline (rc_forward cfg) \<and> x \<in> set (rc_futures_symbols cfg))"
  unfolding binance_build_forward [OF assms]
  by (auto simp: forward_symbols_klines intervals_of_def split: market.splits)

definition sample_runtime :: runtime_config where
  "sample_runtime = exchange_runtime (sample_validated\<lparr>cf_control_plane := (cf_control_plane sample_validated)\<lparr>cp_enabled := False\<rparr>\<rparr>)
     ''binance'' (cf_binance sample_validated)"

theorem forward_build_klines_witness:
  "Kline_Scraper ''BTCUSDT'' Spot ''binance'' ''1m'' None \<in> set (fst (binance_build still_clock sample_runtime ()))"
proof -
  have m: "norm_lower (rc_mode sample_runtime) \<noteq> ''reverse''" by code_simp
  have "rc_exchange_name sample_runtime = ''binance''" "rc_kline_intervals sample_runtime = [''1m'']"
    "fw_spot_kline (rc_forward sample_runtime)" "rc_spot_symbols sample_runtime = [''BTCUSDT'']" by code_simp+
  then show ?thesis by (simp add: forward_build_klines [OF m])
qed


text \<open>With everything switched off they differ: the plan collects everything, the adapter nothing.\<close>

definition silent_exchange :: exchange_config where
  "silent_exchange = sample_exchange\<lparr>ec_forward := (ec_forward sample_exchange)\<lparr>fw_spot_kline := False\<rparr>\<rparr>"

lemma silent_exchange_differs:
  "build_plugins (fst (build_collection_plan still_clock silent_exchange ''forward'' ()))
     = [Kline_Scraper ''BTCUSDT'' Spot ''binance'' ''1m'' None, Order_Book_Scraper ''BTCUSDT'' Spot ''binance'',
        Open_Interest_Scraper [] ''binance'' None]
   \<and> fst (binance_build still_clock (exchange_runtime sample_settings ''binance'' silent_exchange) ()) = []"
  by code_simp

text \<open>Reverse, the adapter follows the forward flag of the bars, and the plan does not.\<close>

lemma reverse_follows_forward_flag:
  "build_plugins (fst (build_collection_plan still_clock (sample_exchange\<lparr>ec_reverse := (ec_reverse sample_exchange)\<lparr>rv_funding_rate := True\<rparr>,
      ec_futures_symbols := [''ETHUSDT'']\<rparr>) ''reverse'' ()))
     = [Funding_Scraper [''ETHUSDT''] ''binance'' (Some (add_months 0 (- 1), 0))]
   \<and> length (fst (binance_build still_clock (sample_runtime\<lparr>rc_mode := ''reverse'', rc_futures_symbols := [''ETHUSDT''],
      rc_reverse := (ec_reverse sample_exchange)\<lparr>rv_funding_rate := True\<rparr>\<rparr>) ())) = 2"
  by code_simp

text \<open>Bars of one and of five minutes: the adapter builds both, the plan the first.\<close>

definition two_intervals :: exchange_config where
  "two_intervals = sample_exchange\<lparr>ec_kline_intervals := [''5m'', ''1m'']\<rparr>"


end
