(* ===== verification/Control_Run.thy ===== *)
theory Control_Run
  imports Control_Client Exchange_Build
begin

text \<open>
  The life of the two control-plane runtimes: \<open>NewRuntime\<close>, \<open>Run\<close>, \<open>Stop\<close> and \<open>shutdown\<close> of
  \<open>internal/controlplane/runtime.go\<close> and of \<open>history_runtime.go\<close>, and the wiring of both by
  \<open>cmd/scraper/main.go\<close>. The clock, the ticker with the context's end, and what the other
  goroutines do between two rounds are the fields of \<open>runtime_env\<close>.
\<close>

subsection \<open>Construction\<close>

record 'c runtime_options =
  ro_client :: "'c option"
  ro_factories :: "(string \<times> (stream \<Rightarrow> scraper res) option) list"
  ro_publisher :: bool
  ro_reconcile :: duration
  ro_grace :: duration
  ro_report_timeout :: duration

record 'c live_runtime =
  lr_client :: "'c option"
  lr_config :: live_config
  lr_interval :: duration
  lr_report_timeout :: duration

text \<open>The factories in the order in which the Go map is read: a later one with the same name replaces an earlier.\<close>

definition add_factory ::
  "string \<times> (stream \<Rightarrow> scraper res) option \<Rightarrow> (string \<Rightarrow> (stream \<Rightarrow> scraper res) option) \<Rightarrow> string \<Rightarrow> (stream \<Rightarrow> scraper res) option" where
  "add_factory f m =
     (let k = norm_lower (fst f)
      in if k = [] \<or> snd f = None then m else m(k := snd f))"

definition factory_error :: "(stream \<Rightarrow> scraper res) \<Rightarrow> stream \<Rightarrow> go_error option" where
  "factory_error f s = (case f s of Inl e \<Rightarrow> Some e | Inr _ \<Rightarrow> None)"

definition or_default :: "duration \<Rightarrow> duration \<Rightarrow> duration" where
  "or_default d v = (if v \<le> 0 then d else v)"

definition new_runtime :: "'c runtime_options \<Rightarrow> 'c live_runtime" where
  "new_runtime o' =
     \<lparr>lr_client = ro_client o',
      lr_config = \<lparr>lc_publisher = ro_publisher o', lc_grace = or_default (60 * second) (ro_grace o'),
        lc_factories = (\<lambda>k. map_option factory_error (fold add_factory (ro_factories o') (\<lambda>_. None) k))\<rparr>,
      lr_interval = or_default (5 * second) (ro_reconcile o'),
      lr_report_timeout = or_default (5 * second) (ro_report_timeout o')\<rparr>"

record 'c history_runtime =
  hn_client :: "'c option"
  hn_databases :: "string \<Rightarrow> database_config option"
  hn_interval :: duration

definition add_database :: "string \<times> database_config \<Rightarrow> (string \<Rightarrow> database_config option) \<Rightarrow> string \<Rightarrow> database_config option" where
  "add_database d m = (let k = norm_lower (fst d) in if k = [] then m else m(k \<mapsto> snd d))"

definition new_historical_runtime :: "'c option \<Rightarrow> (string \<times> database_config) list \<Rightarrow> duration \<Rightarrow> 'c history_runtime" where
  "new_historical_runtime client dbs interval =
     \<lparr>hn_client = client, hn_databases = fold add_database dbs (\<lambda>_. None), hn_interval = or_default (5 * second) interval\<rparr>"

text \<open>
  What \<open>main\<close> makes of the configuration when the control plane is enabled: the client, the manager of
  writer leases and the two runtimes. The lease client is the same connection.
\<close>

record 'w control_plane =
  pn_client :: "'w grpc_client"
  pn_leases :: "'w lease_manager"
  pn_live :: "'w grpc_client live_runtime"
  pn_history :: "'w grpc_client history_runtime"

definition wire_control_plane ::
  "(string \<Rightarrow> 'w control_rpc res) \<Rightarrow> ('w grpc_client \<Rightarrow> 'w lease_rpc) \<Rightarrow> config \<Rightarrow> string \<Rightarrow> 'w control_plane res" where
  "wire_control_plane dial leases c instance_id =
     (let cp = cf_control_plane c; timeout = dur_mul (cp_timeout_seconds cp) second
      in case new_grpc_client dial (cp_grpc cp) timeout of
        Inl e \<Rightarrow> Inl (Wrapped ''Failed to init market-data control-plane client'' e)
      | Inr client \<Rightarrow> Inr
          \<lparr>pn_client = client,
           pn_leases = new_writer_lease_manager (Some (create_or_renew_writer_lease (leases client))) instance_id instance_id (90 * second),
           pn_live = new_runtime \<lparr>ro_client = Some client,
             ro_factories = map (\<lambda>(k, f). (k, Some f)) (managed_factories c), ro_publisher = kf_enabled (cf_kafka c),
             ro_reconcile = dur_mul (cp_reconcile_seconds cp) second, ro_grace = dur_mul (cp_draining_seconds cp) second,
             ro_report_timeout = timeout\<rparr>,
           pn_history = new_historical_runtime (Some client)
             [(''binance'', ec_database (cf_binance c)), (''okx'', ec_database (cf_okx c))]
             (dur_mul (cp_reconcile_seconds cp) second)\<rparr>)"

subsection \<open>The life of the live runtime\<close>

text \<open>
  The runtime's state, whether the context of \<open>Run\<close> has ended, whether \<open>Run\<close> has stored its cancel
  function, the two \<open>sync.Once\<close>, and how often the client was closed. \<open>has\<close> says whether there is a
  client.
\<close>

record live_life =
  lf_state :: live_state
  lf_ended :: bool
  lf_run_cancel :: bool
  lf_stop_once :: bool
  lf_shutdown_once :: bool
  lf_closes :: nat

definition life_init :: live_life where
  "life_init = \<lparr>lf_state = live_init, lf_ended = False, lf_run_cancel = False, lf_stop_once = False,
     lf_shutdown_once = False, lf_closes = 0\<rparr>"

definition shutdown_once :: "bool \<Rightarrow> live_life \<Rightarrow> live_life" where
  "shutdown_once has l =
     (if lf_shutdown_once l then l
      else l\<lparr>lf_shutdown_once := True, lf_state := live_shutdown (lf_state l),
             lf_closes := lf_closes l + (if has then 1 else 0)\<rparr>)"

definition live_stop :: "bool \<Rightarrow> live_life \<Rightarrow> live_life" where
  "live_stop has l =
     (if lf_stop_once l then l
      else shutdown_once has (l\<lparr>lf_stop_once := True, lf_ended := lf_ended l \<or> lf_run_cancel l\<rparr>))"

text \<open>The deferred calls of \<open>Run\<close>: first the shutdown, then the cancel.\<close>

definition run_ends :: "bool \<Rightarrow> live_life \<Rightarrow> live_life" where
  "run_ends has l = (shutdown_once has l)\<lparr>lf_ended := True\<rparr>"

record 'w runtime_env =
  ru_list :: "'w \<Rightarrow> stream list res \<times> 'w"
  ru_now :: "'w \<Rightarrow> time \<times> 'w"
  ru_wait :: "duration \<Rightarrow> 'w \<Rightarrow> bool \<times> 'w" \<comment> \<open>True when the context has ended\<close>
  ru_others :: "'w \<Rightarrow> live_life \<Rightarrow> live_life"

text \<open>\<open>ReconcileOnce\<close> with its listing; its error is logged by \<open>Run\<close>.\<close>

definition live_reconcile_once ::
  "'w runtime_env \<Rightarrow> 'c live_runtime \<Rightarrow> live_state \<times> 'w \<Rightarrow> go_error option \<times> live_state \<times> 'w" where
  "live_reconcile_once env rt st =
     (if lr_client rt = None then (Some (Err ''control-plane runtime client is required''), st)
      else (case ru_list env (snd st) of
          (Inl e, w1) \<Rightarrow> (Some e, fst st, w1)
        | (Inr streams, w1) \<Rightarrow>
          (case ru_now env w1 of (now, w2) \<Rightarrow> (None, reconcile_once (lr_config rt) now streams (fst st), w2))))"

definition run_round :: "'w runtime_env \<Rightarrow> 'c live_runtime \<Rightarrow> live_life \<times> 'w \<Rightarrow> live_life \<times> 'w" where
  "run_round env rt lw =
     (case live_reconcile_once env rt (lf_state (fst lw), snd lw) of
        (_, st, w1) \<Rightarrow> ((fst lw)\<lparr>lf_state := st\<rparr>, w1))"

fun live_rounds :: "nat \<Rightarrow> 'w runtime_env \<Rightarrow> 'c live_runtime \<Rightarrow> live_life \<times> 'w \<Rightarrow> (live_life \<times> 'w) option" where
  "live_rounds 0 env rt lw = None"
| "live_rounds (Suc n) env rt lw =
     (case ru_wait env (lr_interval rt) (snd lw) of
        (True, w1) \<Rightarrow> Some (ru_others env w1 (fst lw), w1)
      | (False, w1) \<Rightarrow> live_rounds n env rt (run_round env rt (ru_others env w1 (fst lw), w1)))"

definition live_run :: "nat \<Rightarrow> 'w runtime_env \<Rightarrow> 'c live_runtime \<Rightarrow> live_life \<times> 'w \<Rightarrow> (live_life \<times> 'w) option" where
  "live_run n env rt lw =
     map_option (\<lambda>(l, w). (run_ends (lr_client rt \<noteq> None) l, w))
       (live_rounds n env rt (run_round env rt ((fst lw)\<lparr>lf_run_cancel := True\<rparr>, snd lw)))"

subsection \<open>The life of the history runtime\<close>

record history_life =
  hf_state :: history_state
  hf_ended :: bool
  hf_run_cancel :: bool

definition history_stop :: "history_life \<Rightarrow> history_life" where
  "history_stop l = l\<lparr>hf_ended := hf_ended l \<or> hf_run_cancel l, hf_state := stop_all (hf_state l)\<rparr>"

record 'w history_runtime_env =
  hu_list :: "'w \<Rightarrow> historical_request list res \<times> 'w"
  hu_wait :: "duration \<Rightarrow> 'w \<Rightarrow> bool \<times> 'w"
  hu_others :: "'w \<Rightarrow> history_life \<Rightarrow> history_life"

definition history_round ::
  "'w history_runtime_env \<Rightarrow> 'c history_runtime \<Rightarrow> history_life \<times> 'w \<Rightarrow> history_life \<times> 'w" where
  "history_round env rt lw =
     (case hu_list env (snd lw) of
        (Inl e, w1) \<Rightarrow> (fst lw, w1)
      | (Inr reqs, w1) \<Rightarrow>
          ((fst lw)\<lparr>hf_state := history_reconcile_once (\<lambda>k. hn_databases rt k \<noteq> None) reqs (hf_state (fst lw))\<rparr>, w1))"

fun history_rounds :: "nat \<Rightarrow> 'w history_runtime_env \<Rightarrow> 'c history_runtime \<Rightarrow> history_life \<times> 'w \<Rightarrow> (history_life \<times> 'w) option" where
  "history_rounds 0 env rt lw = None"
| "history_rounds (Suc n) env rt lw =
     (case hu_wait env (hn_interval rt) (snd lw) of
        (True, w1) \<Rightarrow>
          (let l = hu_others env w1 (fst lw) in Some (l\<lparr>hf_state := stop_all (hf_state l), hf_ended := True\<rparr>, w1))
      | (False, w1) \<Rightarrow> history_rounds n env rt (history_round env rt (hu_others env w1 (fst lw), w1)))"

definition history_run :: "nat \<Rightarrow> 'w history_runtime_env \<Rightarrow> 'c history_runtime \<Rightarrow> history_life \<times> 'w \<Rightarrow> (history_life \<times> 'w) option" where
  "history_run n env rt lw =
     (if hn_client rt = None then Some lw
      else history_rounds n env rt (history_round env rt ((fst lw)\<lparr>hf_run_cancel := True\<rparr>, snd lw)))"

subsection \<open>Every order of Run, Stop and the other goroutines\<close>

inductive life_step :: "live_config \<Rightarrow> bool \<Rightarrow> live_life \<Rightarrow> live_life \<Rightarrow> bool" for cfg has where
  begins: "life_step cfg has l (l\<lparr>lf_run_cancel := True\<rparr>)"
| inner: "keep_step cfg (lf_state l) st \<Longrightarrow> life_step cfg has l (l\<lparr>lf_state := st\<rparr>)"
| parent: "life_step cfg has l (l\<lparr>lf_ended := True\<rparr>)"
| stop: "life_step cfg has l (live_stop has l)"
| ends: "lf_ended l \<Longrightarrow> life_step cfg has l (run_ends has l)"

definition life_reach :: "live_config \<Rightarrow> bool \<Rightarrow> live_life \<Rightarrow> bool" where
  "life_reach cfg has l \<longleftrightarrow> (life_step cfg has)\<^sup>*\<^sup>* life_init l"

definition life_inv :: "live_config \<Rightarrow> bool \<Rightarrow> live_life \<Rightarrow> bool" where
  "life_inv cfg has l \<longleftrightarrow> lf_closes l = (if lf_shutdown_once l \<and> has then 1 else 0)
     \<and> (lf_stop_once l \<longrightarrow> lf_shutdown_once l) \<and> (\<not> lf_shutdown_once l \<longrightarrow> kept_reach cfg (lf_state l))"

lemma shutdown_once_idem: "shutdown_once has (shutdown_once has l) = shutdown_once has l"
  by (simp add: shutdown_once_def)

lemma live_stop_idem: "live_stop has (live_stop has l) = live_stop has l"
  by (simp add: live_stop_def shutdown_once_def)

lemma life_step_inv: "life_step cfg has l l' \<Longrightarrow> life_inv cfg has l \<Longrightarrow> life_inv cfg has l'"
proof (induction rule: life_step.induct)
  case (inner l st)
  then have "\<not> lf_shutdown_once l \<longrightarrow> kept_reach cfg st"
    unfolding life_inv_def kept_reach_def by (metis rtranclp.rtrancl_into_rtrancl)
  with inner show ?case by (simp add: life_inv_def)
qed (auto simp: life_inv_def live_stop_def run_ends_def shutdown_once_def)

lemma life_reach_inv: "life_reach cfg has l \<Longrightarrow> life_inv cfg has l"
  unfolding life_reach_def
proof (induction rule: rtranclp_induct)
  case base
  show ?case by (simp add: life_inv_def life_init_def kept_reach_def)
qed (rule life_step_inv)

lemma kept_shutdown:
  assumes "kept_reach cfg st"
  shows "lv_managed (live_shutdown st) = []" "lv_to_stop (live_shutdown st) = {}"
    and "lv_tasks (live_shutdown st) n = Some t \<Longrightarrow> n \<in> lv_stopped (live_shutdown st)"
proof -
  have shut: "live_shutdown st = st\<lparr>lv_managed := [], lv_to_stop := {},
      lv_stopped := lv_stopped st \<union> (lv_to_stop st \<union> collectors_of (lv_managed st))\<rparr>"
    by (simp add: live_shutdown_def perform_stops_def stop_missing_streams_def)
  then show "lv_managed (live_shutdown st) = []" "lv_to_stop (live_shutdown st) = {}" by simp_all
  assume "lv_tasks (live_shutdown st) n = Some t"
  then have t: "lv_tasks st n = Some t" using shut by simp
  then have ok: "task_ok st n t" using kept_reach_inv [OF assms] by (simp add: tasks_ok_def)
  then obtain h where h: "map_of (lv_managed st) (tk_stream t) = Some h" "tk_version t \<le> ms_version h"
    "tk_version t = ms_version h \<longrightarrow> ms_collector h = Some n"
    "tk_version t < ms_version h \<longrightarrow> n \<in> lv_to_stop st \<union> lv_stopped st" unfolding task_ok_def by blast
  have "n \<in> lv_to_stop st \<union> lv_stopped st \<union> collectors_of (lv_managed st)"
  proof (cases "tk_version t = ms_version h")
    case True
    with h map_of_SomeD [OF h(1)] show ?thesis by (force simp: collectors_of_def)
  next
    case False
    with h(2,4) show ?thesis by auto
  qed
  then show "n \<in> lv_stopped (live_shutdown st)" by (auto simp: shut)
qed

lemma history_stopped:
  assumes "history_inv st"
  shows "hy_in_flight (stop_all st) = []" "(n, i) \<in> set (hy_workers (stop_all st)) \<Longrightarrow> n \<in> hy_cancelled (stop_all st)"
proof -
  show "hy_in_flight (stop_all st) = []" by (simp add: stop_all_def cancel_missing_def)
  assume "(n, i) \<in> set (hy_workers (stop_all st))"
  then have "(i, n) \<in> set (hy_in_flight st)" using assms by (simp add: stop_all_def cancel_missing_def history_inv_def)
  then show "n \<in> hy_cancelled (stop_all st)" by (force simp: stop_all_def cancel_missing_def)
qed

subsection \<open>Properties\<close>


definition started_life :: live_life where
  "started_life = life_init\<lparr>lf_run_cancel := True,
     lf_state := reconcile_stream sample_config 0 (sample_stream 7 ''running'') (\<lambda>_. None) live_init\<rparr>"


lemma failed_round:
  assumes "\<And>w. \<exists>e w'. ru_list env w = (Inl e, w')"
  shows "\<exists>w1. run_round env rt (l, w) = (l, w1)"
proof -
  obtain e w1 where "ru_list env w = (Inl e, w1)" using assms by blast
  then show ?thesis by (simp add: run_round_def live_reconcile_once_def)
qed

lemma failed_rounds:
  assumes "\<And>w. \<exists>e w'. ru_list env w = (Inl e, w')"
  shows "live_rounds n env rt (l, w) = Some (l', w') \<Longrightarrow> \<exists>ws. length ws \<le> n \<and> l' = fold (ru_others env) ws l"
proof (induction n arbitrary: l w)
  case (Suc n)
  obtain ended w1 where wait: "ru_wait env (lr_interval rt) w = (ended, w1)" by (meson surj_pair)
  show ?case
  proof (cases ended)
    case True
    with Suc.prems wait show ?thesis by (intro exI [of _ "[w1]"]) auto
  next
    case False
    obtain w2 where "run_round env rt (ru_others env w1 l, w1) = (ru_others env w1 l, w2)"
      using failed_round [OF assms] by blast
    with Suc.prems wait False have "live_rounds n env rt (ru_others env w1 l, w2) = Some (l', w')" by simp
    from Suc.IH [OF this] obtain ws where "length ws \<le> n" "l' = fold (ru_others env) ws (ru_others env w1 l)" by blast
    then show ?thesis by (intro exI [of _ "w1 # ws"]) simp
  qed
qed simp

text \<open>
  C30. A control plane that cannot be reached changes nothing: while the listing fails, no round of
  \<open>Run\<close> touches anything, every collector, handle, gate, report, stop flag and the client stay as they
  are; so a whole \<open>Run\<close> ends where the other goroutines alone lead, with the shutdown that its end makes.
\<close>

theorem failed_listing_changes_nothing:
  assumes "\<And>w. \<exists>e w'. ru_list env w = (Inl e, w')"
    and "live_run n env rt (l, w) = Some (l', w')"
  shows "(\<forall>k w0. fst (run_round env rt (k, w0)) = k)
    \<and> (\<exists>ws. length ws \<le> n \<and> l' = run_ends (lr_client rt \<noteq> None) (fold (ru_others env) ws (l\<lparr>lf_run_cancel := True\<rparr>)))"
proof (intro conjI allI)
  show "fst (run_round env rt (k, w0)) = k" for k w0 using failed_round [OF assms(1), of rt k w0] by auto
  obtain w1 where "run_round env rt (l\<lparr>lf_run_cancel := True\<rparr>, w) = (l\<lparr>lf_run_cancel := True\<rparr>, w1)"
    using failed_round [OF assms(1)] by blast
  with assms(2) obtain k where "live_rounds n env rt (l\<lparr>lf_run_cancel := True\<rparr>, w1) = Some (k, w')"
    "l' = run_ends (lr_client rt \<noteq> None) k" by (auto simp: live_run_def)
  with failed_rounds [OF assms(1) this(1)]
  show "\<exists>ws. length ws \<le> n \<and> l' = run_ends (lr_client rt \<noteq> None) (fold (ru_others env) ws (l\<lparr>lf_run_cancel := True\<rparr>))"
    by blast
qed

text \<open>
  Three rounds of a listing that fails, the wait counting down; between two of them another
  goroutine stops a collector.
\<close>

definition down_env :: "nat runtime_env" where
  "down_env = \<lparr>ru_list = (\<lambda>w. (Inl (Err ''unavailable''), w)), ru_now = (\<lambda>w. (0, w)), ru_wait = (\<lambda>d w. (w = 0, w - 1)),
     ru_others = (\<lambda>w l. if w = 1 then l\<lparr>lf_state := (lf_state l)\<lparr>lv_stopped := insert 9 (lv_stopped (lf_state l))\<rparr>\<rparr> else l)\<rparr>"

definition down_runtime :: "unit live_runtime" where
  "down_runtime = \<lparr>lr_client = Some (), lr_config = sample_config, lr_interval = 5 * second, lr_report_timeout = 5 * second\<rparr>"

theorem failed_listing_changes_nothing_witness:
  "fst (run_round down_env down_runtime (started_life, 3)) = started_life
   \<and> (\<exists>l w' ws. live_run 4 down_env down_runtime (started_life, 3) = Some (l, w') \<and> length ws < 5
      \<and> l = run_ends True (fold (ru_others down_env) ws (started_life\<lparr>lf_run_cancel := True\<rparr>)))"
proof -
  have "\<exists>e w'. ru_list down_env w = (Inl e, w')" for w by (simp add: down_env_def)
  note down = failed_listing_changes_nothing [OF this]
  have step: "run_round down_env down_runtime (l, w) = (l, w)" for l w
    by (simp add: run_round_def live_reconcile_once_def down_runtime_def down_env_def)
  have waits: "ru_wait down_env d w = (w = 0, w - 1)" for d w by (simp add: down_env_def)
  have "\<exists>l w'. live_run 4 down_env down_runtime (started_life, 3) = Some (l, w')"
    by (simp add: live_run_def step waits numeral_eq_Suc)
  then obtain l w' where run: "live_run 4 down_env down_runtime (started_life, 3) = Some (l, w')" by blast
  have client: "lr_client down_runtime \<noteq> None" by (simp add: down_runtime_def)
  from down [OF run] obtain ws where "length ws \<le> 4"
    "l = run_ends (lr_client down_runtime \<noteq> None) (fold (ru_others down_env) ws (started_life\<lparr>lf_run_cancel := True\<rparr>))" by blast
  moreover have "fst (run_round down_env down_runtime (started_life, 3)) = started_life" using down [OF run] by blast
  ultimately show ?thesis using run client by (intro conjI exI [of _ l] exI [of _ w'] exI [of _ ws]) simp_all
qed

text \<open>
  C39. Under a validated configuration whose times fit a duration, the control plane runs with exactly the
  configured times: no default replaces them, and no call may take longer than the request timeout.
  Live streams are collected for the enabled exchanges only; the history runtime accepts requests for
  both exchanges, enabled or not.
\<close>

theorem control_plane_wired_as_configured:
  assumes "validate_config c0 = Inr c" and "cp_enabled (cf_control_plane c)"
    and "cp_timeout_seconds (cf_control_plane c) * second \<le> max_int64"
    and "cp_reconcile_seconds (cf_control_plane c) * second \<le> max_int64"
    and "cp_draining_seconds (cf_control_plane c) * second \<le> max_int64"
    and "wire_control_plane dial leases c iid = Inr cp"
  shows "lr_interval (pn_live cp) = cp_reconcile_seconds (cf_control_plane c) * second
    \<and> hn_interval (pn_history cp) = cp_reconcile_seconds (cf_control_plane c) * second
    \<and> lc_grace (lr_config (pn_live cp)) = cp_draining_seconds (cf_control_plane c) * second
    \<and> lr_report_timeout (pn_live cp) = cp_timeout_seconds (cf_control_plane c) * second
    \<and> (\<exists>d. with_timeout (pn_client cp) parent = Some d \<and> d \<le> cp_timeout_seconds (cf_control_plane c) * second)
    \<and> {k. lc_factories (lr_config (pn_live cp)) k \<noteq> None}
        = {k. k = ''binance'' \<and> ec_enabled (cf_binance c)} \<union> {k. k = ''okx'' \<and> ec_enabled (cf_okx c)}
    \<and> {k. hn_databases (pn_history cp) k \<noteq> None} = {''binance'', ''okx''}"
proof -
  let ?cp = "cf_control_plane c"
  have pos: "0 < cp_timeout_seconds ?cp" "0 < cp_reconcile_seconds ?cp" "0 < cp_draining_seconds ?cp"
    using validate_config_Inr [OF assms(1)] by metis+
  have exact: "dur_mul v second = v * second" if "0 < v" "v * second \<le> max_int64" for v
    using that by (intro dur_mul_exact) (simp_all add: second_def)
  have dur: "0 < v * second" if "0 < v" for v :: int using that by (simp add: second_def)
  have keys: "norm_lower ''binance'' = ''binance''" "norm_lower ''okx'' = ''okx''" by code_simp+
  obtain client where client: "new_grpc_client dial (cp_grpc ?cp) (cp_timeout_seconds ?cp * second) = Inr client"
    and cp: "pn_client cp = client" "pn_live cp = new_runtime \<lparr>ro_client = Some client,
             ro_factories = map (\<lambda>(k, f). (k, Some f)) (managed_factories c), ro_publisher = kf_enabled (cf_kafka c),
             ro_reconcile = cp_reconcile_seconds ?cp * second, ro_grace = cp_draining_seconds ?cp * second,
             ro_report_timeout = cp_timeout_seconds ?cp * second\<rparr>"
      "pn_history cp = new_historical_runtime (Some client)
             [(''binance'', ec_database (cf_binance c)), (''okx'', ec_database (cf_okx c))] (cp_reconcile_seconds ?cp * second)"
    using assms(6) exact [OF pos(1) assms(3)] exact [OF pos(2) assms(4)] exact [OF pos(3) assms(5)]
    by (auto simp: wire_control_plane_def Let_def split: sum.splits)
  have "gc_timeout client = cp_timeout_seconds ?cp * second"
    using client dur [OF pos(1)] by (auto simp: new_grpc_client_def Let_def split: if_splits sum.splits)
  then have "\<exists>d. with_timeout client parent = Some d \<and> d \<le> cp_timeout_seconds ?cp * second"
    using with_timeout_bounded [of client parent] dur [OF pos(1)] by simp
  moreover have "{k. lc_factories (lr_config (pn_live cp)) k \<noteq> None}
        = {k. k = ''binance'' \<and> ec_enabled (cf_binance c)} \<union> {k. k = ''okx'' \<and> ec_enabled (cf_okx c)}"
    using assms(2) by (auto simp: cp new_runtime_def managed_factories_def when_on_def add_factory_def Let_def keys split: if_splits)
  moreover have "{k. hn_databases (pn_history cp) k \<noteq> None} = {''binance'', ''okx''}"
    by (auto simp: cp new_historical_runtime_def add_database_def Let_def keys split: if_splits)
  ultimately show ?thesis
    using dur [OF pos(1)] dur [OF pos(2)] dur [OF pos(3)]
    by (simp add: cp new_runtime_def new_historical_runtime_def or_default_def)
qed

theorem control_plane_wired_as_configured_witness:
  "\<exists>cp. wire_control_plane (\<lambda>_. Inr log_rpc) (\<lambda>c q w. (Inr None, w)) sample_validated ''s1'' = Inr cp
    \<and> lr_interval (pn_live cp) = 5 * second \<and> lc_grace (lr_config (pn_live cp)) = 60 * second
    \<and> {k. hn_databases (pn_history cp) k \<noteq> None} = {''binance'', ''okx''}" (is "\<exists>cp. ?wired = Inr cp \<and> _ cp")
proof -
  have grpc: "trim_space (cp_grpc (cf_control_plane sample_validated)) \<noteq> []" by code_simp
  then obtain cp where cp: "?wired = Inr cp" by (simp add: wire_control_plane_def new_grpc_client_def Let_def)
  have secs: "cp_timeout_seconds (cf_control_plane sample_validated) = 15"
    "cp_reconcile_seconds (cf_control_plane sample_validated) = 5"
    "cp_draining_seconds (cf_control_plane sample_validated) = 60" "cp_enabled (cf_control_plane sample_validated)" by code_simp+
  have max: "15 * second \<le> max_int64" "5 * second \<le> max_int64" "60 * second \<le> max_int64"
    by (simp_all add: second_def max_int64_def)
  note all = control_plane_wired_as_configured [OF sample_validates secs(4) _ _ _ cp, unfolded secs(1-3), OF max]
  show ?thesis by (intro exI [of _ cp] conjI cp) (rule all [THEN conjunct1] all [THEN conjunct2, THEN conjunct2, THEN conjunct1]
      all [THEN conjunct2, THEN conjunct2, THEN conjunct2, THEN conjunct2, THEN conjunct2, THEN conjunct2])+
qed

end
