(* ===== verification/Marketdata.thy ===== *)
theory Marketdata
  imports Models
begin

text \<open>
  Live publication of bars (\<open>internal/marketdata\<close>): the Kafka publisher, which sends one message for
  each bar, and the gate that the live runtime puts before it. The Kafka client and \<open>json.Marshal\<close>
  (which fails on a NaN or an infinite price) are arguments.
\<close>

subsection \<open>Topics and payloads\<close>

definition kline_topic_prefix :: string where "kline_topic_prefix = ''md.kline''"

definition kline_topic :: "string \<Rightarrow> string \<Rightarrow> string \<Rightarrow> string" where
  "kline_topic exchange market interval =
     (let iv = norm_lower interval
      in kline_topic_prefix @ ''.'' @ norm_lower exchange @ ''.'' @ norm_lower market @ ''.''
           @ (if iv = [] then ''1m'' else iv))"

text \<open>The exported fields of \<open>klinePayload\<close>; an empty market is left out of the JSON text.\<close>

record kline_payload =
  kp_symbol :: string
  kp_interval :: string
  kp_open_time :: int
  kp_close_time :: int
  kp_open :: float64
  kp_high :: float64
  kp_low :: float64
  kp_close :: float64
  kp_volume :: float64
  kp_timestamp :: int
  kp_market :: string

definition kline_payload_of :: "kline \<Rightarrow> kline_payload" where
  "kline_payload_of k = \<lparr>kp_symbol = norm_upper (k_symbol k), kp_interval = norm_lower (k_interval k),
     kp_open_time = unix_milli (k_open_time k), kp_close_time = unix_milli (k_close_time k),
     kp_open = k_open k, kp_high = k_high k, kp_low = k_low k, kp_close = k_close k, kp_volume = k_volume k,
     kp_timestamp = unix_milli (k_close_time k), kp_market = norm_lower (k_market k)\<rparr>"

type_synonym kline_marshaller = "kline_payload \<Rightarrow> string res"

definition marshal_kline :: "kline_marshaller \<Rightarrow> kline \<Rightarrow> string res" where
  "marshal_kline json k = json (kline_payload_of k)"

subsection \<open>The publisher\<close>

text \<open>\<open>sender.Send\<close>: topic, key, body.\<close>

type_synonym 'w sender = "string \<Rightarrow> string \<Rightarrow> string \<Rightarrow> 'w \<Rightarrow> go_error option \<times> 'w"

fun kafka_publish_klines :: "kline_marshaller \<Rightarrow> 'w sender \<Rightarrow> kline list \<Rightarrow> 'w \<Rightarrow> go_error option \<times> 'w" where
  "kafka_publish_klines json snd_msg [] w = (None, w)"
| "kafka_publish_klines json snd_msg (k # ks) w =
     (case marshal_kline json k of
        Inl e \<Rightarrow> (Some e, w)
      | Inr body \<Rightarrow>
        (case snd_msg (kline_topic (k_exchange k) (k_market k) (k_interval k)) (norm_upper (k_symbol k)) body w of
           (Some e, w1) \<Rightarrow> (Some e, w1)
         | (None, w1) \<Rightarrow> kafka_publish_klines json snd_msg ks w1))"

text \<open>
  The gate: a publisher to forward to, if there is one, and the switch. A nil gate forwards
  nothing; closing a gate closes nothing.
\<close>

type_synonym 'w publisher = "kline list \<Rightarrow> 'w \<Rightarrow> go_error option \<times> 'w"

record 'w gate =
  gt_base :: "'w publisher option"
  gt_enabled :: bool

definition new_gated_publisher :: "'w publisher option \<Rightarrow> bool \<Rightarrow> 'w gate" where
  "new_gated_publisher base on = \<lparr>gt_base = base, gt_enabled = on\<rparr>"

definition set_enabled :: "bool \<Rightarrow> 'w gate option \<Rightarrow> 'w gate option" where
  "set_enabled on g = map_option (\<lambda>p. p\<lparr>gt_enabled := on\<rparr>) g"

definition gate_enabled :: "'w gate option \<Rightarrow> bool" where
  "gate_enabled g = (case g of None \<Rightarrow> False | Some p \<Rightarrow> gt_enabled p)"

definition gated_publish_klines :: "'w gate option \<Rightarrow> 'w publisher" where
  "gated_publish_klines g ks w =
     (case g of
        None \<Rightarrow> (None, w)
      | Some p \<Rightarrow>
        (case gt_base p of
           None \<Rightarrow> (None, w)
         | Some publish \<Rightarrow> if gt_enabled p then publish ks w else (None, w)))"

definition gate_close :: "'w gate option \<Rightarrow> 'w \<Rightarrow> go_error option \<times> 'w" where
  "gate_close g w = (None, w)"

subsection \<open>Lemmas\<close>

text \<open>The message of a bar, and sending a list of messages that all arrive.\<close>

definition kline_message :: "kline_marshaller \<Rightarrow> kline \<Rightarrow> (string \<times> string \<times> string) res" where
  "kline_message json k =
     (case marshal_kline json k of
        Inl e \<Rightarrow> Inl e
      | Inr body \<Rightarrow> Inr (kline_topic (k_exchange k) (k_market k) (k_interval k), norm_upper (k_symbol k), body))"

fun all_sent :: "'w sender \<Rightarrow> (string \<times> string \<times> string) list \<Rightarrow> 'w \<Rightarrow> 'w \<Rightarrow> bool" where
  "all_sent snd_msg [] w w' = (w' = w)"
| "all_sent snd_msg ((t, k, b) # ms) w w' = (\<exists>w1. snd_msg t k b w = (None, w1) \<and> all_sent snd_msg ms w1 w')"

lemma topic_parts:
  "kline_topic e m i = kline_topic_prefix @ CHR ''.'' # norm_lower e @ CHR ''.'' # norm_lower m @ CHR ''.''
     # (if norm_lower i = [] then ''1m'' else norm_lower i)"
  by (simp add: kline_topic_def Let_def)

subsection \<open>Properties\<close>

text \<open>
  A topic carries one exchange, one market and one interval (up to case), when exchange and
  market have no dot in their names.
\<close>

theorem kline_topic_injective:
  assumes "kline_topic e m i = kline_topic e' m' i'"
    and "CHR ''.'' \<notin> set (e @ e' @ m @ m')" and "norm_lower i \<noteq> []" "norm_lower i' \<noteq> []"
  shows "norm_lower e = norm_lower e' \<and> norm_lower m = norm_lower m' \<and> norm_lower i = norm_lower i'"
proof -
  have dot: "CHR ''.'' \<notin> set (norm_lower s)" if "CHR ''.'' \<notin> set s" for s
    using norm_lower_free [OF that] by (simp add: is_lower_def)
  have "norm_lower e @ CHR ''.'' # norm_lower m @ CHR ''.'' # norm_lower i
      = norm_lower e' @ CHR ''.'' # norm_lower m' @ CHR ''.'' # norm_lower i'"
    using assms(1,3,4) by (simp add: topic_parts)
  note s1 = split_at_separator [OF dot dot this]
  show ?thesis
    using s1 split_at_separator [OF dot dot s1 [THEN conjunct2]] assms(2) by simp
qed

theorem kline_topic_injective_witness:
  "kline_topic ''Binance'' ''spot'' '' 1M'' = ''md.kline.binance.spot.1m''
   \<and> norm_lower ''Binance'' = norm_lower ''binance '' \<and> norm_lower ''1M'' = norm_lower ''1m''"
proof -
  have eq: "kline_topic ''Binance'' ''spot'' ''1M'' = kline_topic ''binance '' ''spot'' ''1m''" by code_simp
  have "CHR ''.'' \<notin> set (''Binance'' @ ''binance '' @ ''spot'' @ ''spot'')"
    "norm_lower ''1M'' \<noteq> []" "norm_lower ''1m'' \<noteq> []" by code_simp+
  from kline_topic_injective [OF eq this] show ?thesis by code_simp
qed

text \<open>
  Bars are published one by one, in order, until the first failure: the bars before it were
  all sent, and the error is the one of marshalling or of sending the first bar that is left.
\<close>

theorem publish_sends_prefix:
  assumes "kafka_publish_klines json snd_msg ks w = (r, w')"
  shows "\<exists>sent left ms w1. ks = sent @ left \<and> map (kline_message json) sent = map Inr ms \<and> all_sent snd_msg ms w w1
    \<and> (case r of
         None \<Rightarrow> left = [] \<and> w' = w1
       | Some e \<Rightarrow> left \<noteq> [] \<and> (marshal_kline json (hd left) = Inl e \<and> w' = w1
           \<or> (\<exists>t k b. kline_message json (hd left) = Inr (t, k, b) \<and> snd_msg t k b w1 = (Some e, w'))))"
  using assms
proof (induction ks arbitrary: w)
  case Nil
  then show ?case by (intro exI [of _ "[]"]) auto
next
  case (Cons k ks)
  show ?case
  proof (cases "marshal_kline json k")
    case (Inl e)
    with Cons.prems show ?thesis
      by (intro exI [of _ "[]"] exI [of _ "k # ks"] exI [of _ w]) auto
  next
    case (Inr body)
    let ?t = "kline_topic (k_exchange k) (k_market k) (k_interval k)" and ?k = "norm_upper (k_symbol k)"
    have msg: "kline_message json k = Inr (?t, ?k, body)" by (simp add: kline_message_def Inr)
    obtain x w2 where s: "snd_msg ?t ?k body w = (x, w2)" by (meson surj_pair)
    show ?thesis
    proof (cases x)
      case (Some e)
      with Cons.prems Inr s have "r = Some e" "w' = w2" by simp_all
      with msg s Some show ?thesis
        by (intro exI [of _ "[]"] exI [of _ "k # ks"] exI [of _ w]) auto
    next
      case None
      with Cons.prems Inr s have "kafka_publish_klines json snd_msg ks w2 = (r, w')" by simp
      from Cons.IH [OF this] obtain sent left ms w1 where ih: "ks = sent @ left"
        "map (kline_message json) sent = map Inr ms" "all_sent snd_msg ms w2 w1"
        "case r of None \<Rightarrow> left = [] \<and> w' = w1
         | Some e \<Rightarrow> left \<noteq> [] \<and> (marshal_kline json (hd left) = Inl e \<and> w' = w1
             \<or> (\<exists>t k b. kline_message json (hd left) = Inr (t, k, b) \<and> snd_msg t k b w1 = (Some e, w')))" by blast
      then show ?thesis using msg s None
        by (intro exI [of _ "k # sent"] exI [of _ left] exI [of _ "(?t, ?k, body) # ms"] exI [of _ w1]) simp
    qed
  qed
qed

text \<open>Two bars of one stream against a producer with room for one message.\<close>

definition sample_bar :: "int \<Rightarrow> kline" where
  "sample_bar t = \<lparr>k_time = t, k_symbol = ''btcusdt'', k_market = ''spot'', k_exchange = ''binance'', k_interval = ''1m'',
     k_open_time = t, k_close_time = t, k_open = 0, k_high = 0, k_low = 0, k_close = 0, k_volume = 0,
     k_quote_volume = 0, k_num_trades = 0\<rparr>"

definition one_message :: "(string \<times> string) list sender" where
  "one_message t k b w = (if w = [] then (None, [(t, k)]) else (Some (Err ''queue full''), w))"

theorem publish_sends_prefix_witness:
  "\<exists>sent left ms w1. [sample_bar 0, sample_bar minute] = sent @ left
    \<and> map (kline_message (\<lambda>p. Inr (kp_symbol p))) sent = map Inr ms \<and> all_sent one_message ms [] w1 \<and> left \<noteq> []"
proof -
  have "kafka_publish_klines (\<lambda>p. Inr (kp_symbol p)) one_message [sample_bar 0, sample_bar minute] []
      = (Some (Err ''queue full''), [(''md.kline.binance.spot.1m'', ''BTCUSDT'')])" by code_simp
  from publish_sends_prefix [OF this] show ?thesis by fastforce
qed

subsection \<open>Opening and closing\<close>

text \<open>\<open>NewKafkaPublisher\<close> and \<open>Close\<close>; the settings of the producer belong to the Kafka client.\<close>

definition new_kafka_publisher :: "(string list \<Rightarrow> 'p res) \<Rightarrow> string list \<Rightarrow> 'p res" where
  "new_kafka_publisher producer brokers =
     (case producer brokers of
        Inl e \<Rightarrow> Inl (Wrapped ''create market-data kafka producer'' e)
      | Inr p \<Rightarrow> Inr p)"

text \<open>A publisher that is nil or has no producer closes without an error.\<close>

definition kafka_close :: "('p \<Rightarrow> 'w \<Rightarrow> go_error option \<times> 'w) \<Rightarrow> 'p option \<Rightarrow> 'w \<Rightarrow> go_error option \<times> 'w" where
  "kafka_close close p w = (case p of None \<Rightarrow> (None, w) | Some q \<Rightarrow> close q w)"

end
