(* ===== verification/Storage_Read.thy ===== *)
theory Storage_Read
  imports Storage_Timescale
begin

text \<open>
  Opening, closing and reading a year database (\<open>internal/storage/timescale.go\<close>). Reading asks which of the
  candidate tables exist and selects from the union of those; both queries are the fields of
  \<open>read_env\<close>. A select is given by what the code puts into its text: the tables, the symbol and the
  two ends; \<open>ORDER BY time\<close> orders its answer.
\<close>

subsection \<open>Connections\<close>

text \<open>\<open>sql.Open\<close> and the ping that follows it, with at most ten seconds.\<close>

record ('c, 'w) sql_driver =
  sd_open :: "string \<Rightarrow> 'w \<Rightarrow> 'c res \<times> 'w"
  sd_ping :: "'c \<Rightarrow> duration \<Rightarrow> 'w \<Rightarrow> go_error option \<times> 'w"
  sd_close :: "'c \<Rightarrow> 'w \<Rightarrow> go_error option \<times> 'w"

record ('c, 'r) timescale =
  ts_db :: "'c option"
  ts_exchange :: string
  ts_migrations_dir :: string
  ts_router :: "'r option"

definition new_timescale_db :: "('c, 'w) sql_driver \<Rightarrow> string \<Rightarrow> string \<Rightarrow> string \<Rightarrow> 'w \<Rightarrow> ('c, 'r) timescale res \<times> 'w" where
  "new_timescale_db drv conn exchange dir w =
     (case sd_open drv conn w of
        (Inl e, w1) \<Rightarrow> (Inl (Wrapped ''failed to open database'' e), w1)
      | (Inr db, w1) \<Rightarrow>
        (case sd_ping drv db (10 * second) w1 of
           (Some e, w2) \<Rightarrow> (Inl (Wrapped ''failed to ping database'' e), w2)
         | (None, w2) \<Rightarrow> (Inr \<lparr>ts_db = Some db, ts_exchange = exchange, ts_migrations_dir = dir, ts_router = None\<rparr>, w2)))"

text \<open>A routed store has no connection of its own; its router is closed instead.\<close>

definition close_timescale ::
  "('c, 'w) sql_driver \<Rightarrow> ('r \<Rightarrow> 'w \<Rightarrow> go_error option \<times> 'w) \<Rightarrow> ('c, 'r) timescale \<Rightarrow> 'w \<Rightarrow> go_error option \<times> 'w" where
  "close_timescale drv close_router ts w =
     (case ts_router ts of
        Some r \<Rightarrow> close_router r w
      | None \<Rightarrow> (case ts_db ts of Some db \<Rightarrow> sd_close drv db w | None \<Rightarrow> (None, w)))"

subsection \<open>Reading funding rates\<close>

text \<open>A row that is read is scanned into a record, which may fail; the second part of an answer is \<open>rows.Err\<close>.\<close>

record 'w read_env =
  rv_exists :: "string \<Rightarrow> 'w \<Rightarrow> bool res \<times> 'w"
  rv_select :: "string list \<Rightarrow> string \<Rightarrow> time \<Rightarrow> time \<Rightarrow> 'w \<Rightarrow> (funding_rate res list \<times> go_error option) res \<times> 'w"

fun filter_existing_tables :: "'w read_env \<Rightarrow> string list \<Rightarrow> 'w \<Rightarrow> string list res \<times> 'w" where
  "filter_existing_tables env [] w = (Inr [], w)"
| "filter_existing_tables env (t # ts) w =
     (if t = [] then filter_existing_tables env ts w
      else (case rv_exists env t w of
          (Inl e, w1) \<Rightarrow> (Inl (Wrapped (''check table existence '' @ t) e), w1)
        | (Inr b, w1) \<Rightarrow>
          (case filter_existing_tables env ts w1 of
             (Inl e, w2) \<Rightarrow> (Inl e, w2)
           | (Inr us, w2) \<Rightarrow> (Inr (if b then t # us else us), w2))))"

fun scan_rows :: "'a res list \<Rightarrow> 'a list res" where
  "scan_rows [] = Inr []"
| "scan_rows (r # rs) =
     (case r of
        Inl e \<Rightarrow> Inl (Wrapped ''scan funding rate row'' e)
      | Inr x \<Rightarrow> (case scan_rows rs of Inl e \<Rightarrow> Inl e | Inr xs \<Rightarrow> Inr (x # xs)))"

definition select_funding_rates ::
  "'w read_env \<Rightarrow> string \<Rightarrow> time \<Rightarrow> time \<Rightarrow> 'w \<Rightarrow> funding_rate list res \<times> 'w" where
  "select_funding_rates env symbol a b w =
     (case filter_existing_tables env (build_read_table_names ''futures'' ''funding_rates'' symbol a b) w of
        (Inl e, w1) \<Rightarrow> (Inl e, w1)
      | (Inr tables, w1) \<Rightarrow>
        (let parts = filter (\<lambda>t. t \<noteq> []) tables
         in if parts = [] then (Inr [], w1)
            else (case rv_select env parts symbol a b w1 of
                (Inl e, w2) \<Rightarrow> (Inl (Wrapped ''query funding rates by range'' e), w2)
              | (Inr (rows, end_err), w2) \<Rightarrow>
                (case scan_rows rows of
                   Inl e \<Rightarrow> (Inl e, w2)
                 | Inr items \<Rightarrow>
                   (case end_err of Some e \<Rightarrow> (Inl (Wrapped ''iterate funding rate rows'' e), w2) | None \<Rightarrow> (Inr items, w2))))))"

text \<open>
  \<open>QueryFundingRatesByRange\<close> asks the store's connection; \<open>None\<close> is the nil pointer dereference of a store
  without one. The name of the first table it asks for is never empty.
\<close>

definition query_funding_rates_by_range ::
  "('c \<Rightarrow> 'w read_env) \<Rightarrow> ('c, 'r) timescale \<Rightarrow> string \<Rightarrow> time \<Rightarrow> time \<Rightarrow> 'w \<Rightarrow> (funding_rate list res \<times> 'w) option" where
  "query_funding_rates_by_range env ts symbol a b w =
     (case ts_db ts of None \<Rightarrow> None | Some db \<Rightarrow> Some (select_funding_rates (env db) symbol a b w))"

subsection \<open>Reading what was written\<close>

text \<open>
  A database whose tables hold funding rates. An insert without an error adds its row, unless a row
  with the same time and symbol is there (\<open>ON CONFLICT DO NOTHING\<close>); one with an error, the creation of a
  table and reading change no rows. An answered query found exactly the tables that exist, an answered
  select the rows of its tables that match. Symbols are compared in upper case. Every call may fail.
\<close>

definition same_rate_key :: "funding_rate \<Rightarrow> funding_rate \<Rightarrow> bool" where
  "same_rate_key q r \<longleftrightarrow> fr_time q = fr_time r \<and> fr_symbol q = fr_symbol r"

locale funding_reader =
  fixes exec :: "'w sql_exec" and env :: "'w read_env"
    and tables :: "'w \<Rightarrow> string set" and rows :: "'w \<Rightarrow> string \<Rightarrow> funding_rate set"
  assumes inserted: "exec (Insert_Funding_Row t r) w = (None, w') \<Longrightarrow> t \<in> tables w'
      \<and> rows w' t = (if \<exists>q \<in> rows w t. same_rate_key q r then rows w t else insert r (rows w t))"
    and refused: "exec (Insert_Funding_Row t r) w = (Some e, w') \<Longrightarrow> rows w' = rows w"
    and created: "exec (Create_Table t cols pk chunk) w = (x, w') \<Longrightarrow> rows w' = rows w"
    and exists_ok: "rv_exists env t w = (found, w') \<Longrightarrow>
      tables w' = tables w \<and> rows w' = rows w \<and> (\<forall>b. found = Inr b \<longrightarrow> b = (t \<in> tables w))"
    and select_ok: "rv_select env ts s a b w = (Inr (map Inr qs, None), w') \<Longrightarrow>
      set qs = {q. (\<exists>t \<in> set ts. q \<in> rows w t) \<and> to_upper (fr_symbol q) = to_upper s \<and> a \<le> fr_time q \<and> fr_time q \<le> b}"
begin

lemma filter_existing:
  "filter_existing_tables env ts w = (Inr us, w') \<Longrightarrow>
   us = filter (\<lambda>t. t \<noteq> [] \<and> t \<in> tables w) ts \<and> tables w' = tables w \<and> rows w' = rows w"
proof (induction ts arbitrary: w us)
  case (Cons t ts)
  show ?case
  proof (cases "t = []")
    case False
    with Cons.prems obtain b w1 vs where e: "rv_exists env t w = (Inr b, w1)"
      and r: "filter_existing_tables env ts w1 = (Inr vs, w')" "us = (if b then t # vs else vs)"
      by (auto split: prod.splits sum.splits)
    from exists_ok [OF e] Cons.IH [OF r(1)] r(2) False show ?thesis by auto
  qed (use Cons in auto)
qed simp

lemma scan_rows_Inr: "scan_rows rs = Inr qs \<Longrightarrow> rs = map Inr qs"
  by (induction rs arbitrary: qs) (auto split: sum.splits)

lemma select_answers:
  assumes "select_funding_rates env s a b w = (Inr qs, w')"
  shows "set qs = {q. (\<exists>t \<in> set (build_read_table_names ''futures'' ''funding_rates'' s a b). t \<noteq> [] \<and> t \<in> tables w \<and> q \<in> rows w t)
        \<and> to_upper (fr_symbol q) = to_upper s \<and> a \<le> fr_time q \<and> fr_time q \<le> b}"
proof -
  let ?names = "build_read_table_names ''futures'' ''funding_rates'' s a b"
  let ?parts = "filter (\<lambda>t. t \<noteq> [] \<and> t \<in> tables w) ?names"
  from assms obtain us w1 where f: "filter_existing_tables env ?names w = (Inr us, w1)"
    by (auto simp: select_funding_rates_def split: prod.splits sum.splits)
  have us: "us = ?parts" "rows w1 = rows w" using filter_existing [OF f] by simp_all
  have parts: "filter (\<lambda>t. t \<noteq> []) us = us" unfolding us(1) by (simp, rule filter_cong) auto
  show ?thesis
  proof (cases "us = []")
    case True
    then have "qs = []" using assms f by (simp add: select_funding_rates_def Let_def)
    moreover have "\<not> (t \<noteq> [] \<and> t \<in> tables w)" if "t \<in> set ?names" for t
      using True that unfolding us(1) filter_empty_conv by blast
    ultimately show ?thesis by auto
  next
    case False
    from assms obtain rs where s: "rv_select env us s a b w1 = (Inr (rs, None), w')" "scan_rows rs = Inr qs"
      unfolding select_funding_rates_def f prod.case sum.case Let_def parts
      using False by (auto split: prod.splits sum.splits option.splits)
    from select_ok [OF s(1) [unfolded scan_rows_Inr [OF s(2)]]] show ?thesis unfolding us by auto
  qed
qed

text \<open>An insert that had to try again, or to create the table first, leaves the same row.\<close>

lemma optimistic_insert_row:
  assumes "optimistic_insert exec t (Insert_Funding_Row t r) (Create_Table t' cols pk chunk) w = (None, w')"
  shows "t \<in> tables w' \<and> rows w' t = (if \<exists>q \<in> rows w t. same_rate_key q r then rows w t else insert r (rows w t))"
proof -
  let ?ins = "Insert_Funding_Row t r"
  from assms consider "exec ?ins w = (None, w')"
    | e w1 where "exec ?ins w = (Some e, w1)" "exec ?ins w1 = (None, w')"
    | e w1 e' w2 w3 where "exec ?ins w = (Some e, w1)" "exec ?ins w1 = (Some e', w2)"
        "exec (Create_Table t' cols pk chunk) w2 = (None, w3)" "exec ?ins w3 = (None, w')"
    by (auto simp: optimistic_insert_def split: prod.splits option.splits)
  then show ?thesis
  proof cases
    case 1
    from inserted [OF 1] show ?thesis .
  next
    case 2
    from inserted [OF 2(2)] show ?thesis unfolding refused [OF 2(1)] .
  next
    case 3
    from inserted [OF 3(4)] show ?thesis unfolding created [OF 3(3)] refused [OF 3(2)] refused [OF 3(1)] .
  qed
qed

end

subsection \<open>A reference database\<close>

record rates_db =
  rb_tables :: "string list"
  rb_rows :: "(string \<times> funding_rate) list"

definition rates_of :: "rates_db \<Rightarrow> string \<Rightarrow> funding_rate set" where
  "rates_of db t = snd ` {p \<in> set (rb_rows db). fst p = t}"

fun rates_exec :: "rates_db sql_exec" where
  "rates_exec (Insert_Funding_Row t r) db =
     (if t \<in> set (rb_tables db)
      then (None, if \<exists>p \<in> set (rb_rows db). fst p = t \<and> same_rate_key (snd p) r
                  then db else db\<lparr>rb_rows := (t, r) # rb_rows db\<rparr>)
      else (Some (Err ''pq: relation does not exist''), db))"
| "rates_exec (Create_Table t cols pk chunk) db = (None, db\<lparr>rb_tables := t # rb_tables db\<rparr>)"
| "rates_exec _ db = (None, db)"

definition rates_match :: "string list \<Rightarrow> string \<Rightarrow> time \<Rightarrow> time \<Rightarrow> rates_db \<Rightarrow> funding_rate list" where
  "rates_match ts s a b w = map snd (filter (\<lambda>p. fst p \<in> set ts \<and> to_upper (fr_symbol (snd p)) = to_upper s
     \<and> a \<le> fr_time (snd p) \<and> fr_time (snd p) \<le> b) (rb_rows w))"

definition rates_read :: "rates_db read_env" where
  "rates_read = \<lparr>rv_exists = (\<lambda>t w. (Inr (t \<in> set (rb_tables w)), w)),
     rv_select = (\<lambda>ts s a b w. (Inr (map Inr (rates_match ts s a b w), None), w))\<rparr>"

lemma rates_of_insert: "rates_of (db\<lparr>rb_rows := (t, r) # rb_rows db\<rparr>) t = insert r (rates_of db t)"
  by (force simp: rates_of_def)

lemma rates_of_key: "(\<exists>q \<in> rates_of db t. same_rate_key q r) \<longleftrightarrow> (\<exists>p \<in> set (rb_rows db). fst p = t \<and> same_rate_key (snd p) r)"
  by (simp add: rates_of_def image_iff Bex_def)

interpretation rates_ref: funding_reader rates_exec rates_read "\<lambda>w. set (rb_tables w)" rates_of
proof
  fix t r w w'
  assume "rates_exec (Insert_Funding_Row t r) w = (None, w')"
  then show "t \<in> set (rb_tables w')
      \<and> rates_of w' t = (if \<exists>q \<in> rates_of w t. same_rate_key q r then rates_of w t else insert r (rates_of w t))"
    using rates_of_insert [of t r w] rates_of_key [of w t r] by (auto split: if_splits)
next
  fix t r w e w'
  assume "rates_exec (Insert_Funding_Row t r) w = (Some e, w')"
  then show "rates_of w' = rates_of w" by (auto split: if_splits)
next
  fix t cols pk chunk w x w'
  assume "rates_exec (Create_Table t cols pk chunk) w = (x, w')"
  then show "rates_of w' = rates_of w" by (auto simp: rates_of_def)
next
  fix ts s a b w qs w'
  assume "rv_select rates_read ts s a b w = (Inr (map Inr qs, None), w')"
  then have "qs = rates_match ts s a b w" by (auto simp: rates_read_def inj_map_eq_map)
  then show "set qs = {q. (\<exists>t \<in> set ts. q \<in> rates_of w t) \<and> to_upper (fr_symbol q) = to_upper s \<and> a \<le> fr_time q \<and> fr_time q \<le> b}"
    by (simp add: rates_match_def rates_of_def set_eq_iff image_iff Bex_def) blast
qed (simp add: rates_read_def)

subsection \<open>Properties\<close>

text \<open>
  C27. What was written is read: on a store with a connection of its own, when \<open>InsertFundingRate\<close> stored a rate
  without an error and \<open>QueryFundingRatesByRange\<close> for its symbol and a range that contains its time then
  answers without an error, the answer holds exactly that rate, with all its values and the symbol in upper
  case, unless a rate of the same time and symbol was stored before, which is then answered; and every
  answer lies in the range. A routed store, which has no connection, is read by dereferencing nil.
\<close>

theorem stored_funding_rate_is_read:
  assumes "funding_reader exec (env db) tables rows" and "ts_db ts = Some db"
    and "insert_funding_rate exec (ts_exchange ts) r w = (None, w1)"
    and "query_funding_rates_by_range env ts (fr_symbol r) a b w1 = Some (Inr qs, w2)"
    and "a \<le> fr_time r" "fr_time r \<le> b" and "trim_space (fr_symbol r) = fr_symbol r"
    and "table = build_table_name ''futures'' ''funding_rates'' (fr_symbol r) []"
    and "row = r\<lparr>fr_symbol := to_upper (fr_symbol r)\<rparr>"
  shows "(if \<exists>q \<in> rows w table. same_rate_key q row
      then \<exists>q \<in> rows w table. same_rate_key q row \<and> q \<in> set qs else row \<in> set qs)
    \<and> (\<forall>q \<in> set qs. a \<le> fr_time q \<and> fr_time q \<le> b)
    \<and> query_funding_rates_by_range env (ts\<lparr>ts_db := None\<rparr>) (fr_symbol r) a b w1 = None"
proof -
  let ?s = "normalize_symbol_for_write (fr_symbol r)"
  let ?names = "build_read_table_names ''futures'' ''funding_rates'' (fr_symbol r) a b"
  have s: "?s = to_upper (fr_symbol r)" using assms(7) by (simp add: normalize_symbol_for_write_def norm_upper_def)
  have t: "build_table_name ''futures'' ''funding_rates'' ?s [] = table"
    unfolding assms(8) by (simp add: build_table_name_def Let_def)
  have "normalize_market (normalize_market ''futures'') = normalize_market ''futures''" by code_simp
  then have mem: "table \<in> set ?names"
    by (simp add: assms(8) build_read_table_names_def build_table_name_def Let_def)
  have "table \<noteq> []" by (simp add: assms(8) build_table_name_def Let_def)
  obtain cols pk chunk where create: "build_create_table_sql (ts_exchange ts) table ''futures'' ''funding_rates'' = Create_Table table cols pk chunk"
    by (simp add: build_create_table_sql_def Let_def)
  have "optimistic_insert exec table (Insert_Funding_Row table row) (Create_Table table cols pk chunk) w = (None, w1)"
    using assms(3) unfolding insert_funding_rate_def Let_def t create [symmetric] by (auto simp: s assms(9) split: prod.splits option.splits)
  from funding_reader.optimistic_insert_row [OF assms(1) this]
  have row: "table \<in> tables w1
      \<and> rows w1 table = (if \<exists>q \<in> rows w table. same_rate_key q row then rows w table else insert row (rows w table))" .
  have sel: "select_funding_rates (env db) (fr_symbol r) a b w1 = (Inr qs, w2)"
    using assms(2,4) by (simp add: query_funding_rates_by_range_def)
  note ans = funding_reader.select_answers [OF assms(1) sel]
  have key: "to_upper (fr_symbol q) = to_upper (fr_symbol r) \<and> fr_time q = fr_time r" if "q = row \<or> same_rate_key q row" for q
    using that by (auto simp: assms(9) same_rate_key_def)
  have found: "q \<in> set qs" if "q \<in> rows w1 table" "q = row \<or> same_rate_key q row" for q
    unfolding ans using that key [OF that(2)] row mem \<open>table \<noteq> []\<close> assms(5,6) by auto
  have "if \<exists>q \<in> rows w table. same_rate_key q row
      then \<exists>q \<in> rows w table. same_rate_key q row \<and> q \<in> set qs else row \<in> set qs"
    using row found by auto
  moreover have "\<forall>q \<in> set qs. a \<le> fr_time q \<and> fr_time q \<le> b" unfolding ans by blast
  ultimately show ?thesis by (simp add: query_funding_rates_by_range_def)
qed

definition read_rate :: funding_rate where
  "read_rate = \<lparr>fr_time = 1767225600000000000, fr_symbol = ''btcusdt'', fr_market = ''futures'', fr_exchange = ''binance'',
     fr_rate = 7, fr_mark_price = 0, fr_next_time = zero_time\<rparr>"

definition rates_store :: "(unit, unit) timescale" where
  "rates_store = \<lparr>ts_db = Some (), ts_exchange = ''binance'', ts_migrations_dir = [], ts_router = None\<rparr>"

lemma rates_read_answers: "\<exists>qs. fst (select_funding_rates rates_read s a b w) = Inr qs"
proof -
  have "\<exists>us. filter_existing_tables rates_read ts w = (Inr us, w)" for ts
    by (induction ts) (auto simp: rates_read_def)
  then obtain us where us: "filter_existing_tables rates_read (build_read_table_names ''futures'' ''funding_rates'' s a b) w = (Inr us, w)"
    by blast
  have "scan_rows (map Inr xs) = Inr xs" for xs :: "funding_rate list" by (induction xs) simp_all
  then show ?thesis by (simp add: select_funding_rates_def us Let_def) (simp add: rates_read_def)
qed

theorem stored_funding_rate_is_read_witness:
  "\<exists>w1 qs w2. insert_funding_rate rates_exec ''binance'' read_rate \<lparr>rb_tables = [], rb_rows = []\<rparr> = (None, w1)
    \<and> query_funding_rates_by_range (\<lambda>_. rates_read) rates_store ''btcusdt'' 1767225600000000000 1767225600000000000 w1 = Some (Inr qs, w2)
    \<and> read_rate\<lparr>fr_symbol := ''BTCUSDT''\<rparr> \<in> set qs"
proof -
  let ?w = "\<lparr>rb_tables = [], rb_rows = []\<rparr>" and ?t = "1767225600000000000 :: int"
  have "fst (insert_funding_rate rates_exec ''binance'' read_rate ?w) = None" by code_simp
  then obtain w1 where run: "insert_funding_rate rates_exec ''binance'' read_rate ?w = (None, w1)" by (metis prod.collapse)
  have store: "ts_db rates_store = Some ()" "ts_exchange rates_store = ''binance''" by (simp_all add: rates_store_def)
  have "\<exists>qs. fst (select_funding_rates rates_read ''btcusdt'' ?t ?t w1) = Inr qs"
    by (rule rates_read_answers)
  then obtain qs w2 where sel: "select_funding_rates rates_read ''btcusdt'' ?t ?t w1 = (Inr qs, w2)" by (metis prod.collapse)
  then have q: "query_funding_rates_by_range (\<lambda>_. rates_read) rates_store ''btcusdt'' ?t ?t w1 = Some (Inr qs, w2)"
    by (simp add: query_funding_rates_by_range_def store)
  have r: "fr_time read_rate = ?t" "fr_symbol read_rate = ''btcusdt''" "to_upper ''btcusdt'' = ''BTCUSDT''"
    "trim_space (fr_symbol read_rate) = fr_symbol read_rate" by code_simp+
  have none: "\<not> (\<exists>q \<in> rates_of ?w t. same_rate_key q x)" for t x by (simp add: rates_of_def)
  from stored_funding_rate_is_read [where env = "\<lambda>_. rates_read" and db = "()", OF rates_ref.funding_reader_axioms store(1)
      run [folded store(2)] q [folded r(2)] _ _ r(4) refl refl] none r(1-3)
  show ?thesis using run q by auto
qed

subsection \<open>Routed stores\<close>

text \<open>
  \<open>NewRoutedTimescaleDB\<close> of \<open>write_router.go\<close>: a store that only has a write router, whose factory opens
  year stores and whose lease manager is set later.
\<close>

record ('f, 'st, 'm) write_router =
  wr_factory :: 'f
  wr_stores :: "(string \<times> 'st) list"
  wr_leases :: "'m option"

definition new_write_router :: "'f \<Rightarrow> ('f, 'st, 'm) write_router" where
  "new_write_router factory = \<lparr>wr_factory = factory, wr_stores = [], wr_leases = None\<rparr>"

definition new_routed_timescale_db :: "'f \<Rightarrow> ('c, ('f, 'st, 'm) write_router) timescale" where
  "new_routed_timescale_db factory =
     \<lparr>ts_db = None, ts_exchange = [], ts_migrations_dir = [], ts_router = Some (new_write_router factory)\<rparr>"

definition set_writer_lease_manager :: "'m \<Rightarrow> ('c, ('f, 'st, 'm) write_router) timescale \<Rightarrow> ('c, ('f, 'st, 'm) write_router) timescale" where
  "set_writer_lease_manager m ts =
     (case ts_router ts of None \<Rightarrow> ts | Some r \<Rightarrow> ts\<lparr>ts_router := Some (r\<lparr>wr_leases := Some m\<rparr>)\<rparr>)"

lemma opened_store_reads:
  "new_timescale_db drv conn ex dir w = (Inr ts, w') \<Longrightarrow> query_funding_rates_by_range env ts s a b v \<noteq> None"
  by (auto simp: new_timescale_db_def query_funding_rates_by_range_def split: prod.splits sum.splits option.splits)

lemma routed_store_cannot_be_read:
  "query_funding_rates_by_range env (set_writer_lease_manager m (new_routed_timescale_db f)) s a b w = None"
  by (simp add: query_funding_rates_by_range_def set_writer_lease_manager_def new_routed_timescale_db_def)

text \<open>A connection whose ping fails is not closed.\<close>

lemma failed_ping_leaves_connection_open:
  assumes "sd_open drv conn w = (Inr db, w1)" "sd_ping drv db (10 * second) w1 = (Some e, w2)"
  shows "new_timescale_db drv conn ex dir w = (Inl (Wrapped ''failed to ping database'' e), w2)"
  using assms by (simp add: new_timescale_db_def)

end
