(* ===== verification/Service_Main.thy ===== *)
theory Service_Main
  imports Control_Run Marketdata Storage_Read
begin

text \<open>
  The service as a process: what \<open>main\<close> of \<open>cmd/scraper/main.go\<close> sets up from the configuration, and how it
  starts the collectors, waits for a signal and shuts down, in every order with the collectors that
  return. The runner of \<open>internal/scraper/common/runner.go\<close>, which starts plugins, stops them and
  waits for them, comes first. Flags, log lines and tracing are left out.
\<close>

subsection \<open>Goroutines that are waited for\<close>

text \<open>The wait group, the goroutines whose \<open>Run\<close> has not returned, and the plugins told to stop.\<close>

record 'p runner =
  rn_plugins :: "'p list"
  rn_waiting :: int
  rn_running :: "'p list"
  rn_told :: "'p list"

definition new_runner :: "'p list \<Rightarrow> 'p runner" where
  "new_runner ps = \<lparr>rn_plugins = ps, rn_waiting = 0, rn_running = [], rn_told = []\<rparr>"

definition start_one :: "'p \<Rightarrow> ('p, 'z) runner_scheme \<Rightarrow> ('p, 'z) runner_scheme" where
  "start_one p r = r\<lparr>rn_waiting := rn_waiting r + 1, rn_running := rn_running r @ [p]\<rparr>"

definition start_all :: "('p, 'z) runner_scheme \<Rightarrow> ('p, 'z) runner_scheme" where
  "start_all r = fold start_one (rn_plugins r) r"

text \<open>The \<open>Run\<close> of one goroutine returns; its deferred \<open>Done\<close> follows.\<close>

definition run_returns :: "nat \<Rightarrow> ('p, 'z) runner_scheme \<Rightarrow> ('p, 'z) runner_scheme" where
  "run_returns i r = r\<lparr>rn_waiting := rn_waiting r - 1, rn_running := take i (rn_running r) @ drop (Suc i) (rn_running r)\<rparr>"

definition stop_one :: "'p \<Rightarrow> ('p, 'z) runner_scheme \<Rightarrow> ('p, 'z) runner_scheme" where
  "stop_one p r = r\<lparr>rn_told := rn_told r @ [p]\<rparr>"

definition stop_plugins :: "('p, 'z) runner_scheme \<Rightarrow> ('p, 'z) runner_scheme" where
  "stop_plugins r = fold stop_one (rn_plugins r) r"

text \<open>\<open>Wait\<close> returns in such a state.\<close>

definition wait_over :: "('p, 'z) runner_scheme \<Rightarrow> bool" where
  "wait_over r \<longleftrightarrow> rn_waiting r = 0"

subsection \<open>Setting up\<close>

datatype 'w part =
    Collector scraper
  | Live_Runtime "'w grpc_client live_runtime"
  | History_Runtime "'w grpc_client history_runtime"

text \<open>A store that opens a year's store on its first use; \<open>runs\<close> holds the enabled exchanges with their stores.\<close>

type_synonym ('s, 'w) routed_store =
  "('s, (string \<Rightarrow> int \<Rightarrow> 'w \<Rightarrow> 's res \<times> 'w, 's, 'w lease_manager) write_router) timescale"

record ('p, 's, 'w) service =
  sc_parts :: "'w part list"
  sc_stores :: "(string \<times> ('s, 'w) routed_store) list"
  sc_publisher :: "'p option"

definition new_routed_store :: "('s, 'w) store_env \<Rightarrow> string \<Rightarrow> exchange_config \<Rightarrow> ('s, 'w) routed_store" where
  "new_routed_store se name ec = new_routed_timescale_db (open_year_store se name (ec_database ec))"

definition run_stores :: "('s, 'w) store_env \<Rightarrow> config \<Rightarrow> (string \<times> ('s, 'w) routed_store) list" where
  "run_stores se c =
     when_on (ec_enabled (cf_binance c)) (''binance'', new_routed_store se ''binance'' (cf_binance c))
     @ when_on (ec_enabled (cf_okx c)) (''okx'', new_routed_store se ''okx'' (cf_okx c))"

definition kafka_wanted :: "(string list \<Rightarrow> 'p res) \<Rightarrow> config \<Rightarrow> 'p option res" where
  "kafka_wanted producer c =
     (if \<not> kf_enabled (cf_kafka c) then Inr None
      else (case new_kafka_publisher producer (kf_brokers (cf_kafka c)) of
        Inl e \<Rightarrow> Inl (Wrapped ''Failed to init market-data Kafka publisher'' e)
      | Inr p \<Rightarrow> Inr (Some p)))"

definition main_control_plane ::
  "(string \<Rightarrow> 'w control_rpc res) \<Rightarrow> ('w grpc_client \<Rightarrow> 'w lease_rpc) \<Rightarrow> config \<Rightarrow> string \<Rightarrow> 'w control_plane option res" where
  "main_control_plane dial leases c instance_id =
     (if \<not> cp_enabled (cf_control_plane c) then Inr None
      else (case wire_control_plane dial leases c instance_id of Inl e \<Rightarrow> Inl e | Inr cp \<Rightarrow> Inr (Some cp)))"

definition control_parts :: "'w control_plane option \<Rightarrow> 'w part list" where
  "control_parts cp = (case cp of None \<Rightarrow> [] | Some p \<Rightarrow> [Live_Runtime (pn_live p), History_Runtime (pn_history p)])"

text \<open>The loop that gives the lease manager to one store after the other.\<close>

fun set_lease_managers :: "'w lease_manager \<Rightarrow> (string \<times> ('s, 'w) routed_store) list \<Rightarrow> (string \<times> ('s, 'w) routed_store) list" where
  "set_lease_managers m [] = []"
| "set_lease_managers m ((name, store) # rs) = (name, set_writer_lease_manager m store) # set_lease_managers m rs"

text \<open>An error is the message of the \<open>log.Fatalf\<close> that ends the process.\<close>

definition main_setup ::
  "(string list \<Rightarrow> 'p res) \<Rightarrow> (string \<Rightarrow> 'w control_rpc res) \<Rightarrow> ('w grpc_client \<Rightarrow> 'w lease_rpc)
    \<Rightarrow> ('s, 'w) store_env \<Rightarrow> 'w clock_env \<Rightarrow> config \<Rightarrow> string \<Rightarrow> 'w \<Rightarrow> ('p, 's, 'w) service res \<times> 'w" where
  "main_setup producer dial leases se ck c instance_id w =
     (case kafka_wanted producer c of
        Inl e \<Rightarrow> (Inl e, w)
      | Inr pub \<Rightarrow>
        (case build_exchange ck c ''binance'' (cf_binance c) w of
           (Inl e, w1) \<Rightarrow> (Inl (Wrapped ''Failed to build binance scrapers'' e), w1)
         | (Inr bs, w1) \<Rightarrow>
           (case build_exchange ck c ''okx'' (cf_okx c) w1 of
              (Inl e, w2) \<Rightarrow> (Inl (Wrapped ''Failed to build okx scrapers'' e), w2)
            | (Inr os, w2) \<Rightarrow>
              (case main_control_plane dial leases c instance_id of
                 Inl e \<Rightarrow> (Inl e, w2)
               | Inr cp \<Rightarrow>
                 (Inr \<lparr>sc_parts = map Collector (bs @ os) @ control_parts cp,
                       sc_stores = (case cp of None \<Rightarrow> run_stores se c | Some p \<Rightarrow> set_lease_managers (pn_leases p) (run_stores se c)),
                       sc_publisher = pub\<rparr>, w2)))))"

subsection \<open>Running and shutting down\<close>

text \<open>
  Where \<open>main\<close> is: starting the parts that are left, waiting for a signal, telling the parts that are left to
  stop, waiting for the wait group or the time, closing the stores that are left, gone. The flag says
  that the time was up.
\<close>

datatype 'p phase =
    Starting "'p list" | Serving | Stopping "'p list" | Awaiting | Closing bool "string list" | Gone bool

record 'p process = "'p runner" +
  pr_phase :: "'p phase"
  pr_cancelled :: bool
  pr_closed :: "string list"
  pr_publisher_closed :: bool

text \<open>\<open>main\<close> goes on, the signal arrives, the shutdown time is up, or a \<open>Run\<close> returns.\<close>

datatype event = Goes_Ahead | Signal | Time_Up | Returns nat

definition main_start :: "'p list \<Rightarrow> 'p process" where
  "main_start parts = \<lparr>rn_plugins = parts, rn_waiting = 0, rn_running = [], rn_told = [],
     pr_phase = Starting parts, pr_cancelled = False, pr_closed = [], pr_publisher_closed = False\<rparr>"

fun main_ahead :: "string list \<Rightarrow> bool \<Rightarrow> 'p phase \<Rightarrow> 'p process \<Rightarrow> 'p process option" where
  "main_ahead stores pub (Starting (p # ps)) s = Some ((start_one p s)\<lparr>pr_phase := Starting ps\<rparr>)"
| "main_ahead stores pub (Starting []) s = Some (s\<lparr>pr_phase := Serving\<rparr>)"
| "main_ahead stores pub Serving s = None"
| "main_ahead stores pub (Stopping (p # ps)) s = Some ((stop_one p s)\<lparr>pr_phase := Stopping ps\<rparr>)"
| "main_ahead stores pub (Stopping []) s = Some (s\<lparr>pr_phase := Awaiting\<rparr>)"
| "main_ahead stores pub Awaiting s = (if wait_over s then Some (s\<lparr>pr_phase := Closing False stores\<rparr>) else None)"
| "main_ahead stores pub (Closing late (x # xs)) s = Some (s\<lparr>pr_closed := pr_closed s @ [x], pr_phase := Closing late xs\<rparr>)"
| "main_ahead stores pub (Closing late []) s = Some (s\<lparr>pr_publisher_closed := pub, pr_phase := Gone late\<rparr>)"
| "main_ahead stores pub (Gone late) s = None"

definition gone :: "'p phase \<Rightarrow> bool" where
  "gone ph = (case ph of Gone _ \<Rightarrow> True | _ \<Rightarrow> False)"

fun main_event :: "string list \<Rightarrow> bool \<Rightarrow> event \<Rightarrow> 'p process \<Rightarrow> 'p process option" where
  "main_event stores pub Goes_Ahead s = main_ahead stores pub (pr_phase s) s"
| "main_event stores pub Signal s =
     (if pr_phase s = Serving then Some (s\<lparr>pr_cancelled := True, pr_phase := Stopping (rn_plugins s)\<rparr>) else None)"
| "main_event stores pub Time_Up s =
     (if pr_phase s = Awaiting then Some (s\<lparr>pr_phase := Closing True stores\<rparr>) else None)"
| "main_event stores pub (Returns i) s =
     (if i < length (rn_running s) \<and> \<not> gone (pr_phase s) then Some (run_returns i s) else None)"

fun main_events :: "string list \<Rightarrow> bool \<Rightarrow> event list \<Rightarrow> 'p process \<Rightarrow> 'p process option" where
  "main_events stores pub [] s = Some s"
| "main_events stores pub (ev # evs) s =
     (case main_event stores pub ev s of None \<Rightarrow> None | Some t \<Rightarrow> main_events stores pub evs t)"

subsection \<open>Lemmas: the runner\<close>

lemma runner_one [simp]:
  "rn_waiting (start_one p r) = rn_waiting r + 1" "rn_running (start_one p r) = rn_running r @ [p]"
  "rn_plugins (start_one p r) = rn_plugins r" "rn_told (start_one p r) = rn_told r"
  "rn_waiting (stop_one p r) = rn_waiting r" "rn_running (stop_one p r) = rn_running r"
  "rn_plugins (stop_one p r) = rn_plugins r" "rn_told (stop_one p r) = rn_told r @ [p]"
  by (simp_all add: start_one_def stop_one_def)

lemma runner_returns [simp]:
  "rn_plugins (run_returns i r) = rn_plugins r" "rn_told (run_returns i r) = rn_told r"
  "rn_waiting (run_returns i r) = rn_waiting r - 1"
  "i < length (rn_running r) \<Longrightarrow> length (rn_running (run_returns i r)) = length (rn_running r) - 1"
  by (auto simp: run_returns_def)

lemma start_fold:
  "rn_waiting (fold start_one ps r) = rn_waiting r + int (length ps)"
  "rn_running (fold start_one ps r) = rn_running r @ ps"
  by (induction ps arbitrary: r) simp_all

lemma stop_fold: "rn_told (fold stop_one ps r) = rn_told r @ ps"
  by (induction ps arbitrary: r) simp_all

text \<open>The wait group counts the goroutines that run, so \<open>Wait\<close> is over when none is left.\<close>

definition counted :: "('p, 'z) runner_scheme \<Rightarrow> bool" where
  "counted r \<longleftrightarrow> rn_waiting r = int (length (rn_running r))"

lemma counted_start: "counted r \<Longrightarrow> counted (start_one p r)"
  by (simp add: counted_def)

lemma counted_start_all: "counted r \<Longrightarrow> counted (start_all r)"
  by (simp add: counted_def start_all_def start_fold)

lemma counted_returns: "counted r \<Longrightarrow> i < length (rn_running r) \<Longrightarrow> counted (run_returns i r)"
  by (auto simp: counted_def)

lemma counted_wait: "counted r \<Longrightarrow> wait_over r \<longleftrightarrow> rn_running r = []"
  by (simp add: counted_def wait_over_def)

lemma runner_starts_and_stops_all:
  "rn_running (start_all (new_runner ps)) = ps" "rn_told (stop_plugins (new_runner ps)) = ps"
  by (simp_all add: start_all_def stop_plugins_def start_fold stop_fold new_runner_def)

subsection \<open>Lemmas: the process\<close>

definition main_inv :: "string list \<Rightarrow> bool \<Rightarrow> 'p list \<Rightarrow> 'p process \<Rightarrow> bool" where
  "main_inv stores pub parts s \<longleftrightarrow> counted s \<and> rn_plugins s = parts
     \<and> pr_publisher_closed s = (gone (pr_phase s) \<and> pub)
     \<and> (case pr_phase s of
          Stopping ps \<Rightarrow> pr_cancelled s \<and> rn_told s @ ps = parts \<and> pr_closed s = []
        | Awaiting \<Rightarrow> pr_cancelled s \<and> rn_told s = parts \<and> pr_closed s = []
        | Closing late xs \<Rightarrow> pr_cancelled s \<and> rn_told s = parts \<and> pr_closed s @ xs = stores \<and> (late \<or> rn_running s = [])
        | Gone late \<Rightarrow> pr_cancelled s \<and> rn_told s = parts \<and> pr_closed s = stores \<and> (late \<or> rn_running s = [])
        | _ \<Rightarrow> \<not> pr_cancelled s \<and> rn_told s = [] \<and> pr_closed s = [])"

lemma counted_more [simp]:
  "counted (s\<lparr>pr_phase := ph\<rparr>) = counted s" "counted (s\<lparr>pr_cancelled := b\<rparr>) = counted s"
  "counted (s\<lparr>pr_closed := xs\<rparr>) = counted s" "counted (s\<lparr>pr_publisher_closed := b\<rparr>) = counted s"
  "counted (stop_one p s) = counted s"
  by (simp_all add: counted_def stop_one_def)

lemma process_kept [simp]:
  "pr_phase (start_one p s) = pr_phase s" "pr_cancelled (start_one p s) = pr_cancelled s"
  "pr_closed (start_one p s) = pr_closed s" "pr_publisher_closed (start_one p s) = pr_publisher_closed s"
  "pr_phase (stop_one p s) = pr_phase s" "pr_cancelled (stop_one p s) = pr_cancelled s"
  "pr_closed (stop_one p s) = pr_closed s" "pr_publisher_closed (stop_one p s) = pr_publisher_closed s"
  "pr_phase (run_returns i s) = pr_phase s" "pr_cancelled (run_returns i s) = pr_cancelled s"
  "pr_closed (run_returns i s) = pr_closed s" "pr_publisher_closed (run_returns i s) = pr_publisher_closed s"
  by (simp_all add: start_one_def stop_one_def run_returns_def)

lemma main_ahead_inv:
  assumes "main_ahead stores pub (pr_phase s) s = Some t" "main_inv stores pub parts s"
  shows "main_inv stores pub parts t"
proof (cases "pr_phase s")
  case (Starting ps)
  with assms show ?thesis by (cases ps) (auto simp: main_inv_def gone_def counted_start)
next
  case (Stopping ps)
  with assms show ?thesis by (cases ps) (auto simp: main_inv_def gone_def)
next
  case Awaiting
  with assms show ?thesis by (auto simp: main_inv_def gone_def counted_wait split: if_splits)
next
  case (Closing late xs)
  with assms show ?thesis by (cases xs) (auto simp: main_inv_def gone_def)
qed (use assms in auto)

lemma main_event_inv:
  assumes "main_event stores pub ev s = Some t" "main_inv stores pub parts s"
  shows "main_inv stores pub parts t"
proof (cases ev)
  case Goes_Ahead
  with assms show ?thesis by (auto intro: main_ahead_inv)
next
  case Signal
  with assms show ?thesis by (auto simp: main_inv_def gone_def split: if_splits)
next
  case Time_Up
  with assms show ?thesis by (auto simp: main_inv_def gone_def split: if_splits)
next
  case (Returns i)
  with assms have t: "t = run_returns i s" "i < length (rn_running s)" by (auto split: if_splits)
  with assms(2) show ?thesis
    by (auto simp: main_inv_def counted_returns split: phase.splits)
qed

lemma main_events_inv:
  "main_events stores pub evs s = Some t \<Longrightarrow> main_inv stores pub parts s \<Longrightarrow> main_inv stores pub parts t"
  by (induction evs arbitrary: s) (auto split: option.splits dest: main_event_inv)

lemma main_start_inv: "main_inv stores pub parts (main_start parts)"
  by (simp add: main_inv_def main_start_def counted_def gone_def)

lemmas main_reach_inv = main_events_inv [OF _ main_start_inv]

lemma main_events_append:
  "main_events stores pub (as @ bs) s = (case main_events stores pub as s of None \<Rightarrow> None | Some t \<Rightarrow> main_events stores pub bs t)"
  by (induction as arbitrary: s) (auto split: option.splits)

lemma closing_ends:
  "pr_phase s = Closing late xs \<Longrightarrow>
   \<exists>t. main_events stores pub (replicate (Suc (length xs)) Goes_Ahead) s = Some t \<and> pr_phase t = Gone late"
  by (induction xs arbitrary: s) auto

lemma stopping_ends:
  "pr_phase s = Stopping ps \<Longrightarrow>
   \<exists>t. main_events stores pub (replicate (Suc (length ps)) Goes_Ahead) s = Some t \<and> pr_phase t = Awaiting"
  by (induction ps arbitrary: s) auto

lemma awaiting_ends:
  assumes "pr_phase s = Awaiting"
  shows "\<exists>t late. main_events stores pub (Time_Up # replicate (Suc (length stores)) Goes_Ahead) s = Some t \<and> pr_phase t = Gone late"
  using closing_ends [of "s\<lparr>pr_phase := Closing True stores\<rparr>" True stores stores pub] assms by auto

text \<open>From every state after the signal \<open>main\<close> can end on its own, in so many steps.\<close>

lemma shutdown_ends:
  assumes "main_inv stores pub parts s" "pr_cancelled s"
  shows "\<exists>evs t late. length evs \<le> length parts + length stores + 3 \<and> set evs \<subseteq> {Goes_Ahead, Time_Up}
    \<and> main_events stores pub evs s = Some t \<and> pr_phase t = Gone late"
proof (cases "pr_phase s")
  case (Stopping ps)
  obtain t where t: "main_events stores pub (replicate (Suc (length ps)) Goes_Ahead) s = Some t" "pr_phase t = Awaiting"
    using stopping_ends [OF Stopping] by blast
  obtain u late where u: "main_events stores pub (Time_Up # replicate (Suc (length stores)) Goes_Ahead) t = Some u"
    "pr_phase u = Gone late" using awaiting_ends [OF t(2)] by blast
  have "rn_told s @ ps = parts" using assms Stopping by (simp add: main_inv_def)
  then have "length ps \<le> length parts" by (metis length_append le_add2)
  then show ?thesis
    using t(1) u main_events_append [of stores pub "replicate (Suc (length ps)) Goes_Ahead"
      "Time_Up # replicate (Suc (length stores)) Goes_Ahead" s]
    by (intro exI [of _ "replicate (Suc (length ps)) Goes_Ahead @ Time_Up # replicate (Suc (length stores)) Goes_Ahead"]
        exI [of _ u] exI [of _ late]) (auto simp del: main_events.simps replicate.simps)
next
  case Awaiting
  obtain u late where u: "main_events stores pub (Time_Up # replicate (Suc (length stores)) Goes_Ahead) s = Some u"
    "pr_phase u = Gone late" using awaiting_ends [OF Awaiting] by blast
  then show ?thesis
    by (intro exI [of _ "Time_Up # replicate (Suc (length stores)) Goes_Ahead"] exI [of _ u] exI [of _ late])
      (auto simp del: main_events.simps replicate.simps)
next
  case (Closing late xs)
  obtain u where u: "main_events stores pub (replicate (Suc (length xs)) Goes_Ahead) s = Some u" "pr_phase u = Gone late"
    using closing_ends [OF Closing] by blast
  have "pr_closed s @ xs = stores" using assms Closing by (simp add: main_inv_def)
  then have "length xs \<le> length stores" by (metis length_append le_add2)
  with u show ?thesis
    by (intro exI [of _ "replicate (Suc (length xs)) Goes_Ahead"] exI [of _ u] exI [of _ late])
      (auto simp del: main_events.simps replicate.simps)
next
  case (Gone late)
  then show ?thesis by (intro exI [of _ "[]"] exI [of _ s] exI [of _ late]) simp
qed (use assms in \<open>auto simp: main_inv_def\<close>)

subsection \<open>Lemmas: what is set up\<close>

lemma build_exchange_total:
  assumes "name = ''binance'' \<or> name = ''okx''"
  shows "\<exists>ss. fst (build_exchange ck c name ec w) = Inr ss"
  using assms
  by (auto simp: build_exchange_def registry_build_def main_registry_def register_def norm_lower_def
      to_lower_def trim_space_def is_space_def lower_char_def is_upper_def split: prod.splits)

text \<open>The parts are the collectors of \<open>build_all\<close> and, under the control plane, the two runtimes.\<close>

lemma main_setup_parts:
  assumes "main_setup producer dial leases se ck c iid w = (Inr svc, w')"
  obtains ss cp where "build_all ck c w = (Inr ss, w')" "main_control_plane dial leases c iid = Inr cp"
    "sc_parts svc = map Collector ss @ control_parts cp"
    "cp \<noteq> None \<longleftrightarrow> cp_enabled (cf_control_plane c)"
proof -
  from assms obtain pub bs w1 os cp where
    b: "build_exchange ck c ''binance'' (cf_binance c) w = (Inr bs, w1)"
      "build_exchange ck c ''okx'' (cf_okx c) w1 = (Inr os, w')" "main_control_plane dial leases c iid = Inr cp"
    and svc: "sc_parts svc = map Collector (bs @ os) @ control_parts cp"
    by (auto simp: main_setup_def split: sum.splits prod.splits)
  from b have "build_all ck c w = (Inr (bs @ os), w')" by (simp add: build_all_def)
  moreover from b(3) have "cp \<noteq> None \<longleftrightarrow> cp_enabled (cf_control_plane c)"
    by (auto simp: main_control_plane_def split: sum.splits if_splits)
  ultimately show thesis using that b(3) svc by blast
qed

text \<open>A store as it comes from \<open>newRoutedStore\<close>: nothing opened yet, its factory for its own exchange and database.\<close>

definition fresh_store :: "('s, 'w) store_env \<Rightarrow> config \<Rightarrow> 'w lease_manager option \<Rightarrow> string \<times> ('s, 'w) routed_store \<Rightarrow> bool" where
  "fresh_store se c m r \<longleftrightarrow> (\<exists>ec. (fst r = ''binance'' \<and> ec = cf_binance c \<or> fst r = ''okx'' \<and> ec = cf_okx c) \<and> ec_enabled ec
     \<and> ts_db (snd r) = None
     \<and> ts_router (snd r) = Some \<lparr>wr_factory = open_year_store se (fst r) (ec_database ec), wr_stores = [], wr_leases = m\<rparr>)"

lemma run_stores_fresh: "r \<in> set (run_stores se c) \<Longrightarrow> fresh_store se c None r"
  by (auto simp: run_stores_def new_routed_store_def new_routed_timescale_db_def new_write_router_def fresh_store_def)

lemma set_lease_managers_map: "set_lease_managers m rs = map (\<lambda>(name, store). (name, set_writer_lease_manager m store)) rs"
  by (induction rs) auto

lemma set_lease_managers_names [simp]: "map fst (set_lease_managers m rs) = map fst rs"
  by (induction rs) auto

lemma set_lease_managers_fresh:
  "\<forall>r \<in> set rs. fresh_store se c None r \<Longrightarrow> r \<in> set (set_lease_managers m rs) \<Longrightarrow> fresh_store se c (Some m) r"
  by (auto simp: set_lease_managers_map fresh_store_def set_writer_lease_manager_def)

lemma run_stores_names:
  "map fst (run_stores se c) = when_on (ec_enabled (cf_binance c)) ''binance'' @ when_on (ec_enabled (cf_okx c)) ''okx''"
  by (simp add: run_stores_def when_on_def)

text \<open>Setting up fails only when the Kafka producer or the connection to the control plane does.\<close>

lemma main_setup_fails:
  assumes "fst (main_setup producer dial leases se ck c iid w) = Inl e"
  shows "(kf_enabled (cf_kafka c) \<and> (\<exists>e'. producer (kf_brokers (cf_kafka c)) = Inl e'))
    \<or> (cp_enabled (cf_control_plane c) \<and> (\<exists>e'. wire_control_plane dial leases c iid = Inl e'))"
proof -
  obtain bs w1 where b: "build_exchange ck c ''binance'' (cf_binance c) w = (Inr bs, w1)"
    using build_exchange_total [of "''binance''" ck c "cf_binance c" w] by (metis prod.collapse)
  obtain os w2 where "build_exchange ck c ''okx'' (cf_okx c) w1 = (Inr os, w2)"
    using build_exchange_total [of "''okx''" ck c "cf_okx c" w1] by (metis prod.collapse)
  with assms b show ?thesis
    by (auto simp: main_setup_def kafka_wanted_def new_kafka_publisher_def main_control_plane_def
        split: sum.splits if_splits)
qed

subsection \<open>Properties\<close>

text \<open>
  C23. A managed service is set up as a whole: with a validated configuration that enables the control plane, a
  Kafka producer that connects when it is wanted and a control plane that can be dialled, \<open>main\<close> does not
  fail; it starts the two runtimes last and collects no bars itself; it makes one store for every enabled
  exchange, with the factory for that exchange and its database, and each of these stores has the
  lease manager when the runtimes start.
\<close>

theorem managed_service_is_set_up:
  assumes "validate_config c0 = Inr c" and "cp_enabled (cf_control_plane c)"
    and "kf_enabled (cf_kafka c) \<Longrightarrow> producer (kf_brokers (cf_kafka c)) = Inr p"
    and "wire_control_plane dial leases c iid = Inr cp"
  shows "\<exists>svc ss. main_setup producer dial leases se ck c iid w = (Inr svc, w)
    \<and> sc_parts svc = map Collector ss @ [Live_Runtime (pn_live cp), History_Runtime (pn_history cp)]
    \<and> (\<forall>s \<in> set ss. \<not> is_kline s)
    \<and> map fst (sc_stores svc) = when_on (ec_enabled (cf_binance c)) ''binance'' @ when_on (ec_enabled (cf_okx c)) ''okx''
    \<and> (\<forall>r \<in> set (sc_stores svc). fresh_store se c (Some (pn_leases cp)) r)
    \<and> (sc_publisher svc \<noteq> None \<longleftrightarrow> kf_enabled (cf_kafka c))"
proof -
  obtain ss where ss: "build_all ck c w = (Inr ss, w)" "\<forall>s \<in> set ss. \<not> is_kline s"
    using managed_klines_not_built_twice [OF assms(1,2), of ck w] by blast
  obtain pub where pub: "kafka_wanted producer c = Inr pub" "pub \<noteq> None \<longleftrightarrow> kf_enabled (cf_kafka c)"
    using assms(3) by (cases "kf_enabled (cf_kafka c)") (simp_all add: kafka_wanted_def new_kafka_publisher_def)
  have cp: "main_control_plane dial leases c iid = Inr (Some cp)"
    using assms(2,4) by (simp add: main_control_plane_def)
  from ss(1) obtain bs w1 os where b: "build_exchange ck c ''binance'' (cf_binance c) w = (Inr bs, w1)"
    "build_exchange ck c ''okx'' (cf_okx c) w1 = (Inr os, w)" "ss = bs @ os"
    by (auto simp: build_all_def split: prod.splits sum.splits)
  let ?svc = "\<lparr>sc_parts = map Collector (bs @ os) @ control_parts (Some cp),
    sc_stores = set_lease_managers (pn_leases cp) (run_stores se c), sc_publisher = pub\<rparr>"
  have "main_setup producer dial leases se ck c iid w = (Inr ?svc, w)" by (simp add: main_setup_def pub(1) b cp)
  moreover have "\<forall>r \<in> set (sc_stores ?svc). fresh_store se c (Some (pn_leases cp)) r"
    by (auto intro: set_lease_managers_fresh [of "run_stores se c"] run_stores_fresh)
  ultimately show ?thesis
    using ss(2) pub(2) by (intro exI [of _ ?svc] exI [of _ ss]) (simp add: b(3) control_parts_def run_stores_names)
qed

definition idle_clock :: "'w clock_env" where
  "idle_clock = \<lparr>ck_now = (\<lambda>w. (0, w)), ck_parse = (\<lambda>t. Inl (Err ''bad'')), ck_format = (\<lambda>t. [])\<rparr>"

definition no_database :: "(unit, 'w) store_env" where
  "no_database = \<lparr>st_connect = (\<lambda>conn ex w. (Inl (Err ''refused''), w)), st_init = (\<lambda>s w. (None, w)), st_close = (\<lambda>s w. w)\<rparr>"

theorem managed_service_is_set_up_witness:
  "\<exists>svc store router. main_setup (\<lambda>_. Inr ()) (\<lambda>_. Inr log_rpc) (\<lambda>c q w. (Inr None, w)) no_database idle_clock sample_validated ''s1''
      (0 :: nat, []) = (Inr svc, (0, []))
    \<and> sc_stores svc = [(''binance'', store)] \<and> ts_router store = Some router \<and> wr_leases router \<noteq> None
    \<and> sc_publisher svc \<noteq> None"
proof -
  have "trim_space (cp_grpc (cf_control_plane sample_validated)) \<noteq> []" by code_simp
  then obtain cp where
    cp: "wire_control_plane (\<lambda>_. Inr log_rpc) (\<lambda>c q (w :: nat \<times> _). (Inr None, w)) sample_validated ''s1'' = Inr cp"
    by (simp add: wire_control_plane_def new_grpc_client_def Let_def)
  have on: "cp_enabled (cf_control_plane sample_validated)" "kf_enabled (cf_kafka sample_validated)"
    "ec_enabled (cf_binance sample_validated)" "\<not> ec_enabled (cf_okx sample_validated)" by code_simp+
  obtain svc where svc: "main_setup (\<lambda>_. Inr ()) (\<lambda>_. Inr log_rpc) (\<lambda>c q w. (Inr None, w)) no_database idle_clock sample_validated ''s1''
      (0 :: nat, []) = (Inr svc, (0, []))" "map fst (sc_stores svc) = [''binance'']"
    "\<forall>r \<in> set (sc_stores svc). fresh_store no_database sample_validated (Some (pn_leases cp)) r" "sc_publisher svc \<noteq> None"
    using managed_service_is_set_up [OF sample_validates on(1) _ cp, of "\<lambda>_. Inr ()" "()" no_database idle_clock "(0 :: nat, [])"] on(2-4)
    by (auto simp: when_on_def)
  then obtain store where store: "sc_stores svc = [(''binance'', store)]" by auto
  with svc(3) have "ts_router store = Some \<lparr>wr_factory = open_year_store no_database ''binance'' (ec_database (cf_binance sample_validated)),
      wr_stores = [], wr_leases = Some (pn_leases cp)\<rparr>" by (simp add: fresh_store_def)
  with svc store show ?thesis by simp
qed

fun time_was_up :: "'p phase \<Rightarrow> bool" where
  "time_was_up (Closing late xs) = late"
| "time_was_up (Gone late) = late"
| "time_was_up ph = False"

text \<open>
  C24. The stores outlive the collectors: in every order of starting, returning collectors, the signal and the shutdown
  time, a store or the publisher is closed only after the context was cancelled and every part was told to
  stop, and while a part still runs only when the shutdown time was up.
\<close>

theorem stores_close_last:
  assumes "main_events stores pub evs (main_start parts) = Some s"
    and "pr_closed s \<noteq> [] \<or> pr_publisher_closed s"
  shows "pr_cancelled s \<and> rn_told s = parts \<and> (time_was_up (pr_phase s) \<or> rn_running s = [])
    \<and> (pr_publisher_closed s \<longrightarrow> pr_closed s = stores)"
  using main_reach_inv [OF assms(1)] assms(2) by (cases "pr_phase s") (auto simp: main_inv_def gone_def)

definition sample_shutdown :: "event list" where
  "sample_shutdown = [Goes_Ahead, Returns 0, Goes_Ahead, Goes_Ahead, Signal, Goes_Ahead, Goes_Ahead, Goes_Ahead, Time_Up, Goes_Ahead]"

text \<open>The first part returns at once, the second never: its store is closed when the time is up.\<close>

theorem stores_close_last_witness:
  "\<exists>s. main_events [''binance'', ''okx''] True sample_shutdown (main_start [1, 2 :: nat]) = Some s
    \<and> pr_closed s = [''binance''] \<and> rn_running s = [2] \<and> rn_told s = [1, 2] \<and> pr_cancelled s"
proof -
  let ?r = "main_events [''binance'', ''okx''] True sample_shutdown (main_start [1, 2 :: nat])"
  have "?r \<noteq> None \<and> pr_closed (the ?r) = [''binance''] \<and> rn_running (the ?r) = [2]" by code_simp
  then obtain s where s: "?r = Some s" "pr_closed s = [''binance'']" "rn_running s = [2]" by auto
  from s stores_close_last [OF s(1)] show ?thesis by auto
qed

text \<open>
  C25. The service always ends: from every state after the signal, even if no part's \<open>Run\<close> ever returns, \<open>main\<close>
  ends by its own steps and the shutdown timer, within as many steps as there are parts and stores and
  three more; then every part was told to stop and every store and the publisher are closed.
\<close>

theorem shutdown_always_ends:
  assumes "main_events stores pub evs (main_start parts) = Some s" and "pr_cancelled s"
  shows "\<exists>own t. length own \<le> length parts + length stores + 3 \<and> set own \<subseteq> {Goes_Ahead, Time_Up}
    \<and> main_events stores pub own s = Some t \<and> gone (pr_phase t)
    \<and> rn_told t = parts \<and> pr_closed t = stores \<and> pr_publisher_closed t = pub"
proof -
  note inv = main_reach_inv [OF assms(1)]
  obtain own t late where t: "length own \<le> length parts + length stores + 3" "set own \<subseteq> {Goes_Ahead, Time_Up}"
    "main_events stores pub own s = Some t" "pr_phase t = Gone late"
    using shutdown_ends [OF inv assms(2)] by blast
  have "rn_told t = parts \<and> pr_closed t = stores \<and> pr_publisher_closed t = pub"
    using main_events_inv [OF t(3) inv] t(4) by (simp add: main_inv_def gone_def)
  with t show ?thesis by (auto simp: gone_def)
qed

theorem shutdown_always_ends_witness:
  "\<exists>s own t. main_events [''binance''] True [Goes_Ahead, Goes_Ahead, Signal] (main_start [1 :: nat]) = Some s
    \<and> rn_running s = [1] \<and> main_events [''binance''] True own s = Some t \<and> gone (pr_phase t) \<and> pr_closed t = [''binance'']"
proof -
  let ?r = "main_events [''binance''] True [Goes_Ahead, Goes_Ahead, Signal] (main_start [1 :: nat])"
  have "?r \<noteq> None \<and> rn_running (the ?r) = [1] \<and> pr_cancelled (the ?r)" by code_simp
  then obtain s where s: "?r = Some s" "rn_running s = [1]" "pr_cancelled s" by auto
  from s shutdown_always_ends [OF s(1,3)] show ?thesis by blast
qed

end
