(* ===== verification/Kline_Collectors.thy ===== *)
theory Kline_Collectors
  imports Marketdata
begin

text \<open>
  The two bar collectors: \<open>internal/scraper/spotkline/kline.go\<close> (web socket, with a REST catch-up after
  an interruption) and \<open>internal/scraper/futureskline/kline.go\<close> (REST polling). HTTP, the web socket,
  JSON, the clock, the store, the publisher and the observer are the fields of \<open>collector_env\<close>,
  functions on a world \<open>'w\<close>. A loop takes a number of rounds and is \<open>None\<close> when they do not suffice.
  Log lines are left out.
\<close>

text \<open>An HTTP answer: status code, status line, and the body as far as it could be read, with the
  error that ended it.\<close>

datatype rest_answer = No_Answer go_error | Answer nat string "string \<times> go_error option"

type_synonym query = "(string \<times> string) list"

record 'w collector_env =
  ce_http :: "string \<Rightarrow> query \<Rightarrow> 'w \<Rightarrow> rest_answer \<times> 'w"
  ce_decode :: "string \<times> go_error option \<Rightarrow> json list list res"
  ce_float :: float_parser
  ce_sleep :: "duration \<Rightarrow> 'w \<Rightarrow> 'w"
  ce_ended :: "'w \<Rightarrow> bool \<times> 'w" \<comment> \<open>is the context over or the collector stopped?\<close>
  ce_wait :: "duration \<Rightarrow> 'w \<Rightarrow> bool \<times> 'w" \<comment> \<open>the same, decided after at most the duration\<close>
  ce_now :: "'w \<Rightarrow> time \<times> 'w"
  ce_insert :: "kline list \<Rightarrow> 'w \<Rightarrow> go_error option \<times> 'w"
  ce_publish :: "(kline list \<Rightarrow> 'w \<Rightarrow> go_error option \<times> 'w) option"
  ce_observer :: "(kline \<Rightarrow> 'w \<Rightarrow> 'w) option"

record collector =
  kc_symbol :: string
  kc_exchange :: string
  kc_interval :: string
  kc_reverse :: bool
  kc_start :: time
  kc_end :: time

definition new_scraper :: "string \<Rightarrow> string \<Rightarrow> string \<Rightarrow> collector" where
  "new_scraper symbol exchange interval = \<lparr>kc_symbol = symbol, kc_exchange = exchange,
     kc_interval = (if interval = [] then ''1m'' else interval), kc_reverse = False,
     kc_start = zero_time, kc_end = zero_time\<rparr>"

definition set_reverse :: "time \<Rightarrow> time \<Rightarrow> collector \<Rightarrow> collector" where
  "set_reverse a b c = c\<lparr>kc_reverse := True, kc_start := a, kc_end := b\<rparr>"

definition spot_rest_url :: string where "spot_rest_url = ''https://api.binance.com/api/v3/klines''"
definition futures_rest_url :: string where "futures_rest_url = ''https://fapi.binance.com/fapi/v1/klines''"
definition max_retries :: nat where "max_retries = 3"

subsection \<open>Rows\<close>

definition collected_kline :: "collector \<Rightarrow> string \<Rightarrow> int \<Rightarrow> int \<Rightarrow> float64 list \<Rightarrow> int \<Rightarrow> kline" where
  "collected_kline c market open_ms close_ms ps n =
     \<lparr>k_time = of_unix_milli open_ms, k_symbol = to_upper (kc_symbol c), k_market = market,
      k_exchange = kc_exchange c, k_interval = kc_interval c,
      k_open_time = of_unix_milli open_ms, k_close_time = of_unix_milli close_ms,
      k_open = ps ! 0, k_high = ps ! 1, k_low = ps ! 2, k_close = ps ! 3, k_volume = ps ! 4,
      k_quote_volume = ps ! 5, k_num_trades = n\<rparr>"

definition row_kline :: "float_parser \<Rightarrow> collector \<Rightarrow> string \<Rightarrow> json list \<Rightarrow> kline" where
  "row_kline pf c market row =
     collected_kline c market (to_int64_safe (row ! 0)) (to_int64_safe (row ! 6))
       (map (\<lambda>i. to_float pf (row ! i)) [1, 2, 3, 4, 5, 7]) (to_int64_safe (row ! 8))"

text \<open>The spot collector skips short rows and reads a bad time stamp as 0.\<close>

definition spot_rows :: "float_parser \<Rightarrow> collector \<Rightarrow> json list list \<Rightarrow> kline list" where
  "spot_rows pf c rows = map (row_kline pf c ''spot'') (filter (\<lambda>row. 12 \<le> length row) rows)"

text \<open>The futures collector skips rows that it cannot parse.\<close>

definition futures_parse_row :: "float_parser \<Rightarrow> collector \<Rightarrow> json list \<Rightarrow> kline res" where
  "futures_parse_row pf c row =
     (if length row < 12 then Inl (Err ''short row'')
      else (case to_int64 (row ! 0) of
          (_, Some e) \<Rightarrow> Inl (Wrapped ''parse open_time'' e)
        | (_, None) \<Rightarrow>
          (case to_int64 (row ! 6) of
             (_, Some e) \<Rightarrow> Inl (Wrapped ''parse close_time'' e)
           | (_, None) \<Rightarrow> Inr (row_kline pf c ''futures'' row))))"

definition futures_rows :: "float_parser \<Rightarrow> collector \<Rightarrow> json list list \<Rightarrow> kline list" where
  "futures_rows pf c rows =
     concat (map (\<lambda>row. case futures_parse_row pf c row of Inl _ \<Rightarrow> [] | Inr k \<Rightarrow> [k]) rows)"

subsection \<open>Fetching\<close>

text \<open>
  The three attempts: \<open>left\<close> is the number of attempts left, \<open>last\<close> the last transport error;
  \<open>read\<close> turns the rows into bars, \<open>fail\<close> makes the error of another status than 200 and 429.
\<close>

fun fetch_attempts ::
  "'w collector_env \<Rightarrow> string \<Rightarrow> query \<Rightarrow> (json list list \<Rightarrow> kline list) \<Rightarrow> (string \<Rightarrow> string \<Rightarrow> go_error)
    \<Rightarrow> nat \<Rightarrow> go_error option \<Rightarrow> 'w \<Rightarrow> kline list res \<times> 'w" where
  "fetch_attempts env url q read fail 0 last_err w =
     (Inl (case last_err of
        None \<Rightarrow> Err ''failed after 3 retries: %!w(<nil>)''
      | Some e \<Rightarrow> Wrapped ''failed after 3 retries'' e), w)"
| "fetch_attempts env url q read fail (Suc left) last_err w =
     (let backoff = dur_mul (int (max_retries - left)) second
      in case ce_http env url q w of
        (No_Answer e, w1) \<Rightarrow> fetch_attempts env url q read fail left (Some e) (ce_sleep env backoff w1)
      | (Answer code status body, w1) \<Rightarrow>
        if code = 429 then fetch_attempts env url q read fail left last_err (ce_sleep env backoff w1)
        else if code \<noteq> 200 then (Inl (fail status (fst body)), w1)
        else (case ce_decode env body of
            Inl e \<Rightarrow> (Inl (Wrapped ''decode'' e), w1)
          | Inr rows \<Rightarrow> (Inr (read rows), w1)))"

definition spot_fetch_batch :: "'w collector_env \<Rightarrow> collector \<Rightarrow> int \<Rightarrow> int \<Rightarrow> 'w \<Rightarrow> kline list res \<times> 'w" where
  "spot_fetch_batch env c start_ms end_ms w =
     fetch_attempts env spot_rest_url
       [(''symbol'', kc_symbol c), (''interval'', kc_interval c), (''startTime'', itoa start_ms),
        (''endTime'', itoa end_ms), (''limit'', ''100'')]
       (spot_rows (ce_float env) c) (\<lambda>status body. Err (''HTTP '' @ status)) max_retries None w"

definition futures_fetch :: "'w collector_env \<Rightarrow> collector \<Rightarrow> int \<Rightarrow> 'w \<Rightarrow> kline list res \<times> 'w" where
  "futures_fetch env c since w =
     (let (now, w1) = ce_now env w;
          end_ms = unix_milli now;
          start_ms = wrap64 (since + 1)
      in if 0 < since \<and> end_ms \<le> start_ms then (Inr [], w1)
         else fetch_attempts env futures_rest_url
           ([(''symbol'', kc_symbol c), (''interval'', kc_interval c), (''limit'', ''100'')]
             @ (if 0 < since then [(''startTime'', itoa start_ms), (''endTime'', itoa end_ms)] else []))
           (futures_rows (ce_float env) c) (\<lambda>status body. Err (''HTTP '' @ status @ '': '' @ body)) max_retries None w1)"

subsection \<open>Storing\<close>

definition notify_stored :: "'w collector_env \<Rightarrow> kline list \<Rightarrow> 'w \<Rightarrow> 'w" where
  "notify_stored env ks w =
     (case ce_observer env of None \<Rightarrow> w | Some on_stored \<Rightarrow> if ks = [] then w else on_stored (last ks) w)"

definition filter_closed_klines :: "kline list \<Rightarrow> int \<Rightarrow> kline list" where
  "filter_closed_klines ks now_ms = filter (\<lambda>k. unix_milli (k_close_time k) \<le> now_ms) ks"

text \<open>The cursor after a batch: one millisecond after the close of its last bar.\<close>

definition resume_after :: "kline list \<Rightarrow> int" where
  "resume_after ks = wrap64 (unix_milli (k_close_time (last ks)) + 1)"

definition spot_store_klines :: "'w collector_env \<Rightarrow> collector \<Rightarrow> kline list \<Rightarrow> 'w \<Rightarrow> go_error option \<times> 'w" where
  "spot_store_klines env c ks w =
     (if ks = [] then (None, w)
      else (case ce_insert env ks w of
          (Some e, w1) \<Rightarrow> (Some e, w1)
        | (None, w1) \<Rightarrow>
          (if kc_reverse c then (None, notify_stored env ks w1)
           else (case ce_publish env of
               None \<Rightarrow> (None, notify_stored env ks w1)
             | Some publish \<Rightarrow>
               (case publish ks w1 of
                  (Some e, w2) \<Rightarrow> (Some e, w2)
                | (None, w2) \<Rightarrow> (None, notify_stored env ks w2))))))"

definition spot_store_without_publish :: "'w collector_env \<Rightarrow> kline list \<Rightarrow> 'w \<Rightarrow> go_error option \<times> 'w" where
  "spot_store_without_publish env ks w =
     (if ks = [] then (None, w)
      else (case ce_insert env ks w of
          (Some e, w1) \<Rightarrow> (Some e, w1)
        | (None, w1) \<Rightarrow> (None, notify_stored env ks w1)))"

text \<open>The futures collector logs a failed publication and goes on.\<close>

definition futures_store_with_publish ::
  "'w collector_env \<Rightarrow> collector \<Rightarrow> kline list \<Rightarrow> kline list \<Rightarrow> 'w \<Rightarrow> go_error option \<times> 'w" where
  "futures_store_with_publish env c ks pub w =
     (if ks = [] then (None, w)
      else (case ce_insert env ks w of
          (Some e, w1) \<Rightarrow> (Some e, w1)
        | (None, w1) \<Rightarrow>
          (if kc_reverse c \<or> pub = [] then (None, notify_stored env ks w1)
           else (case ce_publish env of
               None \<Rightarrow> (None, notify_stored env ks w1)
             | Some publish \<Rightarrow> (None, notify_stored env ks (snd (publish pub w1)))))))"

definition futures_store_klines :: "'w collector_env \<Rightarrow> collector \<Rightarrow> kline list \<Rightarrow> 'w \<Rightarrow> go_error option \<times> 'w" where
  "futures_store_klines env c ks w = futures_store_with_publish env c ks ks w"

subsection \<open>Reverse collection\<close>

text \<open>
  The loop that both collectors have; it answers whether it completed (the code logs that) or was
  told to stop.
\<close>

fun reverse_loop ::
  "nat \<Rightarrow> 'w collector_env \<Rightarrow> (int \<Rightarrow> 'w \<Rightarrow> kline list res \<times> 'w) \<Rightarrow> (kline list \<Rightarrow> 'w \<Rightarrow> go_error option \<times> 'w)
    \<Rightarrow> int \<Rightarrow> int \<Rightarrow> 'w \<Rightarrow> (bool \<times> 'w) option" where
  "reverse_loop 0 env fetch store end_ms cur w = None"
| "reverse_loop (Suc n) env fetch store end_ms cur w =
     (if \<not> cur < end_ms then Some (True, w)
      else (case ce_ended env w of
          (True, w1) \<Rightarrow> Some (False, w1)
        | (False, w1) \<Rightarrow>
          (case fetch cur w1 of
             (Inl e, w2) \<Rightarrow> reverse_loop n env fetch store end_ms cur (ce_sleep env (dur_mul 2 second) w2)
           | (Inr ks, w2) \<Rightarrow>
             if ks = [] then Some (True, w2)
             else (case store ks w2 of
                 (Some e, w3) \<Rightarrow> reverse_loop n env fetch store end_ms cur w3
               | (None, w3) \<Rightarrow>
                 reverse_loop n env fetch store end_ms (resume_after ks) (ce_sleep env (dur_mul 200 millisecond) w3)))))"

definition reverse_end :: "'w collector_env \<Rightarrow> collector \<Rightarrow> 'w \<Rightarrow> int \<times> 'w" where
  "reverse_end env c w =
     (if unix_milli (kc_end c) = 0 then (case ce_now env w of (t, w1) \<Rightarrow> (unix_milli t, w1))
      else (unix_milli (kc_end c), w))"

definition spot_reverse :: "nat \<Rightarrow> 'w collector_env \<Rightarrow> collector \<Rightarrow> 'w \<Rightarrow> (bool \<times> 'w) option" where
  "spot_reverse n env c w =
     (let (end_ms, w1) = reverse_end env c w
      in reverse_loop n env (\<lambda>cur. spot_fetch_batch env c cur end_ms) (spot_store_klines env c) end_ms
           (unix_milli (kc_start c)) w1)"

definition futures_reverse :: "nat \<Rightarrow> 'w collector_env \<Rightarrow> collector \<Rightarrow> 'w \<Rightarrow> (bool \<times> 'w) option" where
  "futures_reverse n env c w =
     (let (end_ms, w1) = reverse_end env c w
      in reverse_loop n env (futures_fetch env c) (futures_store_klines env c) end_ms (unix_milli (kc_start c)) w1)"

subsection \<open>Forward collection of spot bars\<close>

text \<open>The state of a run: \<open>forwardResumeTimeMs\<close> and the world.\<close>

type_synonym 'w forward_state = "int \<times> 'w"

definition spot_store_forward ::
  "'w collector_env \<Rightarrow> collector \<Rightarrow> kline list \<Rightarrow> 'w forward_state \<Rightarrow> go_error option \<times> 'w forward_state" where
  "spot_store_forward env c ks st =
     (if ks = [] then (None, st)
      else (case spot_store_klines env c ks (snd st) of
          (Some e, w1) \<Rightarrow> (Some e, (resume_after ks, w1))
        | (None, w1) \<Rightarrow> (None, (resume_after ks, w1))))"

definition spot_handle_forward ::
  "'w collector_env \<Rightarrow> collector \<Rightarrow> kline \<Rightarrow> bool \<Rightarrow> 'w forward_state \<Rightarrow> go_error option \<times> 'w forward_state" where
  "spot_handle_forward env c k closed st = (if \<not> closed then (None, st) else spot_store_forward env c [k] st)"

definition spot_store_catch_up ::
  "'w collector_env \<Rightarrow> kline list \<Rightarrow> 'w forward_state \<Rightarrow> go_error option \<times> 'w forward_state" where
  "spot_store_catch_up env ks st =
     (if ks = [] then (None, st)
      else (case spot_store_without_publish env ks (snd st) of
          (Some e, w1) \<Rightarrow> (Some e, (fst st, w1))
        | (None, w1) \<Rightarrow> (None, (resume_after ks, w1))))"

fun catch_up_loop ::
  "nat \<Rightarrow> 'w collector_env \<Rightarrow> collector \<Rightarrow> int \<Rightarrow> 'w forward_state \<Rightarrow> (go_error option \<times> 'w forward_state) option" where
  "catch_up_loop 0 env c cur st = None"
| "catch_up_loop (Suc n) env c cur (resume, w) =
     (let (now, w1) = ce_now env w; now_ms = unix_milli now
      in if now_ms \<le> cur then Some (None, (resume, w1))
         else (case spot_fetch_batch env c cur now_ms w1 of
             (Inl e, w2) \<Rightarrow> Some (Some e, (resume, w2))
           | (Inr ks, w2) \<Rightarrow>
             (let closed = filter_closed_klines ks now_ms
              in if ks = [] \<or> closed = [] then Some (None, (resume, w2))
                 else (case spot_store_catch_up env closed (resume, w2) of
                     (Some e, st) \<Rightarrow> Some (Some e, st)
                   | (None, (next_ms, w3)) \<Rightarrow>
                     if next_ms \<le> cur \<or> length closed < length ks then Some (None, (next_ms, w3))
                     else catch_up_loop n env c next_ms (next_ms, w3)))))"

definition spot_catch_up ::
  "nat \<Rightarrow> 'w collector_env \<Rightarrow> collector \<Rightarrow> 'w forward_state \<Rightarrow> (go_error option \<times> 'w forward_state) option" where
  "spot_catch_up n env c st = (if fst st \<le> 0 then Some (None, st) else catch_up_loop n env c (fst st) st)"

text \<open>The web socket: connecting, receiving a message, closing, decoding; \<open>s.done\<close> alone.\<close>

record 'w socket_env =
  ws_connect :: "string \<Rightarrow> 'w \<Rightarrow> go_error option \<times> 'w"
  ws_recv :: "'w \<Rightarrow> string res \<times> 'w"
  ws_close :: "'w \<Rightarrow> 'w"
  ws_unmarshal :: "string \<Rightarrow> (string \<times> json) list res"
  ws_stopped :: "'w \<Rightarrow> bool \<times> 'w"

definition json_field :: "(string \<times> json) list \<Rightarrow> string \<Rightarrow> json" where
  "json_field kv f = (case map_of kv f of None \<Rightarrow> J_Null | Some v \<Rightarrow> v)"

definition spot_parse_msg :: "'w socket_env \<Rightarrow> float_parser \<Rightarrow> collector \<Rightarrow> string \<Rightarrow> (kline \<times> bool) res" where
  "spot_parse_msg ws pf c msg =
     (case ws_unmarshal ws msg of
        Inl e \<Rightarrow> Inl (Wrapped ''unmarshal'' e)
      | Inr raw \<Rightarrow>
        (case json_field raw ''k'' of
           J_Obj kv \<Rightarrow>
             Inr (collected_kline c ''spot'' (to_int64_safe (json_field kv ''t'')) (to_int64_safe (json_field kv ''T''))
                    (map (\<lambda>f. to_float pf (json_field kv f)) [''o'', ''h'', ''l'', ''c'', ''v'', ''q''])
                    (to_int64_safe (json_field kv ''n'')),
                  (case json_field kv ''x'' of J_Bool b \<Rightarrow> b | _ \<Rightarrow> False))
         | _ \<Rightarrow> Inl (Err ''no k field'')))"

fun spot_read_loop ::
  "nat \<Rightarrow> 'w collector_env \<Rightarrow> 'w socket_env \<Rightarrow> collector \<Rightarrow> 'w forward_state \<Rightarrow> (go_error option \<times> 'w forward_state) option" where
  "spot_read_loop 0 env ws c st = None"
| "spot_read_loop (Suc n) env ws c (resume, w) =
     (case ws_recv ws w of
        (Inl e, w1) \<Rightarrow>
          (case ws_stopped ws w1 of
             (True, w2) \<Rightarrow> Some (None, (resume, w2))
           | (False, w2) \<Rightarrow> Some (Some (Wrapped ''read'' e), (resume, w2)))
      | (Inr msg, w1) \<Rightarrow>
        (case spot_parse_msg ws (ce_float env) c msg of
           Inl _ \<Rightarrow> spot_read_loop n env ws c (resume, w1)
         | Inr (k, closed) \<Rightarrow>
           (case spot_handle_forward env c k closed (resume, w1) of
              (Some e, st) \<Rightarrow> Some (Some (Wrapped ''store forward kline'' e), st)
            | (None, st) \<Rightarrow> spot_read_loop n env ws c st)))"

definition spot_dial_and_read ::
  "nat \<Rightarrow> 'w collector_env \<Rightarrow> 'w socket_env \<Rightarrow> collector \<Rightarrow> string \<Rightarrow> 'w forward_state
    \<Rightarrow> (go_error option \<times> 'w forward_state) option" where
  "spot_dial_and_read n env ws c url st =
     (case ws_connect ws url (snd st) of
        (Some e, w1) \<Rightarrow> Some (Some (Wrapped ''dial'' e), (fst st, w1))
      | (None, w1) \<Rightarrow> map_option (\<lambda>(e, (resume, w2)). (e, (resume, ws_close ws w2))) (spot_read_loop n env ws c (fst st, w1)))"

text \<open>
  \<open>isClosed\<close>: \<open>errors.Is\<close> looks through wrapped errors, \<open>websocket.IsCloseError\<close> looks only at the
  error itself.
\<close>

definition is_closed_error :: "go_error \<Rightarrow> bool" where
  "is_closed_error e \<longleftrightarrow> error_root e = Ctx_Canceled \<or> error_root e = Net_Closed
     \<or> (case e of Ws_Close code \<Rightarrow> code = 1001 \<or> code = 1000 | _ \<Rightarrow> False)"

definition spot_ws_url :: "collector \<Rightarrow> string" where
  "spot_ws_url c = ''wss://stream.binance.com:9443/ws/'' @ kc_symbol c @ ''@kline_'' @ kc_interval c"

text \<open>The wait of two seconds before the next round; \<open>next_round\<close> goes on.\<close>

definition after_pause ::
  "'w collector_env \<Rightarrow> ('w forward_state \<Rightarrow> 'w forward_state option) \<Rightarrow> 'w forward_state \<Rightarrow> 'w forward_state option" where
  "after_pause env next_round st =
     (case ce_wait env (dur_mul 2 second) (snd st) of
        (True, w1) \<Rightarrow> Some (fst st, w1)
      | (False, w1) \<Rightarrow> next_round (fst st, w1))"

fun spot_forward :: "nat \<Rightarrow> 'w collector_env \<Rightarrow> 'w socket_env \<Rightarrow> collector \<Rightarrow> 'w forward_state \<Rightarrow> 'w forward_state option" where
  "spot_forward 0 env ws c st = None"
| "spot_forward (Suc n) env ws c st =
     (case ce_ended env (snd st) of
        (True, w1) \<Rightarrow> Some (fst st, w1)
      | (False, w1) \<Rightarrow>
        (case spot_catch_up n env c (fst st, w1) of
           None \<Rightarrow> None
         | Some (Some e, st2) \<Rightarrow> after_pause env (spot_forward n env ws c) st2
         | Some (None, st2) \<Rightarrow>
           (case spot_dial_and_read n env ws c (spot_ws_url c) st2 of
              None \<Rightarrow> None
            | Some (None, st3) \<Rightarrow> Some st3
            | Some (Some e, st3) \<Rightarrow>
              if is_closed_error e then Some st3 else after_pause env (spot_forward n env ws c) st3)))"

subsection \<open>Forward collection of futures bars\<close>

definition max_publish_age_ms :: int where "max_publish_age_ms = 60000"

definition select_forward_publish :: "kline list \<Rightarrow> bool \<Rightarrow> int \<Rightarrow> kline list" where
  "select_forward_publish closed seeded now_ms =
     (if \<not> seeded then []
      else (case closed of
          [k] \<Rightarrow> if wrap64 (now_ms - unix_milli (k_close_time k)) > max_publish_age_ms then [] else [k]
        | _ \<Rightarrow> []))"

text \<open>One tick: the cursor is \<open>lastCloseTime\<close>.\<close>

definition futures_tick :: "'w collector_env \<Rightarrow> collector \<Rightarrow> 'w forward_state \<Rightarrow> 'w forward_state" where
  "futures_tick env c st =
     (case futures_fetch env c (fst st) (snd st) of
        (Inl e, w1) \<Rightarrow> (fst st, w1)
      | (Inr ks, w1) \<Rightarrow>
        (let (now, w2) = ce_now env w1;
             closed = filter_closed_klines ks (unix_milli now)
         in if closed = [] then (fst st, w2)
            else (case futures_store_with_publish env c closed
                     (select_forward_publish closed (0 < fst st) (unix_milli now)) w2 of
                (Some e, w3) \<Rightarrow> (fst st, w3)
              | (None, w3) \<Rightarrow> (unix_milli (k_close_time (last closed)), w3))))"

text \<open>The ticker: \<open>ce_wait\<close> decides between the next tick and the end.\<close>

fun futures_forward :: "nat \<Rightarrow> 'w collector_env \<Rightarrow> collector \<Rightarrow> 'w forward_state \<Rightarrow> 'w forward_state option" where
  "futures_forward 0 env c st = None"
| "futures_forward (Suc n) env c st =
     (case ce_wait env (dur_mul 5 second) (snd st) of
        (True, w1) \<Rightarrow> Some (fst st, w1)
      | (False, w1) \<Rightarrow> futures_forward n env c (futures_tick env c (fst st, w1)))"

text \<open>\<open>Run\<close> of the two collectors.\<close>

definition spot_run :: "nat \<Rightarrow> 'w collector_env \<Rightarrow> 'w socket_env \<Rightarrow> collector \<Rightarrow> 'w \<Rightarrow> 'w option" where
  "spot_run n env ws c w =
     (if kc_reverse c then map_option snd (spot_reverse n env c w) else map_option snd (spot_forward n env ws c (0, w)))"

definition futures_run :: "nat \<Rightarrow> 'w collector_env \<Rightarrow> collector \<Rightarrow> 'w \<Rightarrow> 'w option" where
  "futures_run n env c w =
     (if kc_reverse c then map_option snd (futures_reverse n env c w) else map_option snd (futures_forward n env c (0, w)))"

subsection \<open>Stopping and observing\<close>

text \<open>
  \<open>Stop\<close> closes the channel \<open>done\<close> unless it is closed, which ends the loops at their next look; the spot
  collector also closes its connection. \<open>SetObserver\<close> replaces the observer.
\<close>

record 'w stop_env =
  sp_done :: "'w \<Rightarrow> bool"
  sp_close_done :: "'w \<Rightarrow> 'w"
  sp_close_conn :: "'w \<Rightarrow> 'w"

definition spot_stop :: "'w stop_env \<Rightarrow> 'w \<Rightarrow> 'w" where
  "spot_stop env w = (if sp_done env w then w else sp_close_conn env (sp_close_done env w))"

definition futures_stop :: "'w stop_env \<Rightarrow> 'w \<Rightarrow> 'w" where
  "futures_stop env w = (if sp_done env w then w else sp_close_done env w)"

definition set_observer :: "(kline \<Rightarrow> 'w \<Rightarrow> 'w) \<Rightarrow> 'w collector_env \<Rightarrow> 'w collector_env" where
  "set_observer f env = env\<lparr>ce_observer := Some f\<rparr>"

lemma stop_once:
  assumes "\<And>w. sp_done env (sp_close_done env w)" "\<And>w. sp_done env (sp_close_conn env w) = sp_done env w"
  shows "spot_stop env (spot_stop env w) = spot_stop env w" "futures_stop env (futures_stop env w) = futures_stop env w"
  by (simp_all add: spot_stop_def futures_stop_def assms)

end
