(* ===== verification/Kline_Sound.thy ===== *)
theory Kline_Sound
  imports Kline_Collectors Storage_Timescale
begin

text \<open>
  What the bar collectors store and publish. The exchange is the interface \<open>kline_exchange\<close>: a grid of
  bars, given by their open and close times in milliseconds, from which a page is cut as the REST
  documentation says; answers may also fail, bodies may be undecodable, inserts may fail. The
  store is the interface \<open>kline_sink\<close> of the storage layer. The interfaces are interpreted on a
  reference feed whose store is the model's \<open>InsertKline\<close>.
\<close>

subsection \<open>A grid of bars\<close>

type_synonym bar_grid = "(int \<times> int) list"

definition ascending :: "bar_grid \<Rightarrow> bool" where
  "ascending g \<longleftrightarrow> sorted_wrt (\<lambda>p q. snd p < fst q) g \<and> (\<forall>p \<in> set g. 0 < fst p \<and> fst p < snd p \<and> snd p + 1 < max_int64)"

definition grid_page :: "bar_grid \<Rightarrow> nat \<Rightarrow> int \<Rightarrow> int \<Rightarrow> bar_grid" where
  "grid_page g n a b = take n (filter (\<lambda>p. a \<le> fst p \<and> fst p \<le> b) g)"

lemma ascending_total:
  assumes "ascending g" "p \<in> set g" "q \<in> set g"
  shows "p = q \<or> snd p < fst q \<or> snd q < fst p"
proof -
  have "sorted_wrt (\<lambda>p q. snd p < fst q) g" using assms(1) by (simp add: ascending_def)
  then show ?thesis using assms(2,3) by (induction g) auto
qed

lemma grid_page_subset: "p \<in> set (grid_page g n a b) \<Longrightarrow> p \<in> set g \<and> a \<le> fst p \<and> fst p \<le> b"
  by (auto simp: grid_page_def dest: in_set_takeD)

lemma grid_page_rest:
  assumes "ascending g" "p \<in> set g" "a \<le> fst p" "fst p \<le> b" "p \<notin> set (grid_page g n a b)"
    and "q \<in> set (grid_page g n a b)"
  shows "snd q < fst p"
proof -
  let ?f = "filter (\<lambda>p. a \<le> fst p \<and> fst p \<le> b) g"
  have "sorted_wrt (\<lambda>p q. snd p < fst q) (take n ?f @ drop n ?f)"
    using assms(1) by (simp add: ascending_def sorted_wrt_filter)
  moreover have "p \<in> set (drop n ?f)"
    using assms(2-5) set_append [of "take n ?f" "drop n ?f"] by (auto simp: grid_page_def)
  ultimately show ?thesis using assms(6) unfolding sorted_wrt_append grid_page_def by blast
qed

text \<open>A bar of the grid that opens up to the close of the last bar of a page is in the page.\<close>

lemma grid_page_upto:
  assumes "ascending g" "p \<in> set g" "a \<le> fst p" "q \<in> set (grid_page g n a b)" "fst p \<le> snd q"
  shows "p \<in> set (grid_page g n a b)"
proof (rule ccontr)
  assume out: "p \<notin> set (grid_page g n a b)"
  note q = grid_page_subset [OF assms(4)]
  have "fst p \<le> b"
    using ascending_total [OF assms(1,2), of q] q assms(1,2,5) by (auto simp: ascending_def)
  from grid_page_rest [OF assms(1-3) this out assms(4)] assms(5) show False by simp
qed

lemma grid_page_Nil: "p \<in> set g \<Longrightarrow> a \<le> fst p \<Longrightarrow> fst p \<le> b \<Longrightarrow> 0 < n \<Longrightarrow> grid_page g n a b \<noteq> []"
  by (auto simp: grid_page_def filter_empty_conv)

subsection \<open>The interface of the exchange\<close>

text \<open>A row that the collectors accept, and its open and close time.\<close>

definition good_row :: "json list \<Rightarrow> bool" where
  "good_row row \<longleftrightarrow> 12 \<le> length row \<and> snd (to_int64 (row ! 0)) = None \<and> snd (to_int64 (row ! 6)) = None"

definition row_times :: "json list \<Rightarrow> int \<times> int" where
  "row_times row = (to_int64_safe (row ! 0), to_int64_safe (row ! 6))"

definition later :: "('w \<Rightarrow> int) \<Rightarrow> ('w \<Rightarrow> kline \<Rightarrow> bool) \<Rightarrow> 'w \<Rightarrow> 'w \<Rightarrow> bool" where
  "later clock has_bar w w' \<longleftrightarrow> clock w \<le> clock w' \<and> (\<forall>k. has_bar w k \<longrightarrow> has_bar w' k)"

lemma later_refl [simp]: "later clock has_bar w w"
  by (simp add: later_def)

lemma later_trans [trans]: "later clock has_bar u v \<Longrightarrow> later clock has_bar v w \<Longrightarrow> later clock has_bar u w"
  by (auto simp: later_def)

text \<open>
  Binance documents of the klines query: the bars with \<open>startTime \<le> open \<le> endTime\<close>, ascending, at
  most \<open>limit\<close>. A query does not ask beyond the present (\<open>clock\<close>, in milliseconds); the price fields
  of a row are not restricted, an open bar may change. Nothing but an insert touches the store.
\<close>

locale kline_exchange = kline_sink "ce_insert env" has_bar
  for env :: "'w collector_env" and has_bar :: "'w \<Rightarrow> kline \<Rightarrow> bool" +
  fixes url :: string and symbol :: string and interval :: string and grid :: bar_grid and clock :: "'w \<Rightarrow> int"
  assumes grid: "ascending grid"
    and answer: "ce_http env url q w = (Answer 200 status body, w') \<Longrightarrow> ce_decode env body = Inr rows \<Longrightarrow>
      map_of q ''symbol'' = Some symbol \<Longrightarrow> map_of q ''interval'' = Some interval \<Longrightarrow>
      map_of q ''limit'' = Some ''100'' \<Longrightarrow> map_of q ''startTime'' = Some (itoa a) \<Longrightarrow>
      map_of q ''endTime'' = Some (itoa b) \<Longrightarrow> b \<le> clock w \<Longrightarrow>
      list_all good_row rows \<and> map row_times rows = grid_page grid 100 a b"
    and http_later: "ce_http env u q w = (x, w') \<Longrightarrow> later clock has_bar w w'"
    and sleep_later: "later clock has_bar w (ce_sleep env d w)"
    and ended_later: "ce_ended env w = (x1, w') \<Longrightarrow> later clock has_bar w w'"
    and wait_later: "ce_wait env d w = (x2, w') \<Longrightarrow> later clock has_bar w w'"
    and now_later: "ce_now env w = (t, w') \<Longrightarrow> later clock has_bar w w' \<and> clock w \<le> unix_milli t \<and> unix_milli t \<le> clock w'"
    and insert_later: "ce_insert env ks w = (r, w') \<Longrightarrow> clock w \<le> clock w'"
    and publish_later: "ce_publish env = Some p \<Longrightarrow> p ks w = (r, w') \<Longrightarrow> later clock has_bar w w'"
    and observer_later: "ce_observer env = Some f \<Longrightarrow> later clock has_bar w (f k w)"
begin

lemma insert_is_later: "ce_insert env ks w = (r, w') \<Longrightarrow> later clock has_bar w w'"
  using insert_later insert_keeps by (simp add: later_def)

lemma notify_later: "later clock has_bar w (notify_stored env ks w)"
  by (auto simp: notify_stored_def split: option.splits intro: observer_later)

lemma fetch_attempts_later:
  "fetch_attempts env u q rd fl left e w = (r, w') \<Longrightarrow> later clock has_bar w w'"
proof (induction left arbitrary: e w)
  case (Suc left)
  obtain a w1 where h: "ce_http env u q w = (a, w1)" by (meson surj_pair)
  note l1 = http_later [OF h]
  have l2: "later clock has_bar w (ce_sleep env d w1)" for d using l1 sleep_later by (rule later_trans)
  show ?case
    using Suc.prems l1 Suc.IH [THEN later_trans [OF l2]]
    by (auto simp: h Let_def split: rest_answer.splits if_splits sum.splits)
qed simp

lemma fetch_attempts_rows:
  assumes "fetch_attempts env u q rd fl left e w = (Inr ks, w')"
  shows "\<exists>w1 w2 status body rows. later clock has_bar w w1 \<and> ce_http env u q w1 = (Answer 200 status body, w2)
    \<and> ce_decode env body = Inr rows \<and> ks = rd rows \<and> later clock has_bar w w'"
  using assms fetch_attempts_later [OF assms]
proof (induction left arbitrary: e w)
  case (Suc left)
  obtain a w1 where h: "ce_http env u q w = (a, w1)" by (meson surj_pair)
  note l1 = http_later [OF h]
  have l2: "later clock has_bar w (ce_sleep env d w1)" for d using l1 sleep_later by (rule later_trans)
  have again: ?case if "fetch_attempts env u q rd fl left e' (ce_sleep env d w1) = (Inr ks, w')" for e' d
    using Suc.IH [OF that fetch_attempts_later [OF that]] later_trans [OF l2] by blast
  show ?case
  proof (cases a)
    case (No_Answer e')
    with Suc.prems(1) h show ?thesis by (intro again) (simp add: Let_def)
  next
    case (Answer code status body)
    note unf = Suc.prems(1) [unfolded fetch_attempts.simps h Answer Let_def prod.case rest_answer.case]
    show ?thesis
    proof (cases "code = 429")
      case True
      with unf show ?thesis by (intro again) simp
    next
      case False
      with unf obtain rows where "ce_decode env body = Inr rows" "ks = rd rows" "code = 200"
        by (auto split: if_splits sum.splits)
      with h Answer Suc.prems(2) later_refl [of clock has_bar w] show ?thesis by blast
    qed
  qed
qed simp

text \<open>The times of a collected bar, and the bar of a collector that opens at a millisecond.\<close>

definition has_open :: "collector \<Rightarrow> string \<Rightarrow> 'w \<Rightarrow> int \<Rightarrow> bool" where
  "has_open c market w t \<longleftrightarrow> (\<exists>k. has_bar w k \<and> k_symbol k = to_upper (kc_symbol c) \<and> k_market k = market
     \<and> k_exchange k = kc_exchange c \<and> k_interval k = kc_interval c \<and> k_open_time k = of_unix_milli t
     \<and> k_time k = of_unix_milli t)"

lemma has_open_later: "has_open c m w t \<Longrightarrow> later clock has_bar w w' \<Longrightarrow> has_open c m w' t"
  by (auto simp: has_open_def later_def)

end

text \<open>The bars of rows that were read from a page of the grid.\<close>

definition bar_times :: "kline \<Rightarrow> int \<times> int" where
  "bar_times k = (unix_milli (k_open_time k), unix_milli (k_close_time k))"

definition collected_from :: "collector \<Rightarrow> string \<Rightarrow> kline \<Rightarrow> bool" where
  "collected_from c market k \<longleftrightarrow> k_symbol k = to_upper (kc_symbol c) \<and> k_market k = market
     \<and> k_exchange k = kc_exchange c \<and> k_interval k = kc_interval c
     \<and> k_open_time k = of_unix_milli (fst (bar_times k)) \<and> k_time k = k_open_time k"

lemma row_kline_times:
  assumes "ascending g" "row_times row \<in> set g"
  shows "bar_times (row_kline pf c m row) = row_times row \<and> collected_from c m (row_kline pf c m row)"
proof -
  have "0 < to_int64_safe (row ! 0)" "to_int64_safe (row ! 0) < to_int64_safe (row ! 6)" "to_int64_safe (row ! 6) < max_int64"
    using assms by (auto simp: ascending_def row_times_def)
  then show ?thesis
    by (simp add: bar_times_def row_times_def row_kline_def collected_kline_def collected_from_def
        unix_milli_of_unix_milli max_int64_def min_int64_def)
qed

lemma rows_klines_times:
  assumes "ascending g" "map row_times rows = p" "set p \<subseteq> set g"
  shows "map bar_times (map (row_kline pf c m) rows) = p \<and> (\<forall>k \<in> set (map (row_kline pf c m) rows). collected_from c m k)"
proof -
  have "row_times row \<in> set g" if "row \<in> set rows" for row using assms(2,3) that by auto
  then show ?thesis using assms(2) row_kline_times [OF assms(1)] by (auto simp: map_eq_conv)
qed

lemma spot_rows_good: "list_all good_row rows \<Longrightarrow> spot_rows pf c rows = map (row_kline pf c ''spot'') rows"
  by (auto simp: spot_rows_def list_all_iff good_row_def filter_True_conv)

lemma futures_parse_good: "good_row row \<Longrightarrow> futures_parse_row pf c row = Inr (row_kline pf c ''futures'' row)"
  by (cases "to_int64 (row ! 0)"; cases "to_int64 (row ! 6)") (simp add: futures_parse_row_def good_row_def)

lemma futures_rows_good: "list_all good_row rows \<Longrightarrow> futures_rows pf c rows = map (row_kline pf c ''futures'') rows"
  by (induction rows) (auto simp: futures_rows_def futures_parse_good)

text \<open>The bars of a page that have closed.\<close>

lemma closed_bar: "k \<in> set (filter_closed_klines ks t) \<longleftrightarrow> k \<in> set ks \<and> snd (bar_times k) \<le> t"
  by (auto simp: filter_closed_klines_def bar_times_def)

lemma all_closed: "\<not> length (filter_closed_klines ks t) < length ks \<Longrightarrow> filter_closed_klines ks t = ks"
  unfolding filter_closed_klines_def by (metis filter_id_conv length_filter_less)

subsection \<open>Pages, stores and the loops\<close>

context kline_exchange
begin

lemma spot_page:
  assumes "spot_fetch_batch env c a b w = (Inr ks, w')" "url = spot_rest_url" "kc_symbol c = symbol" "kc_interval c = interval"
    and "b \<le> clock w"
  shows "map bar_times ks = grid_page grid 100 a b \<and> (\<forall>k \<in> set ks. collected_from c ''spot'' k)"
proof -
  from fetch_attempts_rows [OF assms(1) [unfolded spot_fetch_batch_def]] assms(2)
  obtain w1 w2 status body rows where l: "later clock has_bar w w1"
    and h: "ce_http env url [(''symbol'', kc_symbol c), (''interval'', kc_interval c), (''startTime'', itoa a),
        (''endTime'', itoa b), (''limit'', ''100'')] w1 = (Answer 200 status body, w2)"
    and d: "ce_decode env body = Inr rows" and ks: "ks = spot_rows (ce_float env) c rows" by blast
  have "b \<le> clock w1" using l assms(5) by (simp add: later_def)
  from answer [OF h d _ _ _ _ _ this, of a] assms(3,4)
  have rows: "list_all good_row rows" "map row_times rows = grid_page grid 100 a b" by simp_all
  have "set (grid_page grid 100 a b) \<subseteq> set grid" by (auto dest: grid_page_subset)
  from rows_klines_times [OF grid rows(2) this] show ?thesis unfolding ks spot_rows_good [OF rows(1)] .
qed

lemma spot_fetch_later: "spot_fetch_batch env c a b w = (r, w') \<Longrightarrow> later clock has_bar w w'"
  unfolding spot_fetch_batch_def by (rule fetch_attempts_later)

text \<open>A page that was stored, by the open times of its bars.\<close>

lemma page_has_open:
  assumes "map bar_times ks = p" "\<forall>k \<in> set ks. collected_from c m k" "\<forall>k \<in> set ks. has_bar w k" "q \<in> set p"
  shows "has_open c m w (fst q)"
proof -
  obtain k where k: "k \<in> set ks" "q = bar_times k" using assms(1,4) by auto
  then show ?thesis
    unfolding has_open_def using assms(2,3) by (intro exI [of _ k]) (auto simp: collected_from_def)
qed

lemma spot_store_stores:
  assumes "spot_store_klines env c ks w = (r, w')"
  shows "later clock has_bar w w' \<and> (r = None \<longrightarrow> (\<forall>k \<in> set ks. has_bar w' k))"
proof (cases "ks = []")
  case True
  with assms show ?thesis by (simp add: spot_store_klines_def)
next
  case False
  obtain x w1 where i: "ce_insert env ks w = (x, w1)" by (meson surj_pair)
  note l = insert_is_later [OF i]
  show ?thesis
  proof (cases x)
    case (Some e)
    with assms False i l show ?thesis by (auto simp: spot_store_klines_def)
  next
    case None
    have all: "\<forall>k \<in> set ks. has_bar w1 k" using i None insert_stores by blast
    have "later clock has_bar w1 w'"
      using assms False i None later_trans [OF publish_later notify_later] publish_later
      by (auto simp: spot_store_klines_def notify_later split: if_splits option.splits prod.splits)
    with l all show ?thesis by (auto simp: later_def)
  qed
qed

text \<open>Everything from \<open>start\<close> up to the cursor is stored.\<close>

definition stored_upto :: "collector \<Rightarrow> string \<Rightarrow> int \<Rightarrow> int \<Rightarrow> 'w \<Rightarrow> bool" where
  "stored_upto c m start cur w \<longleftrightarrow> (\<forall>p \<in> set grid. start \<le> fst p \<longrightarrow> fst p < cur \<longrightarrow> has_open c m w (fst p))"

lemma stored_upto_later: "stored_upto c m s cur w \<Longrightarrow> later clock has_bar w w' \<Longrightarrow> stored_upto c m s cur w'"
  by (auto simp: stored_upto_def intro: has_open_later)

text \<open>The cursor after a page that was stored.\<close>

lemma page_cursor:
  assumes "map bar_times ks = grid_page grid n cur b" "ks \<noteq> []"
  shows "resume_after ks = snd (last (grid_page grid n cur b)) + 1" "cur < resume_after ks"
    "last (grid_page grid n cur b) \<in> set (grid_page grid n cur b)"
proof -
  let ?p = "grid_page grid n cur b"
  have ne: "?p \<noteq> []" using assms by auto
  then show mem: "last ?p \<in> set ?p" by simp
  have "bar_times (last ks) = last ?p" using assms by (metis last_map)
  then have close: "unix_milli (k_close_time (last ks)) = snd (last ?p)" by (metis bar_times_def snd_conv)
  have b: "0 < fst (last ?p)" "fst (last ?p) < snd (last ?p)" "snd (last ?p) < max_int64" "cur \<le> fst (last ?p)"
    using grid grid_page_subset [OF mem] by (auto simp: ascending_def)
  then show r: "resume_after ks = snd (last ?p) + 1"
    unfolding resume_after_def close by (intro wrap64_id) (auto simp: min_int64_def)
  show "cur < resume_after ks" using r b by simp
qed

lemma stored_upto_page:
  assumes "stored_upto c m s cur w" "map bar_times ks = grid_page grid n cur b" "ks \<noteq> []"
    and "\<forall>k \<in> set ks. collected_from c m k" "\<forall>k \<in> set ks. has_bar w k"
  shows "stored_upto c m s (resume_after ks) w"
  unfolding stored_upto_def
proof (intro ballI impI)
  fix p assume p: "p \<in> set grid" "s \<le> fst p" "fst p < resume_after ks"
  note cur = page_cursor [OF assms(2,3)]
  show "has_open c m w (fst p)"
  proof (cases "fst p < cur")
    case True
    with assms(1) p show ?thesis by (simp add: stored_upto_def)
  next
    case False
    then have "p \<in> set (grid_page grid n cur b)"
      using p(3) cur(1) by (intro grid_page_upto [OF grid p(1) _ cur(3)]) auto
    then show ?thesis by (rule page_has_open [OF assms(2,4,5)])
  qed
qed

lemma spot_reverse_loop_stores:
  assumes "url = spot_rest_url" "kc_symbol c = symbol" "kc_interval c = interval"
  shows "reverse_loop n env (\<lambda>cur. spot_fetch_batch env c cur b) (spot_store_klines env c) b cur w = Some (True, w') \<Longrightarrow>
    b \<le> clock w \<Longrightarrow> stored_upto c ''spot'' s cur w \<Longrightarrow> stored_upto c ''spot'' s b w'"
proof (induction n arbitrary: cur w)
  case (Suc n)
  obtain x w1 where en: "ce_ended env w = (x, w1)" by (meson surj_pair)
  obtain f w2 where fe: "spot_fetch_batch env c cur b w1 = (f, w2)" by (meson surj_pair)
  have l2: "later clock has_bar w w2" using ended_later [OF en] spot_fetch_later [OF fe] by (rule later_trans)
  have l1: "later clock has_bar w w1" by (rule ended_later [OF en])
  have up: "stored_upto c ''spot'' s cur v \<and> b \<le> clock v" if "later clock has_bar w v" for v
    using that Suc.prems(2,3) by (auto intro: stored_upto_later simp: later_def)
  note step = Suc.prems(1) [unfolded reverse_loop.simps en prod.case fe]
  show ?case
  proof (cases "cur < b")
    case False
    with step Suc.prems(3) show ?thesis by (auto simp: stored_upto_def)
  next
    case run: True
    with step have x: "\<not> x" by (auto split: bool.splits)
    show ?thesis
    proof (cases f)
      case (Inl e)
      have "later clock has_bar w (ce_sleep env (dur_mul 2 second) w2)" using l2 sleep_later by (rule later_trans)
      with up Suc.IH step run x Inl show ?thesis by simp
    next
      case (Inr ks)
      have "b \<le> clock w1" using up [OF l1] by simp
      from spot_page [OF fe [unfolded Inr] assms this] have page: "map bar_times ks = grid_page grid 100 cur b"
        "\<forall>k \<in> set ks. collected_from c ''spot'' k" by auto
      show ?thesis
      proof (cases "ks = []")
        case True
        then have "p \<in> set grid \<Longrightarrow> cur \<le> fst p \<Longrightarrow> \<not> fst p \<le> b" for p
          using page(1) grid_page_Nil [of p grid cur b 100] by auto
        then have "stored_upto c ''spot'' s b w2"
          using up [OF l2] by (force simp: stored_upto_def)
        with step run x Inr True show ?thesis by simp
      next
        case False
        obtain r w3 where st: "spot_store_klines env c ks w2 = (r, w3)" by (meson surj_pair)
        note store = spot_store_stores [OF st]
        have l3: "later clock has_bar w w3" using l2 store by (blast intro: later_trans)
        have l4: "later clock has_bar w3 (ce_sleep env d w3)" for d by (rule sleep_later)
        show ?thesis
        proof (cases r)
          case (Some e)
          with up [OF l3] Suc.IH step run x Inr False st show ?thesis by simp
        next
          case None
          have "stored_upto c ''spot'' s (resume_after ks) w3"
            using up [OF l3] page False store None by (intro stored_upto_page) auto
          then have kept: "stored_upto c ''spot'' s (resume_after ks) (ce_sleep env (dur_mul 200 millisecond) w3)"
            using l4 by (rule stored_upto_later)
          from step run x Inr False st None
          have "reverse_loop n env (\<lambda>cur. spot_fetch_batch env c cur b) (spot_store_klines env c) b (resume_after ks)
              (ce_sleep env (dur_mul 200 millisecond) w3) = Some (True, w')" by simp
          from Suc.IH [OF this _ kept] up [OF later_trans [OF l3 l4]] show ?thesis by blast
        qed
      qed
    qed
  qed
qed simp

lemma spot_reverse_stores:
  assumes "url = spot_rest_url" "kc_symbol c = symbol" "kc_interval c = interval"
    and "spot_reverse n env c w = Some (True, w')" "unix_milli (kc_end c) \<noteq> 0" "unix_milli (kc_end c) \<le> clock w"
  shows "stored_upto c ''spot'' (unix_milli (kc_start c)) (unix_milli (kc_end c)) w'"
  using assms(4-6)
  by (intro spot_reverse_loop_stores [OF assms(1-3), of n "unix_milli (kc_end c)" "unix_milli (kc_start c)" w])
    (auto simp: spot_reverse_def reverse_end_def stored_upto_def)

subsection \<open>Catching up after an interruption\<close>

lemma store_without_publish_stores:
  assumes "spot_store_without_publish env ks w = (r, w')"
  shows "later clock has_bar w w' \<and> (r = None \<longrightarrow> (\<forall>k \<in> set ks. has_bar w' k))"
proof (cases "ks = []")
  case True
  with assms show ?thesis by (simp add: spot_store_without_publish_def)
next
  case False
  obtain x w1 where i: "ce_insert env ks w = (x, w1)" by (meson surj_pair)
  have "later clock has_bar w (notify_stored env ks w1)"
    using insert_is_later [OF i] notify_later by (rule later_trans)
  then show ?thesis
    using assms False i insert_is_later [OF i] insert_stores [of ks w w1] notify_later [of w1 ks]
    by (auto simp: spot_store_without_publish_def later_def split: option.splits)
qed

lemma stored_upto_closed:
  assumes "stored_upto c m s cur w" "map bar_times ks = grid_page grid n cur b" "filter_closed_klines ks t \<noteq> []"
    and "\<forall>k \<in> set ks. collected_from c m k" "\<forall>k \<in> set (filter_closed_klines ks t). has_bar w k"
  shows "stored_upto c m s (resume_after (filter_closed_klines ks t)) w \<and> cur < resume_after (filter_closed_klines ks t)
    \<and> resume_after (filter_closed_klines ks t) = unix_milli (k_close_time (last (filter_closed_klines ks t))) + 1
    \<and> unix_milli (k_close_time (last (filter_closed_klines ks t))) < max_int64"
proof -
  let ?cl = "filter_closed_klines ks t"
  define q where "q = bar_times (last ?cl)"
  have last: "last ?cl \<in> set ?cl" using assms(3) by simp
  then have q: "q \<in> set (grid_page grid n cur b)" "snd q \<le> t"
    using assms(2) [symmetric] by (auto simp: q_def closed_bar)
  note qg = grid_page_subset [OF q(1)]
  have qt: "0 < fst q" "fst q < snd q" "snd q < max_int64" using grid qg by (auto simp: ascending_def)
  have r: "resume_after ?cl = snd q + 1"
    unfolding resume_after_def q_def bar_times_def snd_conv
    by (rule wrap64_id) (use qt in \<open>auto simp: q_def bar_times_def min_int64_def\<close>)
  have "has_open c m w (fst p)" if p: "p \<in> set grid" "s \<le> fst p" "fst p < resume_after ?cl" for p
  proof (cases "fst p < cur")
    case True
    with assms(1) p show ?thesis by (simp add: stored_upto_def)
  next
    case False
    then have "p \<in> set (grid_page grid n cur b)" using p(3) r by (intro grid_page_upto [OF grid p(1) _ q(1)]) auto
    then obtain k where k: "k \<in> set ks" "p = bar_times k" using assms(2) [symmetric] by auto
    have "snd p \<le> snd q" using ascending_total [OF grid p(1), of q] qg qt p(3) r by auto
    then have "k \<in> set ?cl" using k q(2) by (simp add: closed_bar)
    then have "\<forall>k' \<in> set [k]. has_bar w k'" "\<forall>k' \<in> set [k]. collected_from c m k'" using assms(4,5) k(1) by auto
    from page_has_open [OF _ this(2,1), of "[p]" p] k(2) show ?thesis by simp
  qed
  then show ?thesis using r qg qt by (auto simp: stored_upto_def q_def bar_times_def)
qed

text \<open>A closed bar is on the page, unless the whole page had closed.\<close>

lemma closed_on_page:
  assumes "map bar_times ks = grid_page grid n cur b" "0 < n" "filter_closed_klines ks b \<noteq> ks \<or> ks = []"
    and "p \<in> set grid" "cur \<le> fst p" "snd p \<le> b"
  shows "\<exists>k \<in> set (filter_closed_klines ks b). bar_times k = p"
proof -
  have pb: "fst p \<le> b" using assms(4,6) grid by (force simp: ascending_def)
  have page: "p \<in> set (grid_page grid n cur b)"
  proof (rule ccontr)
    assume out: "p \<notin> set (grid_page grid n cur b)"
    have "ks \<noteq> []" using grid_page_Nil [OF assms(4,5) pb assms(2)] assms(1) by auto
    then obtain k where k: "k \<in> set ks" "\<not> snd (bar_times k) \<le> b"
      using assms(3) by (auto simp: filter_closed_klines_def bar_times_def filter_id_conv)
    then have "bar_times k \<in> set (grid_page grid n cur b)" using assms(1) [symmetric] by simp
    from grid_page_rest [OF grid assms(4,5) pb out this] k(2) pb show False by simp
  qed
  then show ?thesis using assms(1) [symmetric] assms(6) by (auto simp: closed_bar)
qed

lemma catch_up_loop_stores:
  assumes "url = spot_rest_url" "kc_symbol c = symbol" "kc_interval c = interval"
  shows "catch_up_loop n env c cur (cur, w) = Some (x, (r', w')) \<Longrightarrow> t0 \<le> clock w \<Longrightarrow> stored_upto c ''spot'' s cur w \<Longrightarrow>
    cur \<le> r' \<and> stored_upto c ''spot'' s r' w' \<and> later clock has_bar w w'
    \<and> (x = None \<longrightarrow> (\<forall>p \<in> set grid. s \<le> fst p \<longrightarrow> snd p \<le> t0 \<longrightarrow> has_open c ''spot'' w' (fst p)))"
proof (induction n arbitrary: cur w)
  case (Suc n)
  obtain now w1 where nw: "ce_now env w = (now, w1)" by (meson surj_pair)
  let ?t = "unix_milli now"
  have l1: "later clock has_bar w w1" and t: "clock w \<le> ?t" "?t \<le> clock w1" using now_later [OF nw] by auto
  obtain f w2 where fe: "spot_fetch_batch env c cur ?t w1 = (f, w2)" by (meson surj_pair)
  have l2: "later clock has_bar w w2" using l1 spot_fetch_later [OF fe] by (rule later_trans)
  note step = Suc.prems(1) [unfolded catch_up_loop.simps nw Let_def prod.case fe]
  have old: "has_open c ''spot'' v (fst p)" if "later clock has_bar w v" "p \<in> set grid" "s \<le> fst p" "fst p < cur" for p v
    using stored_upto_later [OF Suc.prems(3) that(1)] that(2-4) by (simp add: stored_upto_def)
  have fst_snd: "p \<in> set grid \<Longrightarrow> fst p < snd p" for p using grid by (auto simp: ascending_def)
  show ?case
  proof (cases "?t \<le> cur")
    case True
    then have "fst p < cur" if "p \<in> set grid" "snd p \<le> t0" for p
      using fst_snd [OF that(1)] that(2) t(1) Suc.prems(2) by simp
    with step True old [OF l1] stored_upto_later [OF Suc.prems(3) l1] l1 show ?thesis by auto
  next
    case run: False
    show ?thesis
    proof (cases f)
      case (Inl e)
      with step run stored_upto_later [OF Suc.prems(3) l2] l2 show ?thesis by auto
    next
      case (Inr ks)
      from spot_page [OF fe [unfolded Inr] assms t(2)] have page: "map bar_times ks = grid_page grid 100 cur ?t"
        "\<forall>k \<in> set ks. collected_from c ''spot'' k" by auto
      let ?cl = "filter_closed_klines ks ?t"
      have seen: "has_open c ''spot'' v (fst p)"
        if "?cl \<noteq> ks \<or> ks = []" "later clock has_bar w v" "\<forall>k \<in> set ?cl. has_bar v k" "p \<in> set grid" "s \<le> fst p" "snd p \<le> t0" for p v
      proof (cases "fst p < cur")
        case True
        with old that show ?thesis by blast
      next
        case False
        have "snd p \<le> ?t" using that(6) Suc.prems(2) t(1) by simp
        with closed_on_page [OF page(1) _ that(1,4)] False obtain k where k: "k \<in> set ?cl" "bar_times k = p" by auto
        then have "\<forall>k' \<in> set [k]. has_bar v k'" "\<forall>k' \<in> set [k]. collected_from c ''spot'' k'"
          using that(3) page(2) by (auto simp: closed_bar)
        from page_has_open [OF _ this(2,1), of "[p]" p] k(2) show ?thesis by simp
      qed
      show ?thesis
      proof (cases "ks = [] \<or> ?cl = []")
        case True
        then have "?cl = []" by (auto simp: filter_closed_klines_def)
        then have part: "?cl \<noteq> ks \<or> ks = []" "\<forall>k \<in> set ?cl. has_bar w2 k" by auto
        from step run Inr True have "x = None" "r' = cur" "w' = w2" by auto
        with seen [OF part(1) l2 part(2)] stored_upto_later [OF Suc.prems(3) l2] l2 show ?thesis by auto
      next
        case False
        obtain e w3 where st: "spot_store_without_publish env ?cl w2 = (e, w3)" by (meson surj_pair)
        note store = store_without_publish_stores [OF st]
        have l3: "later clock has_bar w w3" using l2 store by (blast intro: later_trans)
        show ?thesis
        proof (cases e)
          case (Some err)
          with step run Inr False st have "x = Some err" "r' = cur" "w' = w3" by (auto simp: spot_store_catch_up_def)
          with stored_upto_later [OF Suc.prems(3) l3] l3 show ?thesis by auto
        next
          case None
          have all: "\<forall>k \<in> set ?cl. has_bar w3 k" using store None by blast
          from False have ne: "?cl \<noteq> []" by blast
          note nxt = stored_upto_closed [OF stored_upto_later [OF Suc.prems(3) l3] page(1) ne page(2) all]
          show ?thesis
          proof (cases "length ?cl < length ks")
            case True
            with step run Inr False st None nxt have "x = None" "r' = resume_after ?cl" "w' = w3"
              by (auto simp: spot_store_catch_up_def)
            moreover have "?cl \<noteq> ks" using True by force
            ultimately show ?thesis using nxt seen [OF _ l3 all] l3 by auto
          next
            case go: False
            with step run Inr False st None nxt
            have "catch_up_loop n env c (resume_after ?cl) (resume_after ?cl, w3) = Some (x, (r', w'))"
              by (auto simp: spot_store_catch_up_def)
            from Suc.IH [OF this] nxt l3 Suc.prems(2) show ?thesis
              using later_trans [OF l3] by (force simp: later_def)
          qed
        qed
      qed
    qed
  qed
qed simp

subsection \<open>Polling futures bars\<close>

lemma futures_page:
  assumes "futures_fetch env c since w = (Inr ks, w')" "url = futures_rest_url" "kc_symbol c = symbol" "kc_interval c = interval"
    and "0 < since" "since < max_int64"
  shows "\<exists>b. ks = [] \<or> map bar_times ks = grid_page grid 100 (since + 1) b \<and> (\<forall>k \<in> set ks. collected_from c ''futures'' k)"
proof -
  obtain now w1 where nw: "ce_now env w = (now, w1)" by (meson surj_pair)
  let ?q = "[(''symbol'', kc_symbol c), (''interval'', kc_interval c), (''limit'', ''100''),
    (''startTime'', itoa (since + 1)), (''endTime'', itoa (unix_milli now))]"
  have since: "wrap64 (since + 1) = since + 1" using assms(5,6) by (intro wrap64_id) (auto simp: min_int64_def)
  show ?thesis
  proof (cases "unix_milli now \<le> since + 1")
    case True
    with assms(1,5) nw since show ?thesis by (auto simp: futures_fetch_def Let_def)
  next
    case False
    with assms(1,5) nw since obtain fl where
      "fetch_attempts env futures_rest_url ?q (futures_rows (ce_float env) c) fl max_retries None w1 = (Inr ks, w')"
      by (auto simp: futures_fetch_def Let_def)
    from fetch_attempts_rows [OF this] assms(2)
    obtain v1 v2 status body rows where l: "later clock has_bar w1 v1" and h: "ce_http env url ?q v1 = (Answer 200 status body, v2)"
      and d: "ce_decode env body = Inr rows" and ks: "ks = futures_rows (ce_float env) c rows" by blast
    have "unix_milli now \<le> clock v1" using l now_later [OF nw] by (auto simp: later_def)
    from answer [OF h d _ _ _ _ _ this, of "since + 1"] assms(3,4)
    have rows: "list_all good_row rows" "map row_times rows = grid_page grid 100 (since + 1) (unix_milli now)" by simp_all
    have "set (grid_page grid 100 (since + 1) (unix_milli now)) \<subseteq> set grid" by (auto dest: grid_page_subset)
    from rows_klines_times [OF grid rows(2) this] show ?thesis unfolding ks futures_rows_good [OF rows(1)] by blast
  qed
qed

lemma futures_fetch_later: "futures_fetch env c since w = (r, w') \<Longrightarrow> later clock has_bar w w'"
proof -
  assume f: "futures_fetch env c since w = (r, w')"
  obtain now w1 where nw: "ce_now env w = (now, w1)" by (meson surj_pair)
  then have "later clock has_bar w w1" using now_later by blast
  with f nw show ?thesis
    by (auto simp: futures_fetch_def Let_def split: if_splits dest: fetch_attempts_later intro: later_trans)
qed

lemma futures_store_stores:
  assumes "futures_store_with_publish env c ks pub w = (r, w')"
  shows "later clock has_bar w w' \<and> (r = None \<longrightarrow> (\<forall>k \<in> set ks. has_bar w' k))"
proof (cases "ks = []")
  case True
  with assms show ?thesis by (simp add: futures_store_with_publish_def)
next
  case False
  obtain x w1 where i: "ce_insert env ks w = (x, w1)" by (meson surj_pair)
  note l = insert_is_later [OF i]
  show ?thesis
  proof (cases x)
    case (Some e)
    with assms False i l show ?thesis by (auto simp: futures_store_with_publish_def)
  next
    case None
    have all: "\<forall>k \<in> set ks. has_bar w1 k" using i None insert_stores by blast
    have pub: "later clock has_bar w1 (notify_stored env ks (snd (p pub w1)))" if "ce_publish env = Some p" for p
      using publish_later [OF that] notify_later later_trans by (metis prod.collapse)
    have "later clock has_bar w1 w'"
      using assms False i None pub notify_later by (auto simp: futures_store_with_publish_def split: if_splits option.splits)
    with l all show ?thesis by (auto simp: later_def)
  qed
qed

lemma futures_tick_stores:
  assumes "url = futures_rest_url" "kc_symbol c = symbol" "kc_interval c = interval"
    and "futures_tick env c (cur, w) = (cur', w')" "0 < cur" "cur < max_int64" "stored_upto c ''futures'' s (cur + 1) w"
  shows "cur \<le> cur' \<and> cur' < max_int64 \<and> stored_upto c ''futures'' s (cur' + 1) w'"
proof -
  obtain f w1 where fe: "futures_fetch env c cur w = (f, w1)" by (meson surj_pair)
  note l1 = futures_fetch_later [OF fe]
  obtain now w2 where nw: "ce_now env w1 = (now, w2)" by (meson surj_pair)
  have l2: "later clock has_bar w w2" using l1 now_later [OF nw] by (blast intro: later_trans)
  show ?thesis
  proof (cases "\<exists>ks. f = Inr ks \<and> filter_closed_klines ks (unix_milli now) \<noteq> []")
    case False
    with assms(4) fe nw have "cur' = cur" "w' = w1 \<or> w' = w2" by (auto simp: futures_tick_def Let_def split: sum.splits if_splits)
    with assms(6,7) l1 l2 show ?thesis by (auto intro: stored_upto_later)
  next
    case True
    then obtain ks where ks: "f = Inr ks" "filter_closed_klines ks (unix_milli now) \<noteq> []" by blast
    let ?cl = "filter_closed_klines ks (unix_milli now)"
    from futures_page [OF fe [unfolded ks(1)] assms(1-3,5,6)] ks(2) obtain b where
      page: "map bar_times ks = grid_page grid 100 (cur + 1) b" "\<forall>k \<in> set ks. collected_from c ''futures'' k"
      by (auto simp: filter_closed_klines_def)
    let ?pub = "select_forward_publish ?cl (0 < cur) (unix_milli now)"
    obtain r w3 where st: "futures_store_with_publish env c ?cl ?pub w2 = (r, w3)" by (meson surj_pair)
    note store = futures_store_stores [OF st]
    have l3: "later clock has_bar w w3" using l2 store by (blast intro: later_trans)
    show ?thesis
    proof (cases r)
      case (Some e)
      with assms(4) fe nw ks st have "cur' = cur" "w' = w3" by (auto simp: futures_tick_def Let_def)
      with assms(6,7) l3 show ?thesis by (auto intro: stored_upto_later)
    next
      case None
      with assms(4) fe nw ks st have res: "cur' = unix_milli (k_close_time (last ?cl))" "w' = w3"
        by (auto simp: futures_tick_def Let_def)
      have all: "\<forall>k \<in> set ?cl. has_bar w3 k" using store None by blast
      note nxt = stored_upto_closed [OF stored_upto_later [OF assms(7) l3] page(1) ks(2) page(2) all]
      then show ?thesis unfolding res by (elim conjE) simp
    qed
  qed
qed

lemma futures_forward_stores:
  assumes "url = futures_rest_url" "kc_symbol c = symbol" "kc_interval c = interval"
  shows "futures_forward n env c (cur, w) = Some (cur', w') \<Longrightarrow> 0 < cur \<Longrightarrow> cur < max_int64 \<Longrightarrow>
    stored_upto c ''futures'' s (cur + 1) w \<Longrightarrow> cur \<le> cur' \<and> stored_upto c ''futures'' s (cur' + 1) w'"
proof (induction n arbitrary: cur w)
  case (Suc n)
  obtain x w1 where wt: "ce_wait env (dur_mul 5 second) w = (x, w1)" by (meson surj_pair)
  have kept: "stored_upto c ''futures'' s (cur + 1) w1" using Suc.prems(4) wait_later [OF wt] by (rule stored_upto_later)
  show ?case
  proof (cases x)
    case True
    with Suc.prems(1) wt kept show ?thesis by auto
  next
    case False
    obtain cur2 w2 where tk: "futures_tick env c (cur, w1) = (cur2, w2)" by (meson surj_pair)
    note tick = futures_tick_stores [OF assms tk Suc.prems(2,3) kept]
    from Suc.prems(1) wt False tk have "futures_forward n env c (cur2, w2) = Some (cur', w')" by simp
    from Suc.IH [OF this] tick Suc.prems(2) show ?thesis by auto
  qed
qed simp

end

subsection \<open>What the loops ask of the store and of the publisher\<close>

text \<open>
  The store, or the publisher, with calls that a test refuses answered by something else: if that
  makes no difference to a run, the run makes no call that the test refuses.
\<close>

definition only_inserts :: "(kline list \<Rightarrow> bool) \<Rightarrow> (kline list \<Rightarrow> 'w \<Rightarrow> go_error option \<times> 'w) \<Rightarrow> 'w collector_env \<Rightarrow> 'w collector_env" where
  "only_inserts ok other env = env\<lparr>ce_insert := \<lambda>ks w. if ok ks then ce_insert env ks w else other ks w\<rparr>"

definition only_publishes :: "(kline list \<Rightarrow> 'w \<Rightarrow> bool) \<Rightarrow> (kline list \<Rightarrow> 'w \<Rightarrow> go_error option \<times> 'w) \<Rightarrow> 'w collector_env \<Rightarrow> 'w collector_env" where
  "only_publishes ok other env =
     env\<lparr>ce_publish := map_option (\<lambda>p ks w. if ok ks w then p ks w else other ks w) (ce_publish env)\<rparr>"

lemma guard_fields [simp]:
  "ce_ended (only_inserts ok other env) = ce_ended env" "ce_sleep (only_inserts ok other env) = ce_sleep env"
  "ce_now (only_inserts ok other env) = ce_now env" "ce_publish (only_inserts ok other env) = ce_publish env"
  "ce_wait (only_inserts ok other env) = ce_wait env" "ce_float (only_inserts ok other env) = ce_float env"
  "ok ks \<Longrightarrow> ce_insert (only_inserts ok other env) ks = ce_insert env ks"
  "ce_ended (only_publishes okp otherp env) = ce_ended env" "ce_sleep (only_publishes okp otherp env) = ce_sleep env"
  "ce_now (only_publishes okp otherp env) = ce_now env" "ce_insert (only_publishes okp otherp env) = ce_insert env"
  "ce_wait (only_publishes okp otherp env) = ce_wait env" "ce_float (only_publishes okp otherp env) = ce_float env"
  by (simp_all add: only_inserts_def only_publishes_def fun_eq_iff)

lemma ce_publish_guard:
  "ce_publish (only_publishes ok other env) = map_option (\<lambda>p ks w. if ok ks w then p ks w else other ks w) (ce_publish env)"
  by (simp add: only_publishes_def)

lemma fetch_attempts_cong:
  "ce_http env' = ce_http env \<Longrightarrow> ce_sleep env' = ce_sleep env \<Longrightarrow> ce_decode env' = ce_decode env \<Longrightarrow>
   fetch_attempts env' u q rd fl left e w = fetch_attempts env u q rd fl left e w"
  by (induction left arbitrary: e w) (simp_all add: Let_def split: rest_answer.split prod.split)

lemma guard_fetch_attempts [simp]:
  "fetch_attempts (only_inserts ok other env) = fetch_attempts env"
  "fetch_attempts (only_publishes okp otherp env) = fetch_attempts env"
  by (intro ext fetch_attempts_cong, simp_all add: only_inserts_def only_publishes_def)+

lemma guard_fetch [simp]:
  "spot_fetch_batch (only_inserts ok other env) = spot_fetch_batch env"
  "spot_fetch_batch (only_publishes okp otherp env) = spot_fetch_batch env"
  "futures_fetch (only_inserts ok other env) = futures_fetch env"
  "futures_fetch (only_publishes okp otherp env) = futures_fetch env"
  by (simp_all add: fun_eq_iff spot_fetch_batch_def futures_fetch_def Let_def split: prod.split)

lemma guard_notify [simp]:
  "notify_stored (only_inserts ok other env) = notify_stored env"
  "notify_stored (only_publishes okp otherp env) = notify_stored env"
  by (simp_all add: fun_eq_iff notify_stored_def only_inserts_def only_publishes_def)

lemma guard_reverse_end [simp]: "reverse_end (only_inserts ok other env) c = reverse_end env c"
  by (simp add: fun_eq_iff reverse_end_def)

lemma reverse_loop_guard: "reverse_loop n (only_inserts ok other env) fetch store b cur w = reverse_loop n env fetch store b cur w"
  by (induction n arbitrary: cur w) (simp_all split: prod.split bool.split sum.split option.split)

lemma guard_store_catch_up [simp]:
  "ok ks \<or> ks = [] \<Longrightarrow> spot_store_catch_up (only_inserts ok other env) ks st = spot_store_catch_up env ks st"
  "spot_store_catch_up (only_publishes okp otherp env) ks st = spot_store_catch_up env ks st"
  by (auto simp: spot_store_catch_up_def spot_store_without_publish_def split: prod.split option.split)

lemma guard_futures_store [simp]:
  "ok ks \<or> ks = [] \<Longrightarrow> futures_store_with_publish (only_inserts ok other env) c ks pub w = futures_store_with_publish env c ks pub w"
  by (auto simp: futures_store_with_publish_def split: prod.split option.split)

lemma catch_up_publishes_nothing [simp]: "spot_catch_up n (only_publishes ok other env) c st = spot_catch_up n env c st"
proof -
  have "catch_up_loop n (only_publishes ok other env) c cur st = catch_up_loop n env c cur st" for cur
  proof (induction n arbitrary: cur st)
    case (Suc n)
    then show ?case by (cases st) (simp add: Let_def split: prod.split sum.split option.split)
  qed simp
  then show ?thesis by (simp add: spot_catch_up_def)
qed

context kline_exchange
begin

text \<open>A published bar is in the store: the publisher is only called with stored bars.\<close>

lemma spot_store_publishes_stored:
  "spot_store_klines (only_publishes (\<lambda>ks w. \<forall>k \<in> set ks. has_bar w k) other env) c ks w = spot_store_klines env c ks w"
proof -
  obtain x w1 where i: "ce_insert env ks w = (x, w1)" by (meson surj_pair)
  have "\<forall>k \<in> set ks. has_bar w1 k" if "x = None" using i that insert_stores by blast
  then show ?thesis
    by (cases x; cases "ce_publish env")
      (simp_all add: spot_store_klines_def i ce_publish_guard split: prod.split option.split)
qed

lemma spot_read_publishes_stored:
  "spot_read_loop n (only_publishes (\<lambda>ks w. \<forall>k \<in> set ks. has_bar w k) other env) ws c st = spot_read_loop n env ws c st"
  by (induction n arbitrary: st)
    (auto simp: spot_handle_forward_def spot_store_forward_def spot_store_publishes_stored split: prod.split sum.split option.split)

lemma spot_forward_publishes_stored:
  "spot_forward n (only_publishes (\<lambda>ks w. \<forall>k \<in> set ks. has_bar w k) other env) ws c st = spot_forward n env ws c st"
  by (induction n arbitrary: st)
    (simp_all add: spot_dial_and_read_def spot_read_publishes_stored after_pause_def
      cong: option.case_cong prod.case_cong bool.case_cong split: option.split prod.split bool.split)

text \<open>A page that is asked for from \<open>cur\<close> on has no bar that opens before.\<close>

lemma page_from:
  assumes "map bar_times ks = grid_page grid n cur b"
  shows "\<forall>k \<in> set ks. cur \<le> fst (bar_times k)"
proof
  fix k assume "k \<in> set ks"
  then have "bar_times k \<in> set (grid_page grid n cur b)" using assms [symmetric] by simp
  then show "cur \<le> fst (bar_times k)" by (auto dest: grid_page_subset)
qed

lemma catch_up_loop_inserts:
  assumes "url = spot_rest_url" "kc_symbol c = symbol" "kc_interval c = interval"
  shows "r \<le> cur \<Longrightarrow> catch_up_loop n (only_inserts (\<lambda>ks. \<forall>k \<in> set ks. r \<le> fst (bar_times k)) other env) c cur st
    = catch_up_loop n env c cur st"
proof (induction n arbitrary: cur st)
  case (Suc n)
  obtain resume w where st: "st = (resume, w)" by (cases st)
  obtain now w1 where nw: "ce_now env w = (now, w1)" by (meson surj_pair)
  let ?t = "unix_milli now"
  obtain f w2 where fe: "spot_fetch_batch env c cur ?t w1 = (f, w2)" by (meson surj_pair)
  show ?case
  proof (cases f)
    case (Inl e)
    then show ?thesis by (simp add: st nw fe Let_def)
  next
    case (Inr ks)
    have "map bar_times ks = grid_page grid 100 cur ?t"
      using spot_page [OF fe [unfolded Inr] assms] now_later [OF nw] by blast
    from page_from [OF this] Suc.prems have ok: "\<forall>k \<in> set (filter_closed_klines ks ?t). r \<le> fst (bar_times k)"
      by (force simp: filter_closed_klines_def)
    have "r \<le> next_ms" if "\<not> next_ms \<le> cur" for next_ms using that Suc.prems by simp
    then show ?thesis
      by (simp add: st nw fe Inr ok Suc.IH Let_def split: prod.split option.split)
  qed
qed simp

lemma futures_reverse_loop_inserts:
  assumes "url = futures_rest_url" "kc_symbol c = symbol" "kc_interval c = interval" "kc_reverse c"
  shows "start \<le> cur \<Longrightarrow> 0 < start \<Longrightarrow> cur < max_int64 \<Longrightarrow>
    reverse_loop n env (futures_fetch env c)
      (futures_store_klines (only_inserts (\<lambda>ks. \<forall>k \<in> set ks. start < fst (bar_times k)) other env) c) b cur w
    = reverse_loop n env (futures_fetch env c) (futures_store_klines env c) b cur w"
proof (induction n arbitrary: cur w)
  case (Suc n)
  obtain x w1 where en: "ce_ended env w = (x, w1)" by (meson surj_pair)
  obtain f w2 where fe: "futures_fetch env c cur w1 = (f, w2)" by (meson surj_pair)
  show ?case
  proof (cases "\<exists>ks. f = Inr ks \<and> ks \<noteq> []")
    case False
    then show ?thesis
      using Suc.IH [OF Suc.prems] by (cases f) (simp_all add: en fe split: bool.split)
  next
    case True
    then obtain ks where ks: "f = Inr ks" "ks \<noteq> []" by blast
    from futures_page [OF fe [unfolded ks(1)] assms(1-3) _ Suc.prems(3)] Suc.prems(1,2) ks(2) obtain b' where
      page: "map bar_times ks = grid_page grid 100 (cur + 1) b'" by auto
    have ok: "\<forall>k \<in> set ks. start < fst (bar_times k)" using page_from [OF page] Suc.prems(1) by force
    note next_cur = page_cursor [OF page ks(2)]
    have "resume_after ks < max_int64"
      using next_cur(1) grid_page_subset [OF next_cur(3)] grid by (force simp: ascending_def)
    then show ?thesis
      using Suc.IH [of "resume_after ks"] Suc.IH [OF Suc.prems] next_cur(2) Suc.prems ok
      by (simp add: en fe ks futures_store_klines_def split: bool.split prod.split option.split)
  qed
qed simp

end

text \<open>The interface also covers a store that refuses some batches.\<close>

definition refusing :: "(kline list \<Rightarrow> bool) \<Rightarrow> go_error \<Rightarrow> 'w collector_env \<Rightarrow> 'w collector_env" where
  "refusing bad e env = env\<lparr>ce_insert := \<lambda>ks w. if bad ks then (Some e, w) else ce_insert env ks w\<rparr>"

lemma refusing_fields [simp]:
  "ce_http (refusing bad e env) = ce_http env" "ce_decode (refusing bad e env) = ce_decode env"
  "ce_sleep (refusing bad e env) = ce_sleep env" "ce_ended (refusing bad e env) = ce_ended env"
  "ce_wait (refusing bad e env) = ce_wait env" "ce_now (refusing bad e env) = ce_now env"
  "ce_publish (refusing bad e env) = ce_publish env" "ce_observer (refusing bad e env) = ce_observer env"
  "ce_insert (refusing bad e env) ks w = (if bad ks then (Some e, w) else ce_insert env ks w)"
  by (simp_all add: refusing_def)

lemma kline_exchange_refusing:
  assumes "kline_exchange env has_bar url symbol interval grid clock"
  shows "kline_exchange (refusing bad e env) has_bar url symbol interval grid clock"
proof -
  have sink: "kline_sink (ce_insert env) has_bar" by (rule kline_exchange.axioms(1) [OF assms])
  note laws = kline_exchange.http_later [OF assms] kline_exchange.ended_later [OF assms] kline_exchange.wait_later [OF assms]
    kline_exchange.now_later [OF assms] kline_exchange.publish_later [OF assms] kline_exchange.insert_later [OF assms]
    kline_sink.insert_stores [OF sink] kline_sink.insert_keeps [OF sink]
  show ?thesis
    by unfold_locales
      (auto split: if_splits simp: kline_exchange.grid [OF assms] dest: laws dest!: kline_exchange.answer [OF assms]
        intro: kline_exchange.sleep_later [OF assms] kline_exchange.observer_later [OF assms])
qed

subsection \<open>An exchange that is up\<close>

text \<open>Every query is answered, every insert succeeds and nobody stops the collector.\<close>

locale kline_exchange_up = kline_exchange +
  assumes http_up: "\<exists>status body w' rows. ce_http env url q w = (Answer 200 status body, w') \<and> ce_decode env body = Inr rows"
    and insert_up: "fst (ce_insert env ks w) = None"
    and not_ended: "\<not> fst (ce_ended env w)"
begin

lemma spot_fetch_ok: "url = spot_rest_url \<Longrightarrow> \<exists>ks w'. spot_fetch_batch env c a b w = (Inr ks, w')"
proof -
  assume u: "url = spot_rest_url"
  let ?q = "[(''symbol'', kc_symbol c), (''interval'', kc_interval c), (''startTime'', itoa a),
        (''endTime'', itoa b), (''limit'', ''100'')]"
  obtain status body w' rows where "ce_http env spot_rest_url ?q w = (Answer 200 status body, w')" "ce_decode env body = Inr rows"
    using http_up u by blast
  then show ?thesis by (simp add: spot_fetch_batch_def max_retries_def numeral_3_eq_3 Let_def)
qed

lemma spot_store_ok: "kc_reverse c \<Longrightarrow> fst (spot_store_klines env c ks w) = None"
  using insert_up [of ks w] by (auto simp: spot_store_klines_def split: prod.split option.split)

lemma reverse_loop_ends:
  assumes "url = spot_rest_url" "kc_symbol c = symbol" "kc_interval c = interval" "kc_reverse c"
  shows "length (filter (\<lambda>p. cur \<le> fst p) grid) < n \<Longrightarrow> b \<le> clock w \<Longrightarrow>
    \<exists>w'. reverse_loop n env (\<lambda>cur. spot_fetch_batch env c cur b) (spot_store_klines env c) b cur w = Some (True, w')"
proof (induction n arbitrary: cur w)
  case (Suc n)
  obtain w1 where en: "ce_ended env w = (False, w1)" using not_ended [of w] by (metis prod.collapse)
  obtain ks w2 where fe: "spot_fetch_batch env c cur b w1 = (Inr ks, w2)" using spot_fetch_ok [OF assms(1)] by blast
  obtain w3 where st: "spot_store_klines env c ks w2 = (None, w3)" using spot_store_ok [OF assms(4)] by (metis prod.collapse)
  have l: "later clock has_bar w (ce_sleep env d w3)" for d
    using ended_later [OF en] spot_fetch_later [OF fe] spot_store_stores [OF st] sleep_later by (blast intro: later_trans)
  have b1: "b \<le> clock w1" using ended_later [OF en] Suc.prems(2) by (simp add: later_def)
  show ?case
  proof (cases "ks = [] \<or> \<not> cur < b")
    case True
    then show ?thesis by (auto simp: en fe)
  next
    case False
    have page: "map bar_times ks = grid_page grid 100 cur b" using spot_page [OF fe assms(1-3) b1] by blast
    note next_cur = page_cursor [OF page]
    have q: "last (grid_page grid 100 cur b) \<in> set grid" "cur \<le> fst (last (grid_page grid 100 cur b))"
      "fst (last (grid_page grid 100 cur b)) < resume_after ks"
      using next_cur(1,3) False grid grid_page_subset [OF next_cur(3)] by (force simp: ascending_def)+
    have "filter (\<lambda>p. resume_after ks \<le> fst p) grid = filter (\<lambda>p. resume_after ks \<le> fst p) (filter (\<lambda>p. cur \<le> fst p) grid)"
      using next_cur(2) False by (auto intro: filter_cong)
    also have "length \<dots> < length (filter (\<lambda>p. cur \<le> fst p) grid)"
      by (rule length_filter_less [of "last (grid_page grid 100 cur b)"]) (use q in auto)
    finally have "length (filter (\<lambda>p. resume_after ks \<le> fst p) grid) < n" using Suc.prems(1) by simp
    moreover have "b \<le> clock (ce_sleep env (dur_mul 200 millisecond) w3)"
      using l [of "dur_mul 200 millisecond"] Suc.prems(2) unfolding later_def by linarith
    ultimately obtain w' where
      "reverse_loop n env (\<lambda>cur. spot_fetch_batch env c cur b) (spot_store_klines env c) b (resume_after ks)
        (ce_sleep env (dur_mul 200 millisecond) w3) = Some (True, w')" using Suc.IH by blast
    with False show ?thesis by (simp add: en fe st)
  qed
qed simp

end

end
