(* ===== verification/Kline_Feed.thy ===== *)
theory Kline_Feed
  imports Kline_Sound
begin

text \<open>
  The properties of the bar collectors, and a reference feed that meets their interfaces: two
  minute bars, answers cut from them, and the model's \<open>InsertKline\<close> on a reference database as the
  store.
\<close>

subsection \<open>A reference feed\<close>

record feed =
  fd_db :: pg_db
  fd_clock :: int
  fd_sent :: "kline list list"

definition feed_exec :: "feed sql_exec" where
  "feed_exec stmt w = (case pg_exec stmt (fd_db w) of (e, db) \<Rightarrow> (e, w\<lparr>fd_db := db\<rparr>))"

definition feed_has_row :: "feed \<Rightarrow> string \<Rightarrow> time \<Rightarrow> string \<Rightarrow> bool" where
  "feed_has_row w t x s = pg_has_row (fd_db w) t x s"

definition feed_grid :: bar_grid where
  "feed_grid = [(1767225600000, 1767225659999), (1767225660000, 1767225719999)]"

definition feed_row :: "int \<times> int \<Rightarrow> json list" where
  "feed_row p = [J_Str (itoa (fst p)), J_Null, J_Null, J_Null, J_Null, J_Null, J_Str (itoa (snd p)), J_Null, J_Null,
     J_Null, J_Null, J_Null]"

text \<open>A body names the range that was asked for.\<close>

definition feed_number :: "string \<Rightarrow> int" where
  "feed_number s = (if s \<noteq> [] \<and> hd s = CHR ''-'' then - digits_int (tl s) else digits_int s)"

definition feed_decode :: "string \<times> go_error option \<Rightarrow> json list list res" where
  "feed_decode body =
     Inr (map feed_row (grid_page feed_grid 100 (feed_number (takeWhile (\<lambda>c. c \<noteq> CHR '','') (fst body)))
       (feed_number (tl (dropWhile (\<lambda>c. c \<noteq> CHR '','') (fst body))))))"

definition feed_field :: "query \<Rightarrow> string \<Rightarrow> string" where
  "feed_field q f = (case map_of q f of None \<Rightarrow> [] | Some v \<Rightarrow> v)"

text \<open>The present, in milliseconds, within the years that the feed knows.\<close>

definition feed_clock :: "feed \<Rightarrow> int" where
  "feed_clock w = max 0 (min (fd_clock w) 2000000000000)"

definition feed_env :: "feed collector_env" where
  "feed_env = \<lparr>ce_http = (\<lambda>u q w. (Answer 200 ''200 OK'' (feed_field q ''startTime'' @ '','' @ feed_field q ''endTime'', None), w)),
     ce_decode = feed_decode, ce_float = (\<lambda>s. (0, None)), ce_sleep = (\<lambda>d w. w), ce_ended = (\<lambda>w. (False, w)),
     ce_wait = (\<lambda>d w. (1767225725000 \<le> fd_clock w, w\<lparr>fd_clock := fd_clock w + 5000\<rparr>)),
     ce_now = (\<lambda>w. (of_unix_milli (feed_clock w), w)), ce_insert = insert_klines feed_exec ''binance'',
     ce_publish = Some (\<lambda>ks w. (None, w\<lparr>fd_sent := fd_sent w @ [ks]\<rparr>)), ce_observer = None\<rparr>"

interpretation feed_db: sql_store_up feed_exec feed_has_row
proof unfold_locales
  fix table k w w'
  assume "feed_exec (Insert_Kline_Row table k) w = (None, w')"
  then show "feed_has_row w' table (k_time k) (k_symbol k)"
    by (cases "pg_exec (Insert_Kline_Row table k) (fd_db w)")
      (auto simp: feed_exec_def feed_has_row_def simp del: pg_exec.simps dest: pg.exec_insert)
next
  fix st w r w' t x s
  assume "feed_exec st w = (r, w')" "feed_has_row w t x s"
  then show "feed_has_row w' t x s"
    by (cases "pg_exec st (fd_db w)") (auto simp: feed_exec_def feed_has_row_def dest: pg.exec_keeps)
next
  fix ex t m w
  show "fst (feed_exec (build_create_table_sql ex t m ''klines'') w) = None"
    using pg_up.create_ok [of ex t m "fd_db w"]
    by (cases "pg_exec (build_create_table_sql ex t m ''klines'') (fd_db w)") (simp add: feed_exec_def)
next
  fix ex t m w w' k
  assume "feed_exec (build_create_table_sql ex t m ''klines'') w = (None, w')"
  then show "fst (feed_exec (Insert_Kline_Row t k) w') = None"
    using pg_up.insert_after_create [of ex t m "fd_db w" "fd_db w'" k]
    by (auto simp: feed_exec_def split: prod.splits)
qed

lemma feed_insert_clock:
  "insert_klines feed_exec ''binance'' ks w = (r, w') \<Longrightarrow> fd_clock w' = fd_clock w"
proof (induction ks arbitrary: w)
  case (Cons k ks)
  have exec: "feed_exec st w = (e, w1) \<Longrightarrow> fd_clock w1 = fd_clock w" for st w e w1
    by (auto simp: feed_exec_def split: prod.splits)
  have "optimistic_insert feed_exec t ins cr w = (e, w1) \<Longrightarrow> fd_clock w1 = fd_clock w" for t ins cr w e w1
    by (auto simp: optimistic_insert_def split: prod.splits option.splits dest!: exec)
  with Cons show ?case by (auto simp: Let_def split: prod.splits option.splits)
qed simp

lemma feed_number_itoa: "feed_number (itoa a) = a"
proof -
  have "hd (itoa_nat n) \<noteq> CHR ''-''" for n
    using itoa_nat_digits itoa_nat_nonempty is_digit_not_sign hd_in_set by metis
  then show ?thesis by (auto simp: feed_number_def itoa_def digits_int_val digits_val_itoa_nat itoa_nat_nonempty)
qed

lemma feed_page: "feed_decode (itoa a @ CHR '','' # itoa b, e) = Inr (map feed_row (grid_page feed_grid 100 a b))"
proof -
  have "takeWhile (\<lambda>c. c \<noteq> CHR '','') (itoa a) = itoa a"
    using itoa_comma_free [of a] by (auto simp: takeWhile_eq_all_conv)
  moreover have "dropWhile (\<lambda>c. c \<noteq> CHR '','') (itoa a @ CHR '','' # itoa b) = CHR '','' # itoa b"
    using itoa_comma_free [of a] by (subst dropWhile_append2) auto
  ultimately show ?thesis
    by (simp add: feed_decode_def feed_number_itoa takeWhile_tail)
qed

lemma feed_rows: "p \<in> set feed_grid \<Longrightarrow> good_row (feed_row p) \<and> row_times (feed_row p) = p"
proof -
  assume "p \<in> set feed_grid"
  then have "min_int64 \<le> fst p" "fst p \<le> max_int64" "min_int64 \<le> snd p" "snd p \<le> max_int64"
    by (auto simp: feed_grid_def min_int64_def max_int64_def)
  then have "to_int64 (J_Str (itoa (fst p))) = (fst p, None)" "to_int64 (J_Str (itoa (snd p))) = (snd p, None)"
    by (simp_all add: parse_int64_def atoi_itoa min_int64_def max_int64_def)
  then show ?thesis by (simp add: good_row_def row_times_def feed_row_def to_int64_safe_def)
qed

lemma feed_grid_rows: "list_all good_row (map feed_row (grid_page feed_grid n a b)) \<and> map row_times (map feed_row (grid_page feed_grid n a b)) = grid_page feed_grid n a b"
  using feed_rows grid_page_subset [of _ feed_grid n a b] by (auto simp: list_all_iff map_idI)

lemma feed_clock_bounds: "0 \<le> feed_clock w \<and> feed_clock w \<le> 2000000000000"
  by (simp add: feed_clock_def)

lemma feed_later: "later feed_clock (bar_stored feed_has_row) w w' \<longleftrightarrow>
    feed_clock w \<le> feed_clock w' \<and> (\<forall>k. bar_stored feed_has_row w k \<longrightarrow> bar_stored feed_has_row w' k)"
  by (simp add: later_def)

interpretation feed: kline_exchange_up feed_env "bar_stored feed_has_row" url "''btcusdt''" "''1m''" feed_grid feed_clock for url
proof unfold_locales
  show "ascending feed_grid" by code_simp
next
  fix q w status body w' rows a b
  assume "ce_http feed_env url q w = (Answer 200 status body, w')" "ce_decode feed_env body = Inr rows"
    "map_of q ''startTime'' = Some (itoa a)" "map_of q ''endTime'' = Some (itoa b)"
  then have "rows = map feed_row (grid_page feed_grid 100 a b)" by (auto simp: feed_env_def feed_field_def feed_page)
  then show "list_all good_row rows \<and> map row_times rows = grid_page feed_grid 100 a b" using feed_grid_rows by blast
next
  fix w t w'
  assume "ce_now feed_env w = (t, w')"
  moreover have "unix_milli (of_unix_milli (feed_clock w)) = feed_clock w"
    using feed_clock_bounds [of w] by (intro unix_milli_of_unix_milli) (auto simp: min_int64_def max_int64_def)
  ultimately show "later feed_clock (bar_stored feed_has_row) w w' \<and> feed_clock w \<le> unix_milli t \<and> unix_milli t \<le> feed_clock w'"
    by (auto simp: feed_env_def)
next
  fix ks w r w'
  assume "ce_insert feed_env ks w = (r, w')"
  then show "feed_clock w \<le> feed_clock w'" by (auto simp: feed_env_def feed_clock_def dest: feed_insert_clock)
next
  fix ks w
  show "fst (ce_insert feed_env ks w) = None" using feed_db.insert_klines_ok by (simp add: feed_env_def)
next
  fix ks w w' k
  assume "ce_insert feed_env ks w = (None, w')" "k \<in> set ks"
  then show "bar_stored feed_has_row w' k" using feed_db.db.insert_stores by (simp add: feed_env_def)
next
  fix ks w r w' k
  assume "ce_insert feed_env ks w = (r, w')" "bar_stored feed_has_row w k"
  then show "bar_stored feed_has_row w' k" using feed_db.db.insert_keeps by (simp add: feed_env_def)
next
  fix u q w x w'
  assume "ce_http feed_env u q w = (x, w')"
  then show "later feed_clock (bar_stored feed_has_row) w w'" by (simp add: feed_env_def)
next
  fix w d
  show "later feed_clock (bar_stored feed_has_row) w (ce_sleep feed_env d w)" by (simp add: feed_env_def)
next
  fix w x w'
  assume "ce_ended feed_env w = (x, w')"
  then show "later feed_clock (bar_stored feed_has_row) w w'" by (simp add: feed_env_def)
next
  fix d w x w'
  assume "ce_wait feed_env d w = (x, w')"
  then have "w' = w\<lparr>fd_clock := fd_clock w + 5000\<rparr>" by (simp add: feed_env_def)
  then show "later feed_clock (bar_stored feed_has_row) w w'" by (simp add: feed_later feed_clock_def bar_stored_def feed_has_row_def)
next
  fix p ks w r w'
  assume "ce_publish feed_env = Some p" "p ks w = (r, w')"
  then have "w' = w\<lparr>fd_sent := fd_sent w @ [ks]\<rparr>" by (auto simp: feed_env_def)
  then show "later feed_clock (bar_stored feed_has_row) w w'" by (simp add: feed_later feed_clock_def bar_stored_def feed_has_row_def)
next
  fix f k w
  assume "ce_observer feed_env = Some f"
  then show "later feed_clock (bar_stored feed_has_row) w (f k w)" by (simp add: feed_env_def)
next
  fix q w
  show "\<exists>status body w' rows. ce_http feed_env url q w = (Answer 200 status body, w') \<and> ce_decode feed_env body = Inr rows"
    by (simp add: feed_env_def feed_decode_def)
next
  fix w
  show "\<not> fst (ce_ended feed_env w)" by (simp add: feed_env_def)
qed

subsection \<open>Properties\<close>

text \<open>The stored bar of a collector that opens at a millisecond.\<close>

definition bar_open_at :: "('w \<Rightarrow> kline \<Rightarrow> bool) \<Rightarrow> collector \<Rightarrow> string \<Rightarrow> 'w \<Rightarrow> int \<Rightarrow> bool" where
  "bar_open_at has_bar c market w t \<longleftrightarrow> (\<exists>k. has_bar w k \<and> k_symbol k = to_upper (kc_symbol c) \<and> k_market k = market
     \<and> k_exchange k = kc_exchange c \<and> k_interval k = kc_interval c \<and> k_open_time k = of_unix_milli t
     \<and> k_time k = of_unix_milli t)"

lemma bar_open_at_has_open: "kline_exchange env has_bar u s i g clock \<Longrightarrow>
    kline_exchange.has_open has_bar c m w t = bar_open_at has_bar c m w t"
  by (simp add: kline_exchange.has_open_def bar_open_at_def)

text \<open>
  C11. A reverse collection of spot bars that completes has stored every bar of the exchange that
  opens in the requested range, however often requests, decoding or inserts failed on the way.
\<close>

theorem spot_reverse_complete:
  assumes "kline_exchange env has_bar spot_rest_url (kc_symbol c) (kc_interval c) grid clock"
    and "spot_reverse n env c w = Some (True, w')"
    and "unix_milli (kc_end c) \<noteq> 0" and "unix_milli (kc_end c) \<le> clock w"
    and "p \<in> set grid" and "unix_milli (kc_start c) \<le> fst p" and "fst p < unix_milli (kc_end c)"
  shows "bar_open_at has_bar c ''spot'' w' (fst p)"
  using kline_exchange.spot_reverse_stores [OF assms(1) refl refl refl assms(2-4)] assms(5-7)
  unfolding kline_exchange.stored_upto_def [OF assms(1)] bar_open_at_has_open [OF assms(1)] by blast

definition feed_collector :: collector where
  "feed_collector = set_reverse (of_unix_milli 1767225600000) (of_unix_milli 1767225700000)
     (new_scraper ''btcusdt'' ''binance'' ''1m'')"

definition feed_start :: feed where
  "feed_start = \<lparr>fd_db = empty_pg, fd_clock = 1767225740000, fd_sent = []\<rparr>"

lemma feed_collector_stream: "kc_symbol feed_collector = ''btcusdt''" "kc_interval feed_collector = ''1m''"
  by (simp_all add: feed_collector_def new_scraper_def set_reverse_def)

lemma feed_exchange:
  "kline_exchange feed_env (bar_stored feed_has_row) url (kc_symbol feed_collector) (kc_interval feed_collector) feed_grid feed_clock"
  unfolding feed_collector_stream by (rule feed.kline_exchange_axioms)

theorem spot_reverse_complete_witness:
  "\<exists>w'. spot_reverse 2 feed_env feed_collector feed_start = Some (True, w')
     \<and> bar_open_at (bar_stored feed_has_row) feed_collector ''spot'' w' 1767225660000"
proof -
  obtain w' where run: "spot_reverse 2 feed_env feed_collector feed_start = Some (True, w')"
    by (rule that) code_simp
  have "unix_milli (kc_end feed_collector) \<noteq> 0" "unix_milli (kc_end feed_collector) \<le> feed_clock feed_start"
    "(1767225660000, 1767225719999) \<in> set feed_grid" "unix_milli (kc_start feed_collector) \<le> fst (1767225660000 :: int, 1767225719999 :: int)"
    "fst (1767225660000 :: int, 1767225719999 :: int) < unix_milli (kc_end feed_collector)" by code_simp+
  from spot_reverse_complete [OF feed_exchange run this] run show ?thesis by simp
qed

text \<open>
  A reverse collection of spot bars ends: with an exchange and a store that answer, as many
  rounds as the grid has bars, and one, suffice for a range that lies in the past.
\<close>

theorem spot_reverse_terminates:
  assumes "kline_exchange_up env has_bar spot_rest_url (kc_symbol c) (kc_interval c) grid clock"
    and "kc_reverse c" and "unix_milli (kc_end c) \<noteq> 0" and "unix_milli (kc_end c) \<le> clock w"
  shows "\<exists>w'. spot_reverse (length grid + 1) env c w = Some (True, w')"
proof -
  have "length (filter (\<lambda>p. unix_milli (kc_start c) \<le> fst p) grid) < length grid + 1"
    using length_filter_le [of _ grid] by (simp add: less_Suc_eq_le)
  from kline_exchange_up.reverse_loop_ends [OF assms(1) refl refl refl assms(2) this assms(4)] assms(3)
  show ?thesis by (simp add: spot_reverse_def reverse_end_def)
qed

theorem spot_reverse_terminates_witness:
  "\<exists>w'. spot_reverse (length feed_grid + 1) feed_env feed_collector feed_start = Some (True, w')"
proof -
  have "kline_exchange_up feed_env (bar_stored feed_has_row) spot_rest_url (kc_symbol feed_collector)
      (kc_interval feed_collector) feed_grid feed_clock"
    unfolding feed_collector_stream by (rule feed.kline_exchange_up_axioms)
  moreover have "kc_reverse feed_collector" "unix_milli (kc_end feed_collector) \<noteq> 0"
    "unix_milli (kc_end feed_collector) \<le> feed_clock feed_start" by code_simp+
  ultimately show ?thesis by (rule spot_reverse_terminates)
qed

text \<open>
  The reverse collection of futures bars never stores the bar that opens at the start of its
  range: no call of \<open>InsertKline\<close> of the run contains a bar that opens at the start or before (the
  run is the same if such a call were answered by anything else).
\<close>

theorem futures_reverse_skips_start:
  assumes "kline_exchange env has_bar futures_rest_url (kc_symbol c) (kc_interval c) grid clock"
    and "kc_reverse c" and "0 < unix_milli (kc_start c)" and "unix_milli (kc_start c) < max_int64"
  shows "futures_reverse n (only_inserts (\<lambda>ks. \<forall>k \<in> set ks. unix_milli (kc_start c) < unix_milli (k_open_time k)) other env) c w
    = futures_reverse n env c w"
  using kline_exchange.futures_reverse_loop_inserts [OF assms(1) refl refl refl assms(2) order_refl assms(3,4)]
  by (simp add: futures_reverse_def bar_times_def reverse_loop_guard split: prod.split)

text \<open>The feed has a bar that opens at the start; it is the one that is missing afterwards.\<close>

theorem futures_reverse_skips_start_witness:
  "map_option (\<lambda>p. pg_rows (fd_db (snd p))) (futures_reverse 2 feed_env feed_collector feed_start)
    = Some [(''futures_klines_btcusdt_1m'', 1767225660000000000, ''BTCUSDT'')]
   \<and> fst (hd feed_grid) = unix_milli (kc_start feed_collector)"
proof -
  let ?only = "only_inserts (\<lambda>ks. \<forall>k \<in> set ks. unix_milli (kc_start feed_collector) < unix_milli (k_open_time k)) (\<lambda>ks w. (Some (Err []), w)) feed_env"
  have pre: "kc_reverse feed_collector" "0 < unix_milli (kc_start feed_collector)" "unix_milli (kc_start feed_collector) < max_int64"
    by code_simp+
  have "map_option (\<lambda>p. pg_rows (fd_db (snd p))) (futures_reverse 2 ?only feed_collector feed_start)
    = Some [(''futures_klines_btcusdt_1m'', 1767225660000000000, ''BTCUSDT'')]" by code_simp
  moreover have "fst (hd feed_grid) = unix_milli (kc_start feed_collector)" by code_simp
  ultimately show ?thesis unfolding futures_reverse_skips_start [OF feed_exchange pre] ..
qed

text \<open>
  C12. Catching up closes the gap: when the spot collector resumes at a cursor and the catch-up ends
  without an error, every bar that opens at the cursor or later and had closed when the catch-up
  began is stored; and in every case the new cursor has not passed a bar that is not stored.
\<close>

theorem spot_catch_up_closes_gap:
  assumes "kline_exchange env has_bar spot_rest_url (kc_symbol c) (kc_interval c) grid clock"
    and "spot_catch_up n env c (cur, w) = Some (r, (cur', w'))" and "0 < cur"
  shows "cur \<le> cur'
    \<and> (\<forall>p \<in> set grid. cur \<le> fst p \<longrightarrow> fst p < cur' \<longrightarrow> bar_open_at has_bar c ''spot'' w' (fst p))
    \<and> (r = None \<longrightarrow> (\<forall>p \<in> set grid. cur \<le> fst p \<longrightarrow> snd p \<le> clock w \<longrightarrow> bar_open_at has_bar c ''spot'' w' (fst p)))"
proof -
  have run: "catch_up_loop n env c cur (cur, w) = Some (r, (cur', w'))" using assms(2,3) by (simp add: spot_catch_up_def)
  have start: "kline_exchange.stored_upto has_bar grid c ''spot'' cur cur w"
    by (simp add: kline_exchange.stored_upto_def [OF assms(1)])
  from kline_exchange.catch_up_loop_stores [OF assms(1) refl refl refl run order_refl start]
  show ?thesis unfolding kline_exchange.stored_upto_def [OF assms(1)] bar_open_at_has_open [OF assms(1)] by blast
qed

definition feed_live :: collector where
  "feed_live = new_scraper ''btcusdt'' ''binance'' ''1m''"

lemma feed_live_exchange:
  "kline_exchange feed_env (bar_stored feed_has_row) url (kc_symbol feed_live) (kc_interval feed_live) feed_grid feed_clock"
proof -
  have "kc_symbol feed_live = ''btcusdt''" "kc_interval feed_live = ''1m''" by (simp_all add: feed_live_def new_scraper_def)
  then show ?thesis using feed.kline_exchange_axioms by simp
qed

theorem spot_catch_up_closes_gap_witness:
  "\<exists>st. spot_catch_up 2 feed_env feed_live (1767225660000, feed_start) = Some (None, st)
     \<and> bar_open_at (bar_stored feed_has_row) feed_live ''spot'' (snd st) 1767225660000"
proof -
  obtain cur' w' where run: "spot_catch_up 2 feed_env feed_live (1767225660000, feed_start) = Some (None, (cur', w'))"
    by (rule that) code_simp
  have "(1767225660000, 1767225719999) \<in> set feed_grid" "(1767225660000 :: int) \<le> fst (1767225660000 :: int, 1767225719999 :: int)"
    "snd (1767225660000 :: int, 1767225719999 :: int) \<le> feed_clock feed_start" by code_simp+
  with spot_catch_up_closes_gap [OF feed_live_exchange run] run show ?thesis by auto
qed

text \<open>
  A bar whose insert fails is not collected again: the cursor moves past it although it is
  not in the store, and the catch-up that follows never asks the store for a bar that opens before
  the cursor.
\<close>

theorem failed_bar_not_retried:
  assumes "kline_exchange env has_bar spot_rest_url (kc_symbol c) (kc_interval c) grid clock"
    and "bar_times k \<in> set grid" and "ce_insert env [k] w = (Some e, w1)"
  shows "spot_handle_forward env c k True (cur, w) = (Some e, (snd (bar_times k) + 1, w1))
    \<and> spot_catch_up n (only_inserts (\<lambda>ks. \<forall>x \<in> set ks. snd (bar_times k) < fst (bar_times x)) other env) c (snd (bar_times k) + 1, w2)
      = spot_catch_up n env c (snd (bar_times k) + 1, w2)"
proof
  have b: "0 < fst (bar_times k)" "fst (bar_times k) < snd (bar_times k)" "snd (bar_times k) + 1 < max_int64"
    using kline_exchange.grid [OF assms(1)] assms(2) by (auto simp: ascending_def)
  have "resume_after [k] = snd (bar_times k) + 1"
    unfolding resume_after_def using b by (simp add: bar_times_def wrap64_id min_int64_def)
  with assms(3) show "spot_handle_forward env c k True (cur, w) = (Some e, (snd (bar_times k) + 1, w1))"
    by (simp add: spot_handle_forward_def spot_store_forward_def spot_store_klines_def)
  have "(\<lambda>ks. \<forall>x \<in> set ks. snd (bar_times k) < fst (bar_times x)) = (\<lambda>ks. \<forall>x \<in> set ks. snd (bar_times k) + 1 \<le> fst (bar_times x))"
    by (auto simp: fun_eq_iff)
  then show "spot_catch_up n (only_inserts (\<lambda>ks. \<forall>x \<in> set ks. snd (bar_times k) < fst (bar_times x)) other env) c (snd (bar_times k) + 1, w2)
      = spot_catch_up n env c (snd (bar_times k) + 1, w2)"
    using kline_exchange.catch_up_loop_inserts [OF assms(1) refl refl refl order_refl]
    by (simp add: spot_catch_up_def)
qed

text \<open>The feed with a database that refuses one bar.\<close>

definition refusing_env :: "feed collector_env" where
  "refusing_env = refusing (\<lambda>ks. \<exists>k \<in> set ks. fst (bar_times k) = 1767225600000) (Err ''pq: connection refused'') feed_env"

definition feed_bar :: kline where
  "feed_bar = row_kline (\<lambda>s. (0, None)) feed_live ''spot'' (feed_row (1767225600000, 1767225659999))"

theorem failed_bar_not_retried_witness:
  "map_option (\<lambda>(r, (cur, w)). (r, pg_rows (fd_db w)))
     (spot_catch_up 2 refusing_env feed_live (snd (spot_handle_forward refusing_env feed_live feed_bar True (0, feed_start))))
   = Some (None, [(''spot_klines_btcusdt_1m'', 1767225660000000000, ''BTCUSDT'')])"
proof -
  let ?only = "only_inserts (\<lambda>ks. \<forall>x \<in> set ks. snd (bar_times feed_bar) < fst (bar_times x)) (\<lambda>ks w. (Some (Err []), w)) refusing_env"
  have ex: "kline_exchange refusing_env (bar_stored feed_has_row) spot_rest_url (kc_symbol feed_live) (kc_interval feed_live) feed_grid feed_clock"
    unfolding refusing_env_def by (rule kline_exchange_refusing [OF feed_live_exchange])
  have bar: "bar_times feed_bar \<in> set feed_grid" by code_simp
  have refused: "ce_insert refusing_env [feed_bar] feed_start = (Some (Err ''pq: connection refused''), feed_start)" by code_simp
  have "map_option (\<lambda>(r, (cur, w)). (r, pg_rows (fd_db w)))
     (spot_catch_up 2 ?only feed_live (snd (bar_times feed_bar) + 1, feed_start))
   = Some (None, [(''spot_klines_btcusdt_1m'', 1767225660000000000, ''BTCUSDT'')])" by code_simp
  with failed_bar_not_retried [OF ex bar refused, where cur = 0] show ?thesis by simp
qed

text \<open>
  C33. The live publisher of spot bars only ever sees stored bars: in the whole forward run, with
  its catch-ups and reconnects, no bar is published before the store has accepted it (a publisher
  that answered anything else for other batches would not change the run).
\<close>

theorem spot_publishes_stored_bars:
  assumes "kline_exchange env has_bar url symbol interval grid clock"
  shows "spot_forward n (only_publishes (\<lambda>ks w. \<forall>k \<in> set ks. has_bar w k) other env) ws c st = spot_forward n env ws c st"
  by (rule kline_exchange.spot_forward_publishes_stored [OF assms])

text \<open>A socket that delivers one closed bar and is then gone.\<close>

definition one_bar_socket :: "feed socket_env" where
  "one_bar_socket = \<lparr>ws_connect = (\<lambda>u w. (None, w)),
     ws_recv = (\<lambda>w. if fd_sent w = [] then (Inr ''bar'', w) else (Inl Net_Closed, w)), ws_close = (\<lambda>w. w),
     ws_unmarshal = (\<lambda>m. Inr [(''k'', J_Obj [(''t'', J_Str ''1767225600000''), (''T'', J_Str ''1767225659999''), (''x'', J_Bool True)])]),
     ws_stopped = (\<lambda>w. (False, w))\<rparr>"

theorem spot_publishes_stored_bars_witness:
  "map_option (\<lambda>(cur, w). (cur, map length (fd_sent w), pg_rows (fd_db w))) (spot_forward 3 feed_env one_bar_socket feed_live (0, feed_start))
    = Some (1767225660000, [1], [(''spot_klines_btcusdt_1m'', 1767225600000000000, ''BTCUSDT'')])"
proof -
  let ?only = "only_publishes (\<lambda>ks w. \<forall>k \<in> set ks. bar_stored feed_has_row w k) (\<lambda>ks w. (Some (Err []), w)) feed_env"
  have "map_option (\<lambda>(cur, w). (cur, map length (fd_sent w), pg_rows (fd_db w))) (spot_forward 3 ?only one_bar_socket feed_live (0, feed_start))
    = Some (1767225660000, [1], [(''spot_klines_btcusdt_1m'', 1767225600000000000, ''BTCUSDT'')])" by code_simp
  then show ?thesis unfolding spot_publishes_stored_bars [OF feed.kline_exchange_axioms] .
qed

text \<open>
  C13. Polling futures bars leaves no gap: from a cursor on, every bar that opens up to the new
  cursor is stored, whatever ticks failed in between.
\<close>

theorem futures_forward_no_gap:
  assumes "kline_exchange env has_bar futures_rest_url (kc_symbol c) (kc_interval c) grid clock"
    and "futures_forward n env c (cur, w) = Some (cur', w')" and "0 < cur" and "cur < max_int64"
    and "p \<in> set grid" and "cur < fst p" and "fst p \<le> cur'"
  shows "bar_open_at has_bar c ''futures'' w' (fst p)"
proof -
  have "kline_exchange.stored_upto has_bar grid c ''futures'' (cur + 1) (cur + 1) w"
    by (simp add: kline_exchange.stored_upto_def [OF assms(1)])
  from kline_exchange.futures_forward_stores [OF assms(1) refl refl refl assms(2-4) this] assms(5-7)
  show ?thesis unfolding kline_exchange.stored_upto_def [OF assms(1)] bar_open_at_has_open [OF assms(1)] by simp
qed

theorem futures_forward_no_gap_witness:
  "\<exists>w'. futures_forward 2 feed_env feed_live (1767225659999, feed_start\<lparr>fd_clock := 1767225720000\<rparr>) = Some (1767225719999, w')
     \<and> bar_open_at (bar_stored feed_has_row) feed_live ''futures'' w' 1767225660000"
proof -
  let ?w0 = "feed_start\<lparr>fd_clock := 1767225720000\<rparr>" and ?w1 = "feed_start\<lparr>fd_clock := 1767225725000\<rparr>"
  obtain w2 where tick: "futures_tick feed_env feed_live (1767225659999, ?w1) = (1767225719999, w2)" "fd_clock w2 = 1767225725000"
    by (rule that) code_simp+
  have wait: "ce_wait feed_env d ?w0 = (False, ?w1)" "ce_wait feed_env d w2 = (True, w2\<lparr>fd_clock := 1767225730000\<rparr>)" for d
    using tick(2) by (simp_all add: feed_env_def)
  have run: "futures_forward 2 feed_env feed_live (1767225659999, ?w0) = Some (1767225719999, w2\<lparr>fd_clock := 1767225730000\<rparr>)"
    by (simp add: numeral_2_eq_2 wait tick(1))
  have "(1767225660000, 1767225719999) \<in> set feed_grid" by (simp add: feed_grid_def)
  from futures_forward_no_gap [OF feed_live_exchange run _ _ this] run show ?thesis by (simp add: max_int64_def)
qed

text \<open>
  C34. Live publication of futures bars is bounded: a tick publishes at most one bar, only when the
  cursor was set before, only a bar that is stored already, and only one that had closed at most a
  minute before the tick began.
\<close>

theorem futures_publishes_fresh_bars:
  assumes "kline_exchange env has_bar futures_rest_url (kc_symbol c) (kc_interval c) grid clock" and "cur < max_int64"
  shows "futures_tick (only_publishes (\<lambda>ks v. 0 < cur \<and> (\<exists>k. ks = [k] \<and> has_bar v k \<and> clock w - unix_milli (k_close_time k) \<le> max_publish_age_ms)) other env) c (cur, w)
    = futures_tick env c (cur, w)"
proof -
  obtain f w1 where fe: "futures_fetch env c cur w = (f, w1)" by (meson surj_pair)
  obtain now w2 where nw: "ce_now env w1 = (now, w2)" by (meson surj_pair)
  show ?thesis
  proof (cases f)
    case (Inl e)
    then show ?thesis by (simp add: futures_tick_def fe)
  next
    case (Inr ks)
    let ?cl = "filter_closed_klines ks (unix_milli now)"
    let ?pub = "select_forward_publish ?cl (0 < cur) (unix_milli now)"
    have fresh: "0 < cur \<and> (\<exists>k. ?pub = [k] \<and> has_bar v k \<and> clock w - unix_milli (k_close_time k) \<le> max_publish_age_ms)"
      if "?pub \<noteq> []" and ins: "ce_insert env ?cl w2 = (None, v)" for v
    proof -
      from that(1) obtain k where k: "0 < cur" "?cl = [k]" "?pub = [k]"
        "\<not> wrap64 (unix_milli now - unix_milli (k_close_time k)) > max_publish_age_ms"
        by (auto simp: select_forward_publish_def split: if_splits list.splits)
      have mem: "k \<in> set ks" "unix_milli (k_close_time k) \<le> unix_milli now"
        using k(2) by (metis closed_bar list.set_intros(1) bar_times_def snd_conv)+
      from kline_exchange.futures_page [OF assms(1) fe [unfolded Inr] refl refl refl k(1) assms(2)] mem(1) obtain b where
        "map bar_times ks = grid_page grid 100 (cur + 1) b" by auto
      then have "bar_times k \<in> set grid" using mem(1) by (metis grid_page_subset image_eqI set_map)
      then have pos: "0 < unix_milli (k_close_time k)"
        using kline_exchange.grid [OF assms(1)] by (force simp: ascending_def bar_times_def)
      have "unix_milli now \<le> max_int64" using wrap64_range by (simp add: unix_milli_def)
      then have "wrap64 (unix_milli now - unix_milli (k_close_time k)) = unix_milli now - unix_milli (k_close_time k)"
        using pos mem(2) by (intro wrap64_id) (auto simp: min_int64_def)
      moreover have "clock w \<le> unix_milli now"
        using kline_exchange.futures_fetch_later [OF assms(1) fe] kline_exchange.now_later [OF assms(1) nw] by (simp add: later_def)
      ultimately have "clock w - unix_milli (k_close_time k) \<le> max_publish_age_ms" using k(4) by linarith
      moreover have "has_bar v k"
        using kline_sink.insert_stores [OF kline_exchange.axioms(1) [OF assms(1)] ins] k(2) by simp
      ultimately show ?thesis using k by blast
    qed
    then have "futures_store_with_publish (only_publishes (\<lambda>ks v. 0 < cur \<and> (\<exists>k. ks = [k] \<and> has_bar v k \<and> clock w - unix_milli (k_close_time k) \<le> max_publish_age_ms)) other env) c ?cl ?pub w2
        = futures_store_with_publish env c ?cl ?pub w2"
      by (cases "?pub = []"; cases "ce_publish env")
        (auto simp: futures_store_with_publish_def ce_publish_guard split: prod.split option.split)
    then show ?thesis by (simp add: futures_tick_def fe Inr nw Let_def)
  qed
qed

theorem futures_publishes_fresh_bars_witness:
  "map (map (\<lambda>k. unix_milli (k_open_time k))) (fd_sent (snd (futures_tick feed_env feed_live (1767225659999, feed_start)))) = [[1767225660000]]"
proof -
  let ?ok = "\<lambda>ks v. 0 < (1767225659999 :: int) \<and> (\<exists>k. ks = [k] \<and> bar_stored feed_has_row v k \<and> feed_clock feed_start - unix_milli (k_close_time k) \<le> max_publish_age_ms)"
  have "fd_sent (snd (futures_tick (only_publishes ?ok (\<lambda>ks w. (None, w)) feed_env) feed_live (1767225659999, feed_start)))
      = fd_sent (snd (futures_tick feed_env feed_live (1767225659999, feed_start)))"
    using futures_publishes_fresh_bars [OF feed_live_exchange, of 1767225659999 feed_start] by (simp add: max_int64_def)
  moreover have "map (map (\<lambda>k. unix_milli (k_open_time k))) (fd_sent (snd (futures_tick feed_env feed_live (1767225659999, feed_start)))) = [[1767225660000]]"
    by code_simp
  ultimately show ?thesis by simp
qed

end
