(* ===== verification/Funding_Rates.thy ===== *)
theory Funding_Rates
  imports Kline_Feed
begin

text \<open>
  The collector of funding rates (\<open>internal/scraper/fundingrate/funding.go\<close>): it polls the latest rate
  of each symbol every minute, or collects the rates of a range in pages of 1000. HTTP, the decoding
  of an answer, the clock and the store are the fields of \<open>funding_env\<close>; log lines are left out.
\<close>

record funding_payload =
  fp_symbol :: string
  fp_rate :: string
  fp_mark_price :: string
  fp_time :: int

record 'w funding_env =
  fe_http :: "string \<Rightarrow> 'w \<Rightarrow> rest_answer \<times> 'w"
  fe_decode :: "string \<times> go_error option \<Rightarrow> funding_payload list res"
  fe_float :: float_parser
  fe_sleep :: "duration \<Rightarrow> 'w \<Rightarrow> 'w"
  fe_ended :: "'w \<Rightarrow> bool \<times> 'w"
  fe_wait :: "duration \<Rightarrow> 'w \<Rightarrow> bool \<times> 'w"
  fe_now :: "'w \<Rightarrow> time \<times> 'w"
  fe_insert :: "funding_rate \<Rightarrow> 'w \<Rightarrow> go_error option \<times> 'w"

record funding_scraper =
  fs_symbols :: "string list"
  fs_exchange :: string
  fs_reverse :: bool
  fs_start :: time
  fs_end :: time

definition new_funding_scraper :: "string list \<Rightarrow> string \<Rightarrow> funding_scraper" where
  "new_funding_scraper symbols exchange = \<lparr>fs_symbols = symbols, fs_exchange = exchange, fs_reverse = False,
     fs_start = zero_time, fs_end = zero_time\<rparr>"

definition funding_set_reverse :: "time \<Rightarrow> time \<Rightarrow> funding_scraper \<Rightarrow> funding_scraper" where
  "funding_set_reverse a b s = s\<lparr>fs_reverse := True, fs_start := a, fs_end := b\<rparr>"

definition funding_url :: string where "funding_url = ''https://fapi.binance.com/fapi/v1/fundingRate''"
definition funding_retries :: nat where "funding_retries = 3"
definition poll_interval :: duration where "poll_interval = 60 * second"
definition inter_symbol_delay :: duration where "inter_symbol_delay = 300 * millisecond"

definition to_funding_rate :: "float_parser \<Rightarrow> string \<Rightarrow> funding_payload \<Rightarrow> funding_rate res" where
  "to_funding_rate pf exchange raw =
     (case pf (fp_rate raw) of
        (_, Some e) \<Rightarrow> Inl (Wrapped (''parse fundingRate '' @ go_quote (fp_rate raw)) e)
      | (rate, None) \<Rightarrow>
        (case pf (fp_mark_price raw) of
           (_, Some e) \<Rightarrow> Inl (Wrapped (''parse markPrice '' @ go_quote (fp_mark_price raw)) e)
         | (mark, None) \<Rightarrow>
           (let t = of_unix_milli (fp_time raw)
            in Inr \<lparr>fr_time = t, fr_symbol = to_upper (fp_symbol raw), fr_market = ''futures'', fr_exchange = exchange,
                 fr_rate = rate, fr_mark_price = mark, fr_next_time = time_add t (8 * hour)\<rparr>)))"

subsection \<open>Polling\<close>

text \<open>The three attempts; \<open>left\<close> is the number left, \<open>last_err\<close> the last error other than a 429.\<close>

fun funding_attempts ::
  "'w funding_env \<Rightarrow> string \<Rightarrow> string \<Rightarrow> nat \<Rightarrow> go_error option \<Rightarrow> 'w \<Rightarrow> funding_rate res \<times> 'w" where
  "funding_attempts env exchange url 0 last_err w =
     (Inl (case last_err of
        None \<Rightarrow> Err ''failed after 3 retries: %!w(<nil>)''
      | Some e \<Rightarrow> Wrapped ''failed after 3 retries'' e), w)"
| "funding_attempts env exchange url (Suc left) last_err w =
     (let backoff = dur_mul (int (funding_retries - left)) second
      in case fe_http env url w of
        (No_Answer e, w1) \<Rightarrow> funding_attempts env exchange url left (Some e) (fe_sleep env backoff w1)
      | (Answer code status body, w1) \<Rightarrow>
        if code = 429 then funding_attempts env exchange url left last_err (fe_sleep env backoff w1)
        else if code \<noteq> 200 then (Inl (Err (''HTTP '' @ itoa (int code))), w1)
        else (case fe_decode env body of
            Inl e \<Rightarrow> funding_attempts env exchange url left (Some e) w1
          | Inr raw \<Rightarrow>
            if raw = [] then (Inl (Err ''empty response''), w1)
            else (case to_funding_rate (fe_float env) exchange (last raw) of
                Inl e \<Rightarrow> funding_attempts env exchange url left (Some e) w1
              | Inr item \<Rightarrow> (Inr item, w1))))"

definition fetch_funding_rate :: "'w funding_env \<Rightarrow> funding_scraper \<Rightarrow> string \<Rightarrow> 'w \<Rightarrow> funding_rate res \<times> 'w" where
  "fetch_funding_rate env s symbol w =
     funding_attempts env (fs_exchange s) (funding_url @ ''?symbol='' @ symbol) funding_retries None w"

definition poll_symbol :: "'w funding_env \<Rightarrow> funding_scraper \<Rightarrow> string \<Rightarrow> 'w \<Rightarrow> 'w" where
  "poll_symbol env s symbol w =
     (case fetch_funding_rate env s symbol w of
        (Inl _, w1) \<Rightarrow> w1
      | (Inr fr, w1) \<Rightarrow> snd (fe_insert env fr w1))"

text \<open>The pause comes before every symbol but the first; a stop during a pause ends the poll.\<close>

fun poll_rest :: "'w funding_env \<Rightarrow> funding_scraper \<Rightarrow> string list \<Rightarrow> 'w \<Rightarrow> 'w" where
  "poll_rest env s [] w = w"
| "poll_rest env s (x # xs) w =
     (case fe_wait env inter_symbol_delay w of
        (True, w1) \<Rightarrow> w1
      | (False, w1) \<Rightarrow> poll_rest env s xs (poll_symbol env s x w1))"

definition funding_poll :: "'w funding_env \<Rightarrow> funding_scraper \<Rightarrow> 'w \<Rightarrow> 'w" where
  "funding_poll env s w =
     (case fs_symbols s of [] \<Rightarrow> w | x # xs \<Rightarrow> poll_rest env s xs (poll_symbol env s x w))"

fun funding_ticks :: "nat \<Rightarrow> 'w funding_env \<Rightarrow> funding_scraper \<Rightarrow> 'w \<Rightarrow> 'w option" where
  "funding_ticks 0 env s w = None"
| "funding_ticks (Suc n) env s w =
     (case fe_wait env poll_interval w of
        (True, w1) \<Rightarrow> Some w1
      | (False, w1) \<Rightarrow> funding_ticks n env s (funding_poll env s w1))"

definition funding_forward :: "nat \<Rightarrow> 'w funding_env \<Rightarrow> funding_scraper \<Rightarrow> 'w \<Rightarrow> 'w option" where
  "funding_forward n env s w = funding_ticks n env s (funding_poll env s w)"

subsection \<open>Collecting a range\<close>

definition funding_batch_url :: "string \<Rightarrow> int \<Rightarrow> int \<Rightarrow> string" where
  "funding_batch_url symbol start_ms end_ms =
     funding_url @ ''?symbol='' @ symbol @ ''&startTime='' @ itoa start_ms @ ''&endTime='' @ itoa end_ms @ ''&limit=1000''"

text \<open>Rows that cannot be parsed are left out.\<close>

definition parsed_rates :: "float_parser \<Rightarrow> string \<Rightarrow> funding_payload list \<Rightarrow> funding_rate list" where
  "parsed_rates pf exchange raw =
     concat (map (\<lambda>p. case to_funding_rate pf exchange p of Inl _ \<Rightarrow> [] | Inr r \<Rightarrow> [r]) raw)"

definition fetch_funding_batch :: "'w funding_env \<Rightarrow> funding_scraper \<Rightarrow> string \<Rightarrow> int \<Rightarrow> int \<Rightarrow> 'w \<Rightarrow> funding_rate list res \<times> 'w" where
  "fetch_funding_batch env s symbol start_ms end_ms w =
     (case fe_http env (funding_batch_url symbol start_ms end_ms) w of
        (No_Answer e, w1) \<Rightarrow> (Inl e, w1)
      | (Answer code status body, w1) \<Rightarrow>
        if code \<noteq> 200 then (Inl (Err (''HTTP '' @ itoa (int code))), w1)
        else (case fe_decode env body of
            Inl e \<Rightarrow> (Inl e, w1)
          | Inr raw \<Rightarrow> (Inr (parsed_rates (fe_float env) (fs_exchange s) raw), w1)))"

text \<open>A failed insert is skipped.\<close>

fun insert_rates :: "'w funding_env \<Rightarrow> funding_rate list \<Rightarrow> 'w \<Rightarrow> 'w" where
  "insert_rates env [] w = w"
| "insert_rates env (r # rs) w = insert_rates env rs (snd (fe_insert env r w))"

fun backfill_rates ::
  "nat \<Rightarrow> 'w funding_env \<Rightarrow> funding_scraper \<Rightarrow> string \<Rightarrow> int \<Rightarrow> int \<Rightarrow> 'w \<Rightarrow> (go_error option \<times> 'w) option" where
  "backfill_rates 0 env s symbol end_ms cur w = None"
| "backfill_rates (Suc n) env s symbol end_ms cur w =
     (if \<not> cur < end_ms then Some (None, w)
      else (case fe_ended env w of
          (True, w1) \<Rightarrow> Some (None, w1)
        | (False, w1) \<Rightarrow>
          (case fetch_funding_batch env s symbol cur end_ms w1 of
             (Inl e, w2) \<Rightarrow> Some (Some e, w2)
           | (Inr batch, w2) \<Rightarrow>
             if batch = [] then Some (None, w2)
             else backfill_rates n env s symbol end_ms (wrap64 (unix_milli (fr_time (last batch)) + 1))
               (insert_rates env batch w2))))"

definition funding_start_ms :: "'w funding_env \<Rightarrow> funding_scraper \<Rightarrow> 'w \<Rightarrow> int \<times> 'w" where
  "funding_start_ms env s w =
     (if unix_milli (fs_start s) \<le> 0 then (case fe_now env w of (t, w1) \<Rightarrow> (unix_milli (add_months t (- 1)), w1))
      else (unix_milli (fs_start s), w))"

definition funding_end_ms :: "'w funding_env \<Rightarrow> funding_scraper \<Rightarrow> 'w \<Rightarrow> int \<times> 'w" where
  "funding_end_ms env s w =
     (if unix_milli (fs_end s) \<le> 0 then (case fe_now env w of (t, w1) \<Rightarrow> (unix_milli t, w1))
      else (unix_milli (fs_end s), w))"

definition backfill_symbol :: "nat \<Rightarrow> 'w funding_env \<Rightarrow> funding_scraper \<Rightarrow> string \<Rightarrow> 'w \<Rightarrow> (go_error option \<times> 'w) option" where
  "backfill_symbol n env s symbol w =
     (let (start_ms, w1) = funding_start_ms env s w; (end_ms, w2) = funding_end_ms env s w1
      in if end_ms \<le> start_ms
         then Some (Some (Err (''invalid reverse range start='' @ itoa start_ms @ '' end='' @ itoa end_ms)), w2)
         else backfill_rates n env s symbol end_ms start_ms w2)"

fun reverse_symbols :: "nat \<Rightarrow> 'w funding_env \<Rightarrow> funding_scraper \<Rightarrow> string list \<Rightarrow> 'w \<Rightarrow> 'w option" where
  "reverse_symbols n env s [] w = Some w"
| "reverse_symbols n env s (x # xs) w =
     (case backfill_symbol n env s x w of None \<Rightarrow> None | Some (_, w1) \<Rightarrow> reverse_symbols n env s xs w1)"

definition funding_run :: "nat \<Rightarrow> 'w funding_env \<Rightarrow> funding_scraper \<Rightarrow> 'w \<Rightarrow> 'w option" where
  "funding_run n env s w =
     (if fs_reverse s then reverse_symbols n env s (fs_symbols s) w else funding_forward n env s w)"

subsection \<open>The interface of the exchange\<close>

text \<open>
  A page of a list that ascends in a key: the entries from \<open>a\<close> to \<open>b\<close>, at most \<open>n\<close>. Up to its last
  entry it leaves nothing out.
\<close>

definition key_page :: "('a \<Rightarrow> int) \<Rightarrow> 'a list \<Rightarrow> nat \<Rightarrow> int \<Rightarrow> int \<Rightarrow> 'a list" where
  "key_page key xs n a b = take n (filter (\<lambda>x. a \<le> key x \<and> key x \<le> b) xs)"

lemma key_page_subset: "x \<in> set (key_page key xs n a b) \<Longrightarrow> x \<in> set xs \<and> a \<le> key x \<and> key x \<le> b"
  by (auto simp: key_page_def dest: in_set_takeD)

lemma key_page_upto:
  assumes "sorted_wrt (\<lambda>x y. key x < key y) xs" "x \<in> set xs" "a \<le> key x" "key x \<le> key y"
    and "y \<in> set (key_page key xs n a b)"
  shows "x \<in> set (key_page key xs n a b)"
proof (rule ccontr)
  assume out: "x \<notin> set (key_page key xs n a b)"
  let ?f = "filter (\<lambda>x. a \<le> key x \<and> key x \<le> b) xs"
  have "sorted_wrt (\<lambda>x y. key x < key y) (take n ?f @ drop n ?f)"
    using assms(1) by (simp add: sorted_wrt_filter)
  moreover have "x \<in> set (drop n ?f)"
  proof -
    have "x \<in> set (take n ?f @ drop n ?f)"
      using assms(2-4) key_page_subset [OF assms(5)] by simp
    then have "x \<in> set (take n ?f) \<or> x \<in> set (drop n ?f)" by (simp only: set_append Un_iff)
    then show ?thesis using out by (simp add: key_page_def)
  qed
  moreover have "y \<in> set (take n ?f)" using assms(5) by (simp add: key_page_def)
  ultimately have "key y < key x" by (simp only: sorted_wrt_append)
  with assms(4) show False by simp
qed

lemma key_page_Nil: "x \<in> set xs \<Longrightarrow> a \<le> key x \<Longrightarrow> key x \<le> b \<Longrightarrow> 0 < n \<Longrightarrow> key_page key xs n a b \<noteq> []"
  by (auto simp: key_page_def filter_empty_conv)

lemma filter_longer:
  "x \<in> set xs \<Longrightarrow> P x \<Longrightarrow> \<not> Q x \<Longrightarrow> (\<And>y. Q y \<Longrightarrow> P y) \<Longrightarrow> length (filter Q xs) < length (filter P xs)"
proof (induction xs)
  case (Cons y ys)
  have "length (filter Q ys) \<le> length (filter P ys)" using Cons.prems(4) by (induction ys) auto
  with Cons show ?case by (cases "x = y") auto
qed simp

lemma rate_time: "to_funding_rate pf e p = Inr r \<Longrightarrow> fr_time r = of_unix_milli (fp_time p)"
  by (auto simp: to_funding_rate_def Let_def split: prod.splits option.splits)

text \<open>
  What the exchange documents of a page query, for one symbol: the rates from \<open>startTime\<close> to \<open>endTime\<close>,
  ascending in time, at most 1000. A rate has a rate and a price that parse. The store keeps what it
  has and has what it accepted.
\<close>

locale rate_source =
  fixes env :: "'w funding_env" and has_rate :: "'w \<Rightarrow> funding_rate \<Rightarrow> bool"
    and exchange :: string and symbol :: string and rates :: "funding_payload list"
  assumes ascending: "sorted_wrt (\<lambda>p q. fp_time p < fp_time q) rates"
    and times: "p \<in> set rates \<Longrightarrow> 0 < fp_time p \<and> fp_time p < max_int64"
    and parses: "p \<in> set rates \<Longrightarrow> \<exists>r. to_funding_rate (fe_float env) exchange p = Inr r"
    and page: "fe_http env (funding_batch_url symbol a b) w = (Answer 200 status body, w') \<Longrightarrow>
      fe_decode env body = Inr raw \<Longrightarrow> raw = key_page fp_time rates 1000 a b"
    and http_keeps: "fe_http env u w = (x, w') \<Longrightarrow> has_rate w r \<Longrightarrow> has_rate w' r"
    and ended_keeps: "fe_ended env w = (e, w') \<Longrightarrow> has_rate w r \<Longrightarrow> has_rate w' r"
    and insert_keeps: "fe_insert env q w = (e1, w') \<Longrightarrow> has_rate w r \<Longrightarrow> has_rate w' r"
    and insert_stores: "fe_insert env r w = (None, w') \<Longrightarrow> has_rate w' r"
begin

definition rate_of :: "funding_payload \<Rightarrow> funding_rate" where
  "rate_of p = (case to_funding_rate (fe_float env) exchange p of Inr r \<Rightarrow> r | Inl _ \<Rightarrow> undefined)"

lemma rate_of: "p \<in> set rates \<Longrightarrow> to_funding_rate (fe_float env) exchange p = Inr (rate_of p)"
  using parses [of p] by (auto simp: rate_of_def)

lemma rate_of_time: "p \<in> set rates \<Longrightarrow> unix_milli (fr_time (rate_of p)) = fp_time p"
  using rate_time [OF rate_of [of p]] times [of p] unix_milli_of_unix_milli [of "fp_time p"]
  by (simp add: min_int64_def)

lemma parsed_page: "set ps \<subseteq> set rates \<Longrightarrow> parsed_rates (fe_float env) exchange ps = map rate_of ps"
  by (induction ps) (auto simp: parsed_rates_def rate_of)

lemma insert_rates_keeps: "has_rate w r \<Longrightarrow> has_rate (insert_rates env rs w) r"
  by (induction rs arbitrary: w) (auto simp: insert_keeps [OF surjective_pairing])

end

text \<open>An exchange that answers and a store that accepts.\<close>

locale rate_source_up = rate_source +
  assumes runs: "fst (fe_ended env w) = False"
    and answers: "\<exists>status body w' raw. fe_http env (funding_batch_url symbol a b) w = (Answer 200 status body, w')
      \<and> fe_decode env body = Inr raw"
    and accepts: "fst (fe_insert env r w) = None"
begin

lemma insert_rates_stores: "r \<in> set rs \<Longrightarrow> has_rate (insert_rates env rs w) r"
proof (induction rs arbitrary: w)
  case (Cons q rs)
  have "has_rate (snd (fe_insert env q w)) q"
    using accepts [of q w] by (intro insert_stores [of q w]) (simp add: prod_eq_iff)
  with Cons show ?case using insert_rates_keeps by (cases "r = q") auto
qed simp

lemma backfill_rates_total:
  assumes "fs_exchange s = exchange" and "length (filter (\<lambda>p. cur \<le> fp_time p) rates) < n"
  shows "\<exists>w'. backfill_rates n env s symbol end_ms cur w = Some (None, w')
    \<and> (\<forall>r. has_rate w r \<longrightarrow> has_rate w' r)
    \<and> (\<forall>p \<in> set rates. cur \<le> fp_time p \<and> fp_time p < end_ms \<longrightarrow> has_rate w' (rate_of p))"
  using assms(2)
proof (induction n arbitrary: cur w)
  case (Suc n)
  obtain w1 where e: "fe_ended env w = (False, w1)" using runs [of w] by (cases "fe_ended env w") simp
  obtain st body w2 raw where h: "fe_http env (funding_batch_url symbol cur end_ms) w1 = (Answer 200 st body, w2)"
    "fe_decode env body = Inr raw" using answers by blast
  let ?page = "key_page fp_time rates 1000 cur end_ms"
  have sub: "set ?page \<subseteq> set rates" by (auto dest: key_page_subset)
  have batch: "fetch_funding_batch env s symbol cur end_ms w1 = (Inr (map rate_of ?page), w2)"
    using h page [OF h] assms(1) parsed_page [OF sub] by (simp add: fetch_funding_batch_def)
  have keep: "has_rate w2 r" if "has_rate w r" for r
    using that ended_keeps [OF e] http_keeps [OF h(1)] by blast
  show ?case
  proof (cases "cur < end_ms \<and> ?page \<noteq> []")
    case False
    then have "backfill_rates (Suc n) env s symbol end_ms cur w = Some (None, if cur < end_ms then w2 else w)"
      using e batch by auto
    moreover have "\<not> (cur \<le> fp_time p \<and> fp_time p < end_ms)" if "p \<in> set rates" for p
      using False key_page_Nil [OF that, of cur fp_time end_ms 1000] by auto
    ultimately show ?thesis using keep by auto
  next
    case True
    let ?q = "last ?page" and ?w = "insert_rates env (map rate_of ?page) w2"
    have q: "?q \<in> set ?page" using True by simp
    note qs = key_page_subset [OF q]
    have next_cur: "wrap64 (unix_milli (fr_time (last (map rate_of ?page))) + 1) = fp_time ?q + 1"
      using True qs rate_of_time [of ?q] times [of ?q] by (simp add: last_map wrap64_id min_int64_def max_int64_def)
    have "length (filter (\<lambda>p. fp_time ?q + 1 \<le> fp_time p) rates) < length (filter (\<lambda>p. cur \<le> fp_time p) rates)"
      by (rule filter_longer [of ?q]) (use qs in auto)
    with Suc.prems have "length (filter (\<lambda>p. fp_time ?q + 1 \<le> fp_time p) rates) < n" by simp
    from Suc.IH [OF this, of ?w] obtain w' where ih: "backfill_rates n env s symbol end_ms (fp_time ?q + 1) ?w = Some (None, w')"
      "\<forall>r. has_rate ?w r \<longrightarrow> has_rate w' r"
      "\<forall>p \<in> set rates. fp_time ?q + 1 \<le> fp_time p \<and> fp_time p < end_ms \<longrightarrow> has_rate w' (rate_of p)" by blast
    have "has_rate w' (rate_of p)" if "p \<in> set rates" "cur \<le> fp_time p" "fp_time p < end_ms" for p
    proof (cases "fp_time p \<le> fp_time ?q")
      case True
      from key_page_upto [OF ascending that(1,2) True q] show ?thesis
        using ih(2) insert_rates_stores [of "rate_of p" "map rate_of ?page" w2] by simp
    next
      case False
      with ih(3) that show ?thesis by simp
    qed
    moreover have "backfill_rates (Suc n) env s symbol end_ms cur w = Some (None, w')"
      using True e batch ih(1) next_cur by simp
    ultimately show ?thesis using keep insert_rates_keeps ih(2) by blast
  qed
qed simp

end

subsection \<open>A reference exchange\<close>

text \<open>Two rates, served from the query, and the model's \<open>InsertFundingRate\<close> on a reference database.\<close>

definition rate_stored :: "pg_db \<Rightarrow> funding_rate \<Rightarrow> bool" where
  "rate_stored w r = pg_has_row w (build_table_name ''futures'' ''funding_rates'' (normalize_symbol_for_write (fr_symbol r)) [])
     (fr_time r) (normalize_symbol_for_write (fr_symbol r))"

lemma insert_funding_rate_pg:
  "fst (insert_funding_rate pg_exec ex r w) = None" "rate_stored (snd (insert_funding_rate pg_exec ex r w)) r"
  by (auto simp: insert_funding_rate_def optimistic_insert_def pg_insert_def build_create_table_sql_def Let_def
      rate_stored_def pg_has_row_def split: prod.splits option.splits)

lemma insert_funding_rate_keeps: "rate_stored w q \<Longrightarrow> rate_stored (snd (insert_funding_rate pg_exec ex r w)) q"
  by (auto simp: insert_funding_rate_def optimistic_insert_def pg_insert_def build_create_table_sql_def Let_def
      rate_stored_def pg_has_row_def split: prod.splits option.splits)

definition ref_rates :: "funding_payload list" where
  "ref_rates = [\<lparr>fp_symbol = ''BTCUSDT'', fp_rate = ''0.0001'', fp_mark_price = ''90000'', fp_time = 1767225600000\<rparr>,
     \<lparr>fp_symbol = ''BTCUSDT'', fp_rate = ''0.0002'', fp_mark_price = ''91000'', fp_time = 1767254400000\<rparr>]"

definition query_numbers :: "string \<Rightarrow> int \<times> int" where
  "query_numbers u =
     (let r = drop (length funding_url + length ''?symbol=BTCUSDT&startTime='') u;
          t = drop (length ''&endTime='') (dropWhile (\<lambda>c. c \<noteq> CHR ''&'') r)
      in (feed_number (takeWhile (\<lambda>c. c \<noteq> CHR ''&'') r), feed_number (takeWhile (\<lambda>c. c \<noteq> CHR ''&'') t)))"

definition ref_decode :: "string \<times> go_error option \<Rightarrow> funding_payload list res" where
  "ref_decode body = Inr (key_page fp_time ref_rates 1000 (fst (query_numbers (fst body))) (snd (query_numbers (fst body))))"

definition rate_env :: "pg_db funding_env" where
  "rate_env = \<lparr>fe_http = (\<lambda>u w. (Answer 200 ''200 OK'' (u, None), w)), fe_decode = ref_decode, fe_float = (\<lambda>s. (0, None)),
     fe_sleep = (\<lambda>d w. w), fe_ended = (\<lambda>w. (False, w)), fe_wait = (\<lambda>d w. (True, w)), fe_now = (\<lambda>w. (0, w)),
     fe_insert = insert_funding_rate pg_exec ''binance''\<rparr>"

lemma itoa_amp_free: "CHR ''&'' \<notin> set (itoa i)"
  using itoa_nat_digits [of "CHR ''&''"] by (auto simp: itoa_def is_digit_def)

lemma take_itoa: "takeWhile (\<lambda>c. c \<noteq> CHR ''&'') (itoa a @ CHR ''&'' # t) = itoa a"
  "dropWhile (\<lambda>c. c \<noteq> CHR ''&'') (itoa a @ CHR ''&'' # t) = CHR ''&'' # t"
proof -
  have "\<And>c. c \<in> set (itoa a) \<Longrightarrow> c \<noteq> CHR ''&''" using itoa_amp_free by blast
  then show "takeWhile (\<lambda>c. c \<noteq> CHR ''&'') (itoa a @ CHR ''&'' # t) = itoa a"
    "dropWhile (\<lambda>c. c \<noteq> CHR ''&'') (itoa a @ CHR ''&'' # t) = CHR ''&'' # t"
    by (simp_all add: takeWhile_tail dropWhile_append)
qed

lemma query_numbers_url: "query_numbers (funding_batch_url ''BTCUSDT'' a b) = (a, b)"
proof -
  have "funding_batch_url ''BTCUSDT'' a b
      = (funding_url @ ''?symbol=BTCUSDT&startTime='') @ itoa a @ CHR ''&'' # ''endTime='' @ itoa b @ CHR ''&'' # ''limit=1000''"
    by (simp add: funding_batch_url_def)
  then show ?thesis
    by (simp only: query_numbers_def Let_def length_append [symmetric] append_eq_conv_conj)
      (simp add: take_itoa feed_number_itoa)
qed

interpretation rate_ref: rate_source_up rate_env rate_stored "''binance''" "''BTCUSDT''" ref_rates
proof unfold_locales
  fix q w e1 w' r
  assume "fe_insert rate_env q w = (e1, w')" "rate_stored w r"
  then show "rate_stored w' r"
    using insert_funding_rate_keeps [of w r "''binance''" q] by (simp add: rate_env_def)
next
  fix r w w'
  assume "fe_insert rate_env r w = (None, w')"
  then show "rate_stored w' r"
    using insert_funding_rate_pg(2) [of "''binance''" r w] by (simp add: rate_env_def)
next
  fix r w
  show "fst (fe_insert rate_env r w) = None" by (simp add: rate_env_def insert_funding_rate_pg)
qed (auto simp: rate_env_def ref_decode_def query_numbers_url ref_rates_def max_int64_def to_funding_rate_def Let_def)

subsection \<open>Properties\<close>

text \<open>
  C17. Collecting a range of funding rates ends and is complete, as long as nothing fails: with an exchange that
  answers every query, rates that parse, a store that accepts every insert and a collector that is not
  stopped, \<open>backfillSymbol\<close> returns no error within one round more than the exchange has rates, and every
  rate from the start up to, and not including, the end of the range is stored.
\<close>

theorem funding_backfill_complete:
  assumes "rate_source_up env has_rate exchange symbol rates" and "fs_exchange s = exchange"
    and "0 < unix_milli (fs_start s)" and "unix_milli (fs_start s) < unix_milli (fs_end s)"
  shows "\<exists>w'. backfill_symbol (length rates + 1) env s symbol w = Some (None, w')
    \<and> (\<forall>p \<in> set rates. unix_milli (fs_start s) \<le> fp_time p \<and> fp_time p < unix_milli (fs_end s)
        \<longrightarrow> (\<exists>r. to_funding_rate (fe_float env) exchange p = Inr r \<and> has_rate w' r))"
proof -
  let ?a = "unix_milli (fs_start s)" and ?b = "unix_milli (fs_end s)"
  note src = rate_source_up.axioms(1) [OF assms(1)]
  have "length (filter (\<lambda>p. ?a \<le> fp_time p) rates) < length rates + 1" by (simp add: le_imp_less_Suc)
  from rate_source_up.backfill_rates_total [OF assms(1,2) this, of ?b w] obtain w' where
    w': "backfill_rates (length rates + 1) env s symbol ?b ?a w = Some (None, w')"
    "\<forall>p \<in> set rates. ?a \<le> fp_time p \<and> fp_time p < ?b \<longrightarrow> has_rate w' (rate_source.rate_of env exchange p)" by blast
  have "backfill_symbol (length rates + 1) env s symbol w = Some (None, w')"
    using w'(1) assms(3,4) by (simp add: backfill_symbol_def funding_start_ms_def funding_end_ms_def)
  with w'(2) rate_source.rate_of [OF src] show ?thesis by blast
qed

definition sample_funding :: funding_scraper where
  "sample_funding = funding_set_reverse (of_unix_milli 1767225600000) (of_unix_milli 1767312000000)
     (new_funding_scraper [''BTCUSDT''] ''binance'')"

definition no_tables :: pg_db where "no_tables = \<lparr>pg_tables = [], pg_rows = []\<rparr>"

theorem funding_backfill_complete_witness:
  "\<exists>w'. backfill_symbol 3 rate_env sample_funding ''BTCUSDT'' no_tables = Some (None, w')"
proof -
  have "fs_exchange sample_funding = ''binance''" "0 < unix_milli (fs_start sample_funding)"
    "unix_milli (fs_start sample_funding) < unix_milli (fs_end sample_funding)" by code_simp+
  note all = funding_backfill_complete [OF rate_ref.rate_source_up_axioms this, of no_tables]
  have "length ref_rates + 1 = 3" by code_simp
  with all show ?thesis by metis
qed

text \<open>
  Two ways to lose rates without an error: a page whose rows cannot be parsed counts as an empty
  one and ends the collection, and a failed insert is skipped.
\<close>

lemma unparsable_page_ends_backfill:
  "parsed_rates (\<lambda>s. (0, Some (Err ''bad''))) ex ps = []"
  by (induction ps) (simp_all add: parsed_rates_def to_funding_rate_def)

lemma failed_rates_skipped:
  "backfill_symbol 3 (rate_env\<lparr>fe_insert := \<lambda>r w. (Some (Err ''down''), w)\<rparr>) sample_funding ''BTCUSDT'' no_tables
    = Some (None, no_tables)"
  by code_simp

end
