(* ===== verification/Open_Interest.thy ===== *)
theory Open_Interest
  imports Funding_Rates
begin

text \<open>
  The collector of open interest (\<open>internal/exchange/binance/scraper/openinterest.go\<close>): it polls each symbol
  over HTTP every five seconds and falls back to a web socket when no symbol answers, or collects the
  four-hour history of a range backwards, in pages of 50. Every item passes \<open>seen\<close>, a set of keys
  that only grows. A state is that set and the world; network, clock and store are the fields of
  \<open>oi_env\<close>; log lines are left out.
\<close>

subsection \<open>The environment\<close>

record oi_payload =
  op_symbol :: string
  op_value :: string
  op_time :: int

text \<open>How a pause ends: it is over, the context is, or the collector was stopped.\<close>

datatype pause = Goes_On | Context_Over go_error | Stopped

text \<open>A request has a deadline when its context has one.\<close>

record 'w oi_env =
  oe_http :: "time option \<Rightarrow> string \<Rightarrow> query \<Rightarrow> 'w \<Rightarrow> rest_answer \<times> 'w"
  oe_decode :: "string \<times> go_error option \<Rightarrow> oi_payload res"
  oe_decode_history :: "string \<times> go_error option \<Rightarrow> oi_payload list res"
  oe_float :: float_parser
  oe_now :: "'w \<Rightarrow> time \<times> 'w"
  oe_ended :: "'w \<Rightarrow> bool \<times> 'w"
  oe_pause :: "duration \<Rightarrow> 'w \<Rightarrow> pause \<times> 'w"
  oe_insert :: "open_interest \<Rightarrow> 'w \<Rightarrow> go_error option \<times> 'w"
  oe_insert_many :: "open_interest list \<Rightarrow> 'w \<Rightarrow> go_error option \<times> 'w"
  oe_connect :: "string \<Rightarrow> 'w \<Rightarrow> go_error option \<times> 'w"
  oe_recv :: "'w \<Rightarrow> string res \<times> 'w"
  oe_close :: "'w \<Rightarrow> 'w"
  oe_unmarshal :: "string \<Rightarrow> oi_payload res"

record oi_scraper =
  os_symbols :: "string list"
  os_exchange :: string
  os_reverse :: bool
  os_start :: time
  os_end :: time

definition new_oi_scraper :: "string list \<Rightarrow> string \<Rightarrow> oi_scraper" where
  "new_oi_scraper symbols exchange = \<lparr>os_symbols = symbols, os_exchange = exchange, os_reverse = False,
     os_start = zero_time, os_end = zero_time\<rparr>"

definition oi_set_reverse :: "time \<Rightarrow> time \<Rightarrow> oi_scraper \<Rightarrow> oi_scraper" where
  "oi_set_reverse a b s = s\<lparr>os_reverse := True, os_start := a, os_end := b\<rparr>"

definition oi_ws_base_url :: string where "oi_ws_base_url = ''wss://fstream.binance.com/stream?streams=''"
definition oi_rest_url :: string where "oi_rest_url = ''https://fapi.binance.com/fapi/v1/openInterest''"
definition oi_hist_url :: string where "oi_hist_url = ''https://fapi.binance.com/fapi/v1/futures/data/openInterestHist''"
definition oi_poll_interval :: duration where "oi_poll_interval = 5 * second"
definition oi_symbol_delay :: duration where "oi_symbol_delay = 300 * millisecond"

subsection \<open>Items seen\<close>

definition oi_key :: "open_interest \<Rightarrow> string" where
  "oi_key i = itoa (unix_milli (oi_time i)) @ CHR '':'' # oi_symbol i @ CHR '':'' # oi_period i"

definition seen_item :: "open_interest \<Rightarrow> string set \<Rightarrow> bool \<times> string set" where
  "seen_item i ks = (if oi_key i \<in> ks then (True, ks) else (False, insert (oi_key i) ks))"

type_synonym 'w oi_state = "string set \<times> 'w"

subsection \<open>Requests\<close>

definition oi_item :: "string \<Rightarrow> string \<Rightarrow> time \<Rightarrow> string \<Rightarrow> float64 \<Rightarrow> open_interest" where
  "oi_item exchange period t symbol v = \<lparr>oi_time = t, oi_symbol = to_upper symbol, oi_value = v, oi_period = period,
     oi_market = ''futures'', oi_exchange = exchange\<rparr>"

definition oi_fetch_http :: "'w oi_env \<Rightarrow> oi_scraper \<Rightarrow> time \<Rightarrow> string \<Rightarrow> 'w \<Rightarrow> open_interest res \<times> 'w" where
  "oi_fetch_http env s poll_deadline symbol w =
     (let (started, w1) = oe_now env w
      in case oe_http env (Some (min poll_deadline (time_add started (10 * second)))) oi_rest_url [(''symbol'', to_upper symbol)] w1 of
        (No_Answer e, w2) \<Rightarrow> (Inl e, w2)
      | (Answer code status body, w2) \<Rightarrow>
        if code \<noteq> 200 then (Inl (Err (''HTTP '' @ status @ '': '' @ fst body)), w2)
        else (case oe_decode env body of
            Inl e \<Rightarrow> (Inl e, w2)
          | Inr raw \<Rightarrow>
            (case oe_float env (op_value raw) of
               (_, Some e) \<Rightarrow> (Inl e, w2)
             | (v, None) \<Rightarrow>
               (let (now, w3) = oe_now env w2;
                    t = (if 0 < op_time raw then of_unix_milli (op_time raw) else now)
                in (Inr (oi_item (os_exchange s) ''realtime'' t (op_symbol raw) v), w3)))))"

definition history_items :: "float_parser \<Rightarrow> string \<Rightarrow> oi_payload list \<Rightarrow> open_interest list" where
  "history_items pf exchange raw =
     concat (map (\<lambda>r. case pf (op_value r) of
         (_, Some _) \<Rightarrow> []
       | (v, None) \<Rightarrow> [oi_item exchange ''4h'' (of_unix_milli (op_time r)) (op_symbol r) v]) raw)"

definition oi_fetch_history :: "'w oi_env \<Rightarrow> oi_scraper \<Rightarrow> string \<Rightarrow> time \<Rightarrow> 'w \<Rightarrow> open_interest list res \<times> 'w" where
  "oi_fetch_history env s symbol end_time w =
     (case oe_http env None oi_hist_url
         [(''symbol'', to_upper symbol), (''periodType'', ''4h''), (''limit'', ''50''), (''endTime'', itoa (unix_milli end_time))] w of
        (No_Answer e, w1) \<Rightarrow> (Inl e, w1)
      | (Answer code status body, w1) \<Rightarrow>
        if code \<noteq> 200 then (Inl (Err (''HTTP '' @ status @ '': '' @ fst body)), w1)
        else (case oe_decode_history env body of
            Inl e \<Rightarrow> (Inl e, w1)
          | Inr raw \<Rightarrow> (Inr (history_items (oe_float env) (os_exchange s) raw), w1)))"

definition oi_parse_ws :: "'w oi_env \<Rightarrow> oi_scraper \<Rightarrow> string \<Rightarrow> open_interest list res" where
  "oi_parse_ws env s msg =
     (case oe_unmarshal env msg of
        Inl e \<Rightarrow> Inl e
      | Inr raw \<Rightarrow>
        (case oe_float env (op_value raw) of
           (_, Some e) \<Rightarrow> Inl e
         | (v, None) \<Rightarrow> Inr [oi_item (os_exchange s) ''realtime'' (of_unix_milli (op_time raw)) (op_symbol raw) v]))"

subsection \<open>Polling and the web socket\<close>

text \<open>One item: dropped when it was seen, else offered to the store; answers whether it was stored.\<close>

definition offer_item :: "'w oi_env \<Rightarrow> open_interest \<Rightarrow> 'w oi_state \<Rightarrow> bool \<times> 'w oi_state" where
  "offer_item env i st =
     (case seen_item i (fst st) of
        (True, ks) \<Rightarrow> (True, (ks, snd st))
      | (False, ks) \<Rightarrow> (case oe_insert env i (snd st) of (e, w1) \<Rightarrow> (e = None, (ks, w1))))"

definition poll_one :: "'w oi_env \<Rightarrow> oi_scraper \<Rightarrow> time \<Rightarrow> string \<Rightarrow> 'w oi_state \<Rightarrow> bool \<times> 'w oi_state" where
  "poll_one env s deadline symbol st =
     (case oi_fetch_http env s deadline symbol (snd st) of
        (Inl _, w1) \<Rightarrow> (False, (fst st, w1))
      | (Inr i, w1) \<Rightarrow> offer_item env i (fst st, w1))"

text \<open>The symbols after the first, each after a pause; \<open>Inl\<close> when the poll was left early.\<close>

fun poll_more :: "'w oi_env \<Rightarrow> oi_scraper \<Rightarrow> time \<Rightarrow> string list \<Rightarrow> bool \<Rightarrow> 'w oi_state \<Rightarrow> (go_error option + bool) \<times> 'w oi_state" where
  "poll_more env s deadline [] ok st = (Inr ok, st)"
| "poll_more env s deadline (x # xs) ok st =
     (case oe_pause env oi_symbol_delay (snd st) of
        (Context_Over e, w1) \<Rightarrow> (Inl (Some e), (fst st, w1))
      | (Stopped, w1) \<Rightarrow> (Inl None, (fst st, w1))
      | (Goes_On, w1) \<Rightarrow>
        (case poll_one env s deadline x (fst st, w1) of (b, st1) \<Rightarrow> poll_more env s deadline xs (ok \<or> b) st1))"

definition poll_symbols :: "'w oi_env \<Rightarrow> oi_scraper \<Rightarrow> time \<Rightarrow> string list \<Rightarrow> 'w oi_state \<Rightarrow> (go_error option + bool) \<times> 'w oi_state" where
  "poll_symbols env s deadline symbols st =
     (case symbols of
        [] \<Rightarrow> (Inr True, st)
      | x # xs \<Rightarrow> (case poll_one env s deadline x st of (b, st1) \<Rightarrow> poll_more env s deadline xs b st1))"

definition poll_all_http :: "'w oi_env \<Rightarrow> oi_scraper \<Rightarrow> duration \<Rightarrow> 'w oi_state \<Rightarrow> go_error option \<times> 'w oi_state" where
  "poll_all_http env s timeout st =
     (let (now, w1) = oe_now env (snd st)
      in case poll_symbols env s (time_add now timeout) (os_symbols s) (fst st, w1) of
        (Inl r, st1) \<Rightarrow> (r, st1)
      | (Inr ok, st1) \<Rightarrow> ((if ok then None else Some (Err ''all symbol OI HTTP requests failed'')), st1))"

fun offer_all :: "'w oi_env \<Rightarrow> open_interest list \<Rightarrow> 'w oi_state \<Rightarrow> 'w oi_state" where
  "offer_all env [] st = st"
| "offer_all env (i # is) st = offer_all env is (snd (offer_item env i st))"

fun oi_read_loop :: "nat \<Rightarrow> 'w oi_env \<Rightarrow> oi_scraper \<Rightarrow> 'w oi_state \<Rightarrow> (go_error \<times> 'w oi_state) option" where
  "oi_read_loop 0 env s st = None"
| "oi_read_loop (Suc n) env s st =
     (case oe_recv env (snd st) of
        (Inl e, w1) \<Rightarrow> Some (e, (fst st, w1))
      | (Inr msg, w1) \<Rightarrow>
        (case oi_parse_ws env s msg of
           Inl _ \<Rightarrow> oi_read_loop n env s (fst st, w1)
         | Inr items \<Rightarrow> oi_read_loop n env s (offer_all env items (fst st, w1))))"

definition oi_ws_url :: "oi_scraper \<Rightarrow> string" where
  "oi_ws_url s = oi_ws_base_url @ join ''/'' (map (\<lambda>x. to_lower x @ ''_openinterest'') (os_symbols s))"

text \<open>The web socket is only left with an error.\<close>

definition run_ws :: "nat \<Rightarrow> 'w oi_env \<Rightarrow> oi_scraper \<Rightarrow> 'w oi_state \<Rightarrow> (go_error \<times> 'w oi_state) option" where
  "run_ws n env s st =
     (case oe_connect env (oi_ws_url s) (snd st) of
        (Some e, w1) \<Rightarrow> Some (Wrapped ''connect ws'' e, (fst st, w1))
      | (None, w1) \<Rightarrow> map_option (\<lambda>(e, (ks, w2)). (e, (ks, oe_close env w2))) (oi_read_loop n env s (fst st, w1)))"

fun oi_forward :: "nat \<Rightarrow> 'w oi_env \<Rightarrow> oi_scraper \<Rightarrow> 'w oi_state \<Rightarrow> 'w oi_state option" where
  "oi_forward 0 env s st = None"
| "oi_forward (Suc n) env s st =
     (case oe_ended env (snd st) of
        (True, w1) \<Rightarrow> Some (fst st, w1)
      | (False, w1) \<Rightarrow>
        (case poll_all_http env s (5 * second) (fst st, w1) of
           (None, st2) \<Rightarrow>
             (case oe_pause env oi_poll_interval (snd st2) of
                (Goes_On, w3) \<Rightarrow> oi_forward n env s (fst st2, w3)
              | (_, w3) \<Rightarrow> Some (fst st2, w3))
         | (Some _, st2) \<Rightarrow>
             (case run_ws n env s st2 of
                None \<Rightarrow> None
              | Some (_, st3) \<Rightarrow>
                (case oe_ended env (snd st3) of
                   (True, w4) \<Rightarrow> Some (fst st3, w4)
                 | (False, w4) \<Rightarrow>
                   (case oe_pause env oi_poll_interval w4 of
                      (Goes_On, w5) \<Rightarrow> oi_forward n env s (fst st3, w5)
                    | (_, w5) \<Rightarrow> Some (fst st3, w5))))))"

subsection \<open>Collecting a range\<close>

text \<open>The items of a page that are in the range and new.\<close>

fun fresh_items :: "time \<Rightarrow> time \<Rightarrow> open_interest list \<Rightarrow> string set \<Rightarrow> open_interest list \<times> string set" where
  "fresh_items a b [] ks = ([], ks)"
| "fresh_items a b (i # is) ks =
     (if oi_time i < a \<or> b < oi_time i then fresh_items a b is ks
      else (case seen_item i ks of
          (True, ks1) \<Rightarrow> fresh_items a b is ks1
        | (False, ks1) \<Rightarrow> (case fresh_items a b is ks1 of (js, ks2) \<Rightarrow> (i # js, ks2))))"

fun oi_backfill_loop ::
  "nat \<Rightarrow> 'w oi_env \<Rightarrow> oi_scraper \<Rightarrow> string \<Rightarrow> time \<Rightarrow> time \<Rightarrow> time \<Rightarrow> 'w oi_state \<Rightarrow> 'w oi_state option" where
  "oi_backfill_loop 0 env s symbol a b cursor st = None"
| "oi_backfill_loop (Suc n) env s symbol a b cursor st =
     (if \<not> a < cursor then Some st
      else (case oe_ended env (snd st) of
          (True, w1) \<Rightarrow> Some (fst st, w1)
        | (False, w1) \<Rightarrow>
          (case oi_fetch_history env s symbol cursor w1 of
             (Inl _, w2) \<Rightarrow>
               (case oe_pause env (2 * second) w2 of
                  (Goes_On, w3) \<Rightarrow> oi_backfill_loop n env s symbol a b cursor (fst st, w3)
                | (_, w3) \<Rightarrow> Some (fst st, w3))
           | (Inr items, w2) \<Rightarrow>
             if items = [] then Some (fst st, w2)
             else (case fresh_items a b items (fst st) of
                 (new, ks) \<Rightarrow>
                   oi_backfill_loop n env s symbol a b (time_add (oi_time (hd items)) (- millisecond))
                     (ks, snd (oe_insert_many env new w2))))))"

definition oi_backfill_symbol :: "nat \<Rightarrow> 'w oi_env \<Rightarrow> oi_scraper \<Rightarrow> string \<Rightarrow> 'w oi_state \<Rightarrow> 'w oi_state option" where
  "oi_backfill_symbol n env s symbol st =
     (let (a, w1) = (if is_zero (os_start s) then (case oe_now env (snd st) of (t, w) \<Rightarrow> (add_months t (- 1), w))
                     else (os_start s, snd st));
          (b, w2) = (if is_zero (os_end s) then oe_now env w1 else (os_end s, w1))
      in oi_backfill_loop n env s symbol a b b (fst st, w2))"

text \<open>\<open>backfillSymbol\<close> returns no error, so \<open>reverse\<close> only goes from symbol to symbol.\<close>

fun oi_reverse :: "nat \<Rightarrow> 'w oi_env \<Rightarrow> oi_scraper \<Rightarrow> string list \<Rightarrow> 'w oi_state \<Rightarrow> 'w oi_state option" where
  "oi_reverse n env s [] st = Some st"
| "oi_reverse n env s (x # xs) st =
     (case oi_backfill_symbol n env s x st of None \<Rightarrow> None | Some st1 \<Rightarrow> oi_reverse n env s xs st1)"

definition oi_run :: "nat \<Rightarrow> 'w oi_env \<Rightarrow> oi_scraper \<Rightarrow> 'w oi_state \<Rightarrow> 'w oi_state option" where
  "oi_run n env s st = (if os_reverse s then oi_reverse n env s (os_symbols s) st else oi_forward n env s st)"

subsection \<open>Each item once\<close>

text \<open>The observation \<open>offered\<close>: the keys that were handed to the store, in order. Only inserts add to it.\<close>

locale oi_world =
  fixes env :: "'w oi_env" and offered :: "'w \<Rightarrow> string list"
  assumes http_quiet: "offered (snd (oe_http env d u q w)) = offered w"
    and now_quiet: "offered (snd (oe_now env w)) = offered w"
    and ended_quiet: "offered (snd (oe_ended env w)) = offered w"
    and pause_quiet: "offered (snd (oe_pause env dt w)) = offered w"
    and connect_quiet: "offered (snd (oe_connect env u w)) = offered w"
    and recv_quiet: "offered (snd (oe_recv env w)) = offered w"
    and close_quiet: "offered (oe_close env w) = offered w"
    and insert_offers: "offered (snd (oe_insert env i w)) = offered w @ [oi_key i]"
    and insert_many_offers: "offered (snd (oe_insert_many env is w)) = offered w @ map oi_key is"
begin

lemma quiet_eq:
  "oe_http env d u q w = (a, w') \<Longrightarrow> offered w' = offered w" "oe_now env w = (t, w') \<Longrightarrow> offered w' = offered w"
  "oe_ended env w = (b, w') \<Longrightarrow> offered w' = offered w" "oe_pause env dt w = (p, w') \<Longrightarrow> offered w' = offered w"
  "oe_connect env u w = (e, w') \<Longrightarrow> offered w' = offered w" "oe_recv env w = (m, w') \<Longrightarrow> offered w' = offered w"
  "oe_insert env i w = (e, w') \<Longrightarrow> offered w' = offered w @ [oi_key i]"
  using http_quiet [of d u q w] now_quiet [of w] ended_quiet [of w] pause_quiet [of dt w] connect_quiet [of u w]
    recv_quiet [of w] insert_offers [of i w] by simp_all

text \<open>The invariant of a state: what was offered was offered once, and is what was seen.\<close>

definition once :: "'w oi_state \<Rightarrow> bool" where
  "once st \<longleftrightarrow> distinct (offered (snd st)) \<and> set (offered (snd st)) = fst st"

lemma once_quiet: "once (ks, w) \<Longrightarrow> offered w' = offered w \<Longrightarrow> once (ks, w')"
  by (simp add: once_def)

lemma offer_item_once: "once st \<Longrightarrow> offer_item env i st = (b, st') \<Longrightarrow> once st'"
  by (cases st) (auto simp: once_def offer_item_def seen_item_def split: if_splits prod.splits dest: quiet_eq)

lemma offer_all_once: "once st \<Longrightarrow> once (offer_all env is st)"
proof (induction "is" arbitrary: st)
  case (Cons i "is")
  obtain b st' where o: "offer_item env i st = (b, st')" by (meson surj_pair)
  with Cons offer_item_once [OF Cons.prems o] show ?case by simp
qed simp

lemma fetch_http_quiet: "oi_fetch_http env s d x w = (r, w') \<Longrightarrow> offered w' = offered w"
  by (auto simp: oi_fetch_http_def Let_def split: prod.splits rest_answer.splits sum.splits option.splits if_splits
      dest!: quiet_eq)

lemma fetch_history_quiet: "oi_fetch_history env s x e w = (r, w') \<Longrightarrow> offered w' = offered w"
  by (auto simp: oi_fetch_history_def split: prod.splits rest_answer.splits sum.splits if_splits dest!: quiet_eq)

lemma poll_one_once: "once st \<Longrightarrow> poll_one env s d x st = (b, st') \<Longrightarrow> once st'"
  by (cases st) (auto simp: poll_one_def split: prod.splits sum.splits
      dest!: fetch_http_quiet intro: once_quiet offer_item_once)

lemma poll_more_once: "once st \<Longrightarrow> poll_more env s d xs ok st = (r, st') \<Longrightarrow> once st'"
proof (induction xs arbitrary: ok st)
  case (Cons x xs)
  obtain p w1 where p: "oe_pause env oi_symbol_delay (snd st) = (p, w1)" by (meson surj_pair)
  have o: "once (fst st, w1)" using Cons.prems(1) quiet_eq(4) [OF p] by (cases st) (auto intro: once_quiet)
  obtain b st1 where q: "poll_one env s d x (fst st, w1) = (b, st1)" by (meson surj_pair)
  from Cons p o q poll_one_once [OF o q] show ?case by (cases p) auto
qed simp

lemma poll_symbols_once: "once st \<Longrightarrow> poll_symbols env s d xs st = (r, st') \<Longrightarrow> once st'"
  by (cases xs) (auto simp: poll_symbols_def split: prod.splits dest: poll_one_once poll_more_once)

lemma poll_all_once: "once st \<Longrightarrow> poll_all_http env s t st = (r, st') \<Longrightarrow> once st'"
  by (cases st) (auto simp: poll_all_http_def Let_def split: prod.splits sum.splits
      dest!: quiet_eq(2) dest: poll_symbols_once once_quiet)

lemma read_loop_once: "once st \<Longrightarrow> oi_read_loop n env s st = Some (e, st') \<Longrightarrow> once st'"
proof (induction n arbitrary: st)
  case (Suc n)
  obtain m w1 where r: "oe_recv env (snd st) = (m, w1)" by (meson surj_pair)
  have 1: "once (fst st, w1)" using Suc.prems(1) quiet_eq(6) [OF r] by (cases st) (auto intro: once_quiet)
  show ?case
    using Suc.prems(2) r Suc.IH [OF 1] Suc.IH [OF offer_all_once [OF 1]] 1 by (simp split: sum.splits)
qed simp

lemma run_ws_once: "once st \<Longrightarrow> run_ws n env s st = Some (e, st') \<Longrightarrow> once st'"
proof -
  assume o: "once st" and r: "run_ws n env s st = Some (e, st')"
  obtain c w1 where c: "oe_connect env (oi_ws_url s) (snd st) = (c, w1)" by (meson surj_pair)
  have 1: "once (fst st, w1)" using o quiet_eq(5) [OF c] by (cases st) (auto intro: once_quiet)
  show "once st'"
    using r c 1 read_loop_once [OF 1] close_quiet
    by (cases c) (auto simp: run_ws_def once_def)
qed

lemma oi_forward_once: "once st \<Longrightarrow> oi_forward n env s st = Some st' \<Longrightarrow> once st'"
proof (induction n arbitrary: st)
  case (Suc n)
  obtain b w1 where e: "oe_ended env (snd st) = (b, w1)" by (meson surj_pair)
  have 1: "once (fst st, w1)" using Suc.prems(1) quiet_eq(3) [OF e] by (cases st) (auto intro: once_quiet)
  obtain r st2 where p: "poll_all_http env s (5 * second) (fst st, w1) = (r, st2)" by (meson surj_pair)
  note 2 = poll_all_once [OF 1 p]
  have pause: "once (fst u, w')" if "once u" "oe_pause env d (snd u) = (x, w')" for u d x w'
    using that quiet_eq(4) [OF that(2)] by (cases u) (auto intro: once_quiet)
  have ended: "once (fst u, w')" if "once u" "oe_ended env (snd u) = (x, w')" for u x w'
    using that quiet_eq(3) [OF that(2)] by (cases u) (auto intro: once_quiet)
  have after: "once st'" if "once u" "(case oe_pause env oi_poll_interval (snd u) of
      (Goes_On, w3) \<Rightarrow> oi_forward n env s (fst u, w3) | (_, w3) \<Rightarrow> Some (fst u, w3)) = Some st'" for u
  proof -
    obtain p w' where p: "oe_pause env oi_poll_interval (snd u) = (p, w')" by (meson surj_pair)
    from that(2) p pause [OF that(1) p] Suc.IH [OF pause [OF that(1) p]] show ?thesis by (cases p) simp_all
  qed
  show ?case
  proof (cases "b \<or> r = None")
    case True
    with Suc.prems(2) e p 1 after [OF 2] show ?thesis by (cases b) auto
  next
    case False
    with Suc.prems(2) e p obtain x st3 where w: "run_ws n env s st2 = Some (x, st3)"
      by (auto split: option.splits)
    note 3 = run_ws_once [OF 2 w]
    obtain y w4 where e4: "oe_ended env (snd st3) = (y, w4)" by (meson surj_pair)
    note 4 = ended [OF 3 e4]
    from False Suc.prems(2) e p w e4 4 after [OF 4, unfolded fst_conv snd_conv] show ?thesis by (cases y) auto
  qed
qed simp

lemma fresh_items_once:
  "fresh_items a b is ks = (new, ks') \<Longrightarrow> distinct (map oi_key new) \<and> set (map oi_key new) \<inter> ks = {} \<and> ks' = ks \<union> set (map oi_key new)"
proof (induction "is" arbitrary: ks ks' new)
  case (Cons i "is")
  show ?case
  proof (cases "oi_time i < a \<or> b < oi_time i \<or> oi_key i \<in> ks")
    case True
    with Cons show ?thesis by (auto simp: seen_item_def split: if_splits)
  next
    case False
    obtain js ks2 where f: "fresh_items a b is (insert (oi_key i) ks) = (js, ks2)" by (meson surj_pair)
    from False Cons.prems f have "new = i # js" "ks' = ks2" by (auto simp: seen_item_def)
    with Cons.IH [OF f] False show ?thesis by auto
  qed
qed simp

lemma oi_backfill_loop_once: "once st \<Longrightarrow> oi_backfill_loop n env s x a b c st = Some st' \<Longrightarrow> once st'"
proof (induction n arbitrary: c st)
  case (Suc n)
  obtain t w1 where e: "oe_ended env (snd st) = (t, w1)" by (meson surj_pair)
  obtain r w2 where h: "oi_fetch_history env s x c w1 = (r, w2)" by (meson surj_pair)
  have w: "offered w1 = offered (snd st)" "offered w2 = offered (snd st)"
    using quiet_eq(3) [OF e] fetch_history_quiet [OF h] by simp_all
  have o: "once (fst st, u)" if "offered u = offered (snd st)" for u
    using Suc.prems(1) that by (simp add: once_def)
  show ?case
  proof (cases "t \<or> \<not> a < c")
    case True
    with Suc.prems e o [OF w(1)] show ?thesis by (auto split: if_splits)
  next
    case False
    show ?thesis
    proof (cases r)
      case (Inl y)
      obtain p w3 where p: "oe_pause env (2 * second) w2 = (p, w3)" by (meson surj_pair)
      have "once (fst st, w3)" using quiet_eq(4) [OF p] w o by simp
      with Suc False e h Inl p show ?thesis by (cases p) auto
    next
      case (Inr items)
      obtain new ks where f: "fresh_items a b items (fst st) = (new, ks)" by (meson surj_pair)
      have "once (ks, snd (oe_insert_many env new w2))"
        using fresh_items_once [OF f] Suc.prems(1) w insert_many_offers [of new w2] by (auto simp: once_def)
      with Suc False e h Inr f o [OF w(2)] show ?thesis by (auto split: if_splits)
    qed
  qed
qed simp

lemma oi_backfill_once: "once st \<Longrightarrow> oi_backfill_symbol n env s x st = Some st' \<Longrightarrow> once st'"
  unfolding oi_backfill_symbol_def Let_def
  by (cases st)
    (auto simp: once_def split: prod.splits if_splits dest!: quiet_eq(2) oi_backfill_loop_once [rotated])

lemma oi_reverse_once: "once st \<Longrightarrow> oi_reverse n env s xs st = Some st' \<Longrightarrow> once st'"
  by (induction xs arbitrary: st) (auto split: option.splits dest: oi_backfill_once)

lemma oi_run_once: "once st \<Longrightarrow> oi_run n env s st = Some st' \<Longrightarrow> once st'"
  by (auto simp: oi_run_def split: if_splits dest: oi_reverse_once oi_forward_once)

end

subsection \<open>The deadline of a poll\<close>

text \<open>
  A clock: a pause lasts at least as long as it says, nothing turns the clock back, and a request whose
  deadline has passed gets no answer.
\<close>

locale oi_clock = oi_world env offered for env :: "'w oi_env" and offered +
  fixes clock :: "'w \<Rightarrow> time"
  assumes now_clock: "oe_now env w = (t, w') \<Longrightarrow> clock w \<le> t \<and> t \<le> clock w'"
    and pause_clock: "oe_pause env dt w = (Goes_On, w') \<Longrightarrow> clock w + dt \<le> clock w'"
    and http_clock: "clock w \<le> clock (snd (oe_http env d u q w))"
    and insert_clock: "clock w \<le> clock (snd (oe_insert env i w))"
    and deadline: "dl \<le> clock w \<Longrightarrow> \<exists>e. fst (oe_http env (Some dl) u q w) = No_Answer e"
begin

lemma http_clock_eq: "oe_http env d u q w = (a, w') \<Longrightarrow> clock w \<le> clock w'"
  using http_clock [of w d u q] by simp

lemma fetch_http_clock: "oi_fetch_http env s d x w = (r, w') \<Longrightarrow> clock w \<le> clock w'"
  by (auto simp: oi_fetch_http_def Let_def split: prod.splits rest_answer.splits sum.splits option.splits if_splits
      dest!: http_clock_eq now_clock)

lemma poll_one_clock: "poll_one env s d x st = (b, st') \<Longrightarrow> clock (snd st) \<le> clock (snd st')"
proof -
  assume p: "poll_one env s d x st = (b, st')"
  obtain r w1 where f: "oi_fetch_http env s d x (snd st) = (r, w1)" by (meson surj_pair)
  have i: "clock w1 \<le> clock (snd (oe_insert env i w1))" for i by (rule insert_clock)
  show ?thesis
  proof (cases r)
    case (Inl e)
    with p f fetch_http_clock [OF f] show ?thesis by (auto simp: poll_one_def)
  next
    case (Inr item)
    with p f have "st' = snd (offer_item env item (fst st, w1))" by (simp add: poll_one_def)
    with i [of item] fetch_http_clock [OF f] show ?thesis
      by (auto simp: offer_item_def seen_item_def split: prod.splits)
  qed
qed

lemma poll_more_clock:
  "poll_more env s d xs ok st = (Inr b, st') \<Longrightarrow> clock (snd st) + int (length xs) * oi_symbol_delay \<le> clock (snd st')"
proof (induction xs arbitrary: ok st)
  case (Cons x xs)
  obtain p w1 where p: "oe_pause env oi_symbol_delay (snd st) = (p, w1)" by (meson surj_pair)
  with Cons.prems have "p = Goes_On" by (cases p) auto
  note 1 = pause_clock [OF p [unfolded this]]
  obtain c st1 where q: "poll_one env s d x (fst st, w1) = (c, st1)" by (meson surj_pair)
  from Cons.prems p \<open>p = Goes_On\<close> q have "poll_more env s d xs (ok \<or> c) st1 = (Inr b, st')" by simp
  from Cons.IH [OF this] poll_one_clock [OF q] 1 show ?case by (simp add: algebra_simps)
qed simp

text \<open>A symbol whose turn comes after the deadline is not asked for.\<close>

lemma poll_one_late:
  assumes "d \<le> clock (snd st)" and "poll_one env s d x st = (b, st')"
  shows "fst st' = fst st \<and> offered (snd st') = offered (snd st) \<and> clock (snd st) \<le> clock (snd st')"
proof -
  obtain t w1 where n: "oe_now env (snd st) = (t, w1)" by (meson surj_pair)
  obtain a w2 where h: "oe_http env (Some (min d (time_add t (10 * second)))) oi_rest_url [(''symbol'', to_upper x)] w1 = (a, w2)"
    by (meson surj_pair)
  have "min d (time_add t (10 * second)) \<le> clock w1" using assms(1) now_clock [OF n] by linarith
  from deadline [OF this] h obtain e where "a = No_Answer e" by (metis fst_conv)
  with assms(2) n h have "st' = (fst st, w2)" by (simp add: poll_one_def oi_fetch_http_def)
  with quiet_eq(1) [OF h] quiet_eq(2) [OF n] poll_one_clock [OF assms(2)] show ?thesis by simp
qed

lemma poll_more_late:
  "d \<le> clock (snd st) + oi_symbol_delay \<Longrightarrow> poll_more env s d xs ok st = (r, st')
    \<Longrightarrow> fst st' = fst st \<and> offered (snd st') = offered (snd st)"
proof (induction xs arbitrary: ok st)
  case (Cons x xs)
  obtain p w1 where p: "oe_pause env oi_symbol_delay (snd st) = (p, w1)" by (meson surj_pair)
  show ?case
  proof (cases "p = Goes_On")
    case True
    have l: "d \<le> clock (snd (fst st, w1))" using pause_clock [OF p [unfolded True]] Cons.prems(1) by simp
    obtain c st1 where q: "poll_one env s d x (fst st, w1) = (c, st1)" by (meson surj_pair)
    note late = poll_one_late [OF l q]
    have "d \<le> clock (snd st1) + oi_symbol_delay" using l late by (simp add: oi_symbol_delay_def millisecond_def)
    moreover have "poll_more env s d xs (ok \<or> c) st1 = (r, st')" using Cons.prems(2) p True q by simp
    ultimately show ?thesis using Cons.IH late quiet_eq(4) [OF p] by auto
  next
    case False
    with Cons.prems(2) p quiet_eq(4) [OF p] show ?thesis by (cases p) auto
  qed
qed simp

end

lemma poll_more_append:
  "poll_more env s d (xs @ ys) ok st = (case poll_more env s d xs ok st of
     (Inl e, st1) \<Rightarrow> (Inl e, st1) | (Inr b, st1) \<Rightarrow> poll_more env s d ys b st1)"
  by (induction xs arbitrary: ok st) (auto split: prod.split pause.split)

lemma poll_one_symbols: "poll_one env (s\<lparr>os_symbols := xs\<rparr>) = poll_one env s"
  by (intro ext)
    (simp add: poll_one_def oi_fetch_http_def Let_def split: prod.split rest_answer.split sum.split option.split)

lemma poll_more_symbols: "poll_more env (s\<lparr>os_symbols := xs\<rparr>) d ys ok st = poll_more env s d ys ok st"
  by (induction ys arbitrary: ok st) (simp_all add: poll_one_symbols split: prod.split pause.split)

subsection \<open>A reference world\<close>

text \<open>
  Symbols that answer with the present as their time until the deadline, a history of two entries, a
  store that refuses everything, and a stop after a number of pauses.
\<close>

record oi_ref =
  or_clock :: time
  or_left :: nat
  or_offered :: "string list"

definition ref_clock_env :: "oi_ref oi_env" where
  "ref_clock_env = \<lparr>
     oe_http = (\<lambda>d u q w. (if d = None then Answer 200 ''200 OK'' (''history'', None)
        else if the d \<le> or_clock w then No_Answer Ctx_Deadline
        else Answer 200 ''200 OK'' (snd (hd q), None), w)),
     oe_decode = (\<lambda>b. Inr \<lparr>op_symbol = fst b, op_value = ''1'', op_time = 0\<rparr>),
     oe_decode_history = (\<lambda>b. Inr []), oe_float = (\<lambda>x. (0, None)),
     oe_now = (\<lambda>w. (or_clock w, w)), oe_ended = (\<lambda>w. (or_left w = 0, w)),
     oe_pause = (\<lambda>d w. if or_left w = 0 then (Stopped, w) else (Goes_On, w\<lparr>or_clock := or_clock w + max 0 d, or_left := or_left w - 1\<rparr>)),
     oe_insert = (\<lambda>i w. (Some (Err ''down''), w\<lparr>or_offered := or_offered w @ [oi_key i]\<rparr>)),
     oe_insert_many = (\<lambda>is w. (Some (Err ''down''), w\<lparr>or_offered := or_offered w @ map oi_key is\<rparr>)),
     oe_connect = (\<lambda>u w. (Some (Err ''refused''), w)), oe_recv = (\<lambda>w. (Inl Net_Closed, w)), oe_close = (\<lambda>w. w),
     oe_unmarshal = (\<lambda>m. Inl (Err ''bad''))\<rparr>"

interpretation oi_ref: oi_clock ref_clock_env or_offered or_clock
  by unfold_locales (auto simp: ref_clock_env_def split: if_splits)

subsection \<open>Properties\<close>

text \<open>
  C19. Every item is handed to the store at most once in the whole life of a collector, forward over HTTP
  and the web socket or in reverse, also when the insert failed; and the set of seen keys has one
  member for each item ever offered, so it grows as long as the collector runs.
\<close>

theorem open_interest_offered_once:
  assumes "oi_world env offered" and "offered w = []" and "oi_run n env s ({}, w) = Some (seen, w')"
  shows "distinct (offered w') \<and> card seen = length (offered w')"
proof -
  have "oi_world.once offered ({}, w)" using assms(2) by (simp add: oi_world.once_def [OF assms(1)])
  from oi_world.oi_run_once [OF assms(1) this assms(3)]
  have "distinct (offered w')" "set (offered w') = seen" by (simp_all add: oi_world.once_def [OF assms(1)])
  then show ?thesis using distinct_card by fastforce
qed

definition sample_oi :: oi_scraper where "sample_oi = new_oi_scraper [''BTCUSDT'', ''ETHUSDT''] ''binance''"

theorem open_interest_offered_once_witness:
  "\<exists>seen w'. oi_run 5 ref_clock_env sample_oi ({}, \<lparr>or_clock = 1767225600000000000, or_left = 3, or_offered = []\<rparr>) = Some (seen, w')
    \<and> length (or_offered w') = 4 \<and> card seen = 4"
proof -
  have "map_option (\<lambda>x. length (or_offered (snd x))) (oi_run 5 ref_clock_env sample_oi
      ({}, \<lparr>or_clock = 1767225600000000000, or_left = 3, or_offered = []\<rparr>)) = Some 4" by code_simp
  then obtain seen w' where r: "oi_run 5 ref_clock_env sample_oi
      ({}, \<lparr>or_clock = 1767225600000000000, or_left = 3, or_offered = []\<rparr>) = Some (seen, w')"
    and l: "length (or_offered w') = 4" by auto
  from open_interest_offered_once [OF oi_ref.oi_world_axioms _ r] l r show ?thesis by fastforce
qed

text \<open>
  A poll reaches at most seventeen symbols: the pauses of 300 ms before the later ones use up the five
  seconds that the whole poll has, so what a poll of a longer list sees and offers is what a poll of
  its first seventeen symbols does; the others are never collected over HTTP.
\<close>

theorem poll_reaches_seventeen_symbols:
  assumes "oi_clock env offered clock"
    and "poll_all_http env s (5 * second) st = (r, st')"
    and "poll_all_http env (s\<lparr>os_symbols := take 17 (os_symbols s)\<rparr>) (5 * second) st = (r17, st17)"
  shows "fst st' = fst st17 \<and> offered (snd st') = offered (snd st17)"
proof (cases "length (os_symbols s) \<le> 17")
  case True
  with assms(2,3) show ?thesis by simp
next
  case False
  define x where "x = hd (os_symbols s)"
  define xs where "xs = take 16 (tl (os_symbols s))"
  define ys where "ys = drop 16 (tl (os_symbols s))"
  have sy: "os_symbols s = x # xs @ ys" "take 17 (os_symbols s) = x # xs"
    using False by (cases "os_symbols s"; simp add: x_def xs_def ys_def)+
  have l: "length xs = 16" using False by (simp add: xs_def)
  obtain t w1 where n: "oe_now env (snd st) = (t, w1)" by (meson surj_pair)
  let ?d = "time_add t (5 * second)"
  obtain b st1 where one: "poll_one env s ?d x (fst st, w1) = (b, st1)" by (meson surj_pair)
  obtain m st2 where some: "poll_more env s ?d xs b st1 = (m, st2)" by (meson surj_pair)
  have st17: "st17 = st2" using assms(3) n one some sy(2)
    by (auto simp: poll_all_http_def poll_symbols_def poll_one_symbols poll_more_symbols split: sum.splits)
  show ?thesis
  proof (cases m)
    case (Inl e)
    then have "st' = st2" using assms(2) n one some sy(1)
      by (auto simp: poll_all_http_def poll_symbols_def poll_more_append)
    with st17 show ?thesis by simp
  next
    case (Inr ok)
    obtain m' st3 where more: "poll_more env s ?d ys ok st2 = (m', st3)" by (meson surj_pair)
    have "st' = st3" using assms(2) n one some sy(1) Inr more
      by (auto simp: poll_all_http_def poll_symbols_def poll_more_append split: sum.splits)
    moreover have "t + 16 * oi_symbol_delay \<le> clock (snd st2)"
      using oi_clock.poll_more_clock [OF assms(1) some [unfolded Inr]] oi_clock.poll_one_clock [OF assms(1) one]
        oi_clock.now_clock [OF assms(1) n] l by simp
    then have "?d \<le> clock (snd st2) + oi_symbol_delay"
      by (simp add: time_add_def oi_symbol_delay_def millisecond_def second_def)
    note oi_clock.poll_more_late [OF assms(1) this more]
    ultimately show ?thesis using st17 by simp
  qed
qed

definition many_symbols :: oi_scraper where
  "many_symbols = new_oi_scraper (map (\<lambda>i. ''S'' @ itoa i) [1..20]) ''binance''"

theorem poll_reaches_seventeen_symbols_witness:
  "length (os_symbols many_symbols) = 20
   \<and> length (or_offered (snd (snd (poll_all_http ref_clock_env many_symbols (5 * second)
         ({}, \<lparr>or_clock = 0, or_left = 100, or_offered = []\<rparr>))))) = 17"
proof -
  let ?st = "({}, \<lparr>or_clock = 0, or_left = 100, or_offered = []\<rparr>)"
  let ?s = "many_symbols\<lparr>os_symbols := take 17 (os_symbols many_symbols)\<rparr>"
  have "length (or_offered (snd (snd (poll_all_http ref_clock_env ?s (5 * second) ?st)))) = 17" by code_simp
  with poll_reaches_seventeen_symbols [OF oi_ref.oi_clock_axioms, of many_symbols ?st]
  have "length (or_offered (snd (snd (poll_all_http ref_clock_env many_symbols (5 * second) ?st)))) = 17"
    by (metis surjective_pairing)
  moreover have "length (os_symbols many_symbols) = 20" by code_simp
  ultimately show ?thesis by simp
qed

end
