(* ===== verification/Order_Books.thy ===== *)
theory Order_Books
  imports Kline_Collectors Storage_Timescale
begin

text \<open>
  The order book collectors. The spot collector (\<open>internal/scraper/spotorderbook/orderbook.go\<close>) reads depth
  messages from a web socket and keeps one snapshot for each bucket of 500 ms, which it stores when a
  message of a later bucket comes. The futures collector (\<open>internal/scraper/futuresorderbook/orderbook.go\<close>)
  asks for a snapshot every second. Network, JSON, clock and store are the fields of \<open>book_env\<close>; log
  lines are left out, and so are the read deadlines, which belong to the web socket.
\<close>

type_synonym depth = "float64 list list"

record 'w book_env =
  be_http :: "string \<Rightarrow> query \<Rightarrow> 'w \<Rightarrow> rest_answer \<times> 'w"
  be_decode :: "string \<times> go_error option \<Rightarrow> (json list list \<times> json list list) res" \<comment> \<open>bids and asks\<close>
  be_float :: float_parser
  be_marshal :: "depth \<Rightarrow> string res"
  be_now :: "'w \<Rightarrow> time \<times> 'w"
  be_sleep :: "duration \<Rightarrow> 'w \<Rightarrow> 'w"
  be_ended :: "'w \<Rightarrow> bool \<times> 'w"
  be_wait :: "duration \<Rightarrow> 'w \<Rightarrow> bool \<times> 'w"
  be_insert :: "order_book \<Rightarrow> 'w \<Rightarrow> go_error option \<times> 'w"

record book_scraper =
  bs_symbol :: string
  bs_market :: string
  bs_exchange :: string

text \<open>\<open>mustMarshalJSON\<close> drops the error, which leaves no bytes.\<close>

definition must_marshal :: "'w book_env \<Rightarrow> depth \<Rightarrow> string" where
  "must_marshal env d = (case be_marshal env d of Inr s \<Rightarrow> s | Inl _ \<Rightarrow> [])"

definition order_book_of :: "'w book_env \<Rightarrow> book_scraper \<Rightarrow> string \<Rightarrow> time \<Rightarrow> depth \<Rightarrow> depth \<Rightarrow> order_book" where
  "order_book_of env s market t bids asks = \<lparr>ob_time = t, ob_symbol = to_upper (bs_symbol s), ob_market = market,
     ob_exchange = bs_exchange s, ob_bids = must_marshal env bids, ob_asks = must_marshal env asks\<rparr>"

subsection \<open>Depth messages of the spot market\<close>

definition spot_book_url :: string where "spot_book_url = ''wss://stream.binance.com:9443/ws''"
definition book_interval :: duration where "book_interval = 500 * millisecond"

text \<open>\<open>Time.Truncate\<close> rounds down to a multiple of the duration since the zero time.\<close>

definition time_truncate :: "time \<Rightarrow> duration \<Rightarrow> time" where
  "time_truncate t d = (if d \<le> 0 then t else t - (t - zero_time) mod d)"

definition depth_row :: "float_parser \<Rightarrow> json \<Rightarrow> depth" where
  "depth_row pf v =
     (case v of
        J_Arr row \<Rightarrow> if length row < 2 then [] else [[to_float pf (row ! 0), to_float pf (row ! 1)]]
      | _ \<Rightarrow> [])"

definition parse_depth_side :: "float_parser \<Rightarrow> json list \<Rightarrow> depth" where
  "parse_depth_side pf rows = concat (map (depth_row pf) rows)"

text \<open>The short key is preferred; a value that is not an array counts as missing.\<close>

definition depth_rows :: "(string \<times> json) list \<Rightarrow> string \<Rightarrow> string \<Rightarrow> json list option" where
  "depth_rows raw short long =
     (case json_field raw short of
        J_Arr rows \<Rightarrow> Some rows
      | _ \<Rightarrow> (case json_field raw long of J_Arr rows \<Rightarrow> Some rows | _ \<Rightarrow> None))"

definition parse_depth :: "float_parser \<Rightarrow> (string \<times> json) list \<Rightarrow> (depth \<times> depth) option" where
  "parse_depth pf raw =
     (case (depth_rows raw ''b'' ''bids'', depth_rows raw ''a'' ''asks'') of
        (Some bs, Some as) \<Rightarrow> Some (parse_depth_side pf bs, parse_depth_side pf as)
      | _ \<Rightarrow> None)"

subsection \<open>Reading a connection\<close>

text \<open>\<open>lastBucket\<close> and the snapshot that is kept for it.\<close>

type_synonym bucket_state = "time \<times> depth \<times> depth"

definition no_bucket :: bucket_state where "no_bucket = (zero_time, [], [])"

text \<open>A message with a book, read at \<open>now\<close>; a failed insert is only logged.\<close>

definition take_book :: "'w book_env \<Rightarrow> book_scraper \<Rightarrow> time \<Rightarrow> depth \<times> depth \<Rightarrow> bucket_state \<times> 'w \<Rightarrow> bucket_state \<times> 'w" where
  "take_book env s now book st =
     (let (last_bucket, bids, asks) = fst st; bucket = time_truncate now book_interval
      in if last_bucket < bucket
         then ((bucket, book),
               (if \<not> is_zero last_bucket \<and> bids \<noteq> []
                then snd (be_insert env (order_book_of env s (bs_market s) last_bucket bids asks) (snd st)) else snd st))
         else st)"

fun book_read_loop ::
  "nat \<Rightarrow> 'w book_env \<Rightarrow> 'w socket_env \<Rightarrow> book_scraper \<Rightarrow> bucket_state \<times> 'w \<Rightarrow> (go_error option \<times> 'w) option" where
  "book_read_loop 0 env ws s st = None"
| "book_read_loop (Suc n) env ws s st =
     (case ws_recv ws (snd st) of
        (Inl e, w1) \<Rightarrow>
          (case ws_stopped ws w1 of
             (True, w2) \<Rightarrow> Some (None, w2)
           | (False, w2) \<Rightarrow> Some (Some (Wrapped ''read'' e), w2))
      | (Inr msg, w1) \<Rightarrow>
        (case ws_unmarshal ws msg of
           Inl _ \<Rightarrow> book_read_loop n env ws s (fst st, w1)
         | Inr raw \<Rightarrow>
           (case parse_depth (be_float env) raw of
              None \<Rightarrow> book_read_loop n env ws s (fst st, w1)
            | Some book \<Rightarrow>
              (case be_now env w1 of (now, w2) \<Rightarrow> book_read_loop n env ws s (take_book env s now book (fst st, w2))))))"

definition book_dial_and_read ::
  "nat \<Rightarrow> 'w book_env \<Rightarrow> 'w socket_env \<Rightarrow> book_scraper \<Rightarrow> string \<Rightarrow> 'w \<Rightarrow> (go_error option \<times> 'w) option" where
  "book_dial_and_read n env ws s url w =
     (case ws_connect ws url w of
        (Some e, w1) \<Rightarrow> Some (Some (Wrapped ''dial'' e), w1)
      | (None, w1) \<Rightarrow> map_option (\<lambda>(e, w2). (e, ws_close ws w2)) (book_read_loop n env ws s (no_bucket, w1)))"

fun spot_book_rounds :: "nat \<Rightarrow> 'w book_env \<Rightarrow> 'w socket_env \<Rightarrow> book_scraper \<Rightarrow> string \<Rightarrow> 'w \<Rightarrow> 'w option" where
  "spot_book_rounds 0 env ws s url w = None"
| "spot_book_rounds (Suc n) env ws s url w =
     (case be_ended env w of
        (True, w1) \<Rightarrow> Some w1
      | (False, w1) \<Rightarrow>
        (case book_dial_and_read n env ws s url w1 of
           None \<Rightarrow> None
         | Some (None, w2) \<Rightarrow> Some w2
         | Some (Some e, w2) \<Rightarrow>
           if is_closed_error e then Some w2
           else (case be_wait env (2 * second) w2 of
               (True, w3) \<Rightarrow> Some w3
             | (False, w3) \<Rightarrow> spot_book_rounds n env ws s url w3)))"

definition spot_book_run :: "nat \<Rightarrow> 'w book_env \<Rightarrow> 'w socket_env \<Rightarrow> book_scraper \<Rightarrow> 'w \<Rightarrow> 'w option" where
  "spot_book_run n env ws s w = spot_book_rounds n env ws s (spot_book_url @ ''/'' @ bs_symbol s @ ''@depth20@100ms'') w"

subsection \<open>Snapshots of the futures market\<close>

definition futures_book_url :: string where "futures_book_url = ''https://fapi.binance.com/fapi/v1/depth''"
definition book_retries :: nat where "book_retries = 3"

text \<open>
  A type assertion that fails and an index out of range panic, and nothing recovers from it: the
  process ends. \<open>Fetch_Panics\<close> is that outcome.
\<close>

datatype book_fetch = Fetched order_book | Fetch_Fails go_error | Fetch_Panics

fun price_pair :: "float_parser \<Rightarrow> json list \<Rightarrow> float64 list option" where
  "price_pair pf (J_Str p # J_Str q # _) = Some [fst (pf p), fst (pf q)]"
| "price_pair pf _ = None"

fun price_pairs :: "float_parser \<Rightarrow> json list list \<Rightarrow> depth option" where
  "price_pairs pf [] = Some []"
| "price_pairs pf (r # rs) =
     (case price_pair pf r of
        None \<Rightarrow> None
      | Some p \<Rightarrow> (case price_pairs pf rs of None \<Rightarrow> None | Some ps \<Rightarrow> Some (p # ps)))"

fun book_attempts :: "'w book_env \<Rightarrow> book_scraper \<Rightarrow> nat \<Rightarrow> go_error option \<Rightarrow> 'w \<Rightarrow> book_fetch \<times> 'w" where
  "book_attempts env s 0 last_err w =
     (Fetch_Fails (case last_err of
        None \<Rightarrow> Err ''fetch failed after 3 retries: %!w(<nil>)''
      | Some e \<Rightarrow> Wrapped ''fetch failed after 3 retries'' e), w)"
| "book_attempts env s (Suc left) last_err w =
     (case be_http env futures_book_url [(''symbol'', bs_symbol s), (''limit'', ''20'')] w of
        (No_Answer e, w1) \<Rightarrow> book_attempts env s left (Some e) w1
      | (Answer code status body, w1) \<Rightarrow>
        if code = 429 then book_attempts env s left last_err (be_sleep env (dur_mul (int (book_retries - left)) second) w1)
        else if code \<noteq> 200 then (Fetch_Fails (Err (''HTTP '' @ status @ '': '' @ fst body)), w1)
        else (case be_decode env body of
            Inl e \<Rightarrow> (Fetch_Fails (Wrapped ''decode'' e), w1)
          | Inr (bs, as) \<Rightarrow>
            (case (price_pairs (be_float env) bs, price_pairs (be_float env) as) of
               (Some bids, Some asks) \<Rightarrow>
                 (case be_now env w1 of (now, w2) \<Rightarrow> (Fetched (order_book_of env s ''futures'' now bids asks), w2))
             | _ \<Rightarrow> (Fetch_Panics, w1))))"

definition futures_book_fetch :: "'w book_env \<Rightarrow> book_scraper \<Rightarrow> 'w \<Rightarrow> book_fetch \<times> 'w" where
  "futures_book_fetch env s w = book_attempts env s book_retries None w"

text \<open>The ticker; the result says whether the collector was told to stop (else it panicked).\<close>

fun futures_book_run :: "nat \<Rightarrow> 'w book_env \<Rightarrow> book_scraper \<Rightarrow> 'w \<Rightarrow> (bool \<times> 'w) option" where
  "futures_book_run 0 env s w = None"
| "futures_book_run (Suc n) env s w =
     (case be_wait env (1 * second) w of
        (True, w1) \<Rightarrow> Some (True, w1)
      | (False, w1) \<Rightarrow>
        (case futures_book_fetch env s w1 of
           (Fetched ob, w2) \<Rightarrow> futures_book_run n env s (snd (be_insert env ob w2))
         | (Fetch_Fails _, w2) \<Rightarrow> futures_book_run n env s w2
         | (Fetch_Panics, w2) \<Rightarrow> Some (False, w2)))"

text \<open>\<open>Stop\<close> of the two collectors.\<close>

definition spot_book_stop :: "'w stop_env \<Rightarrow> 'w \<Rightarrow> 'w" where
  "spot_book_stop env w = (if sp_done env w then w else sp_close_conn env (sp_close_done env w))"

definition futures_book_stop :: "'w stop_env \<Rightarrow> 'w \<Rightarrow> 'w" where
  "futures_book_stop env w = (if sp_done env w then w else sp_close_done env w)"

subsection \<open>The snapshots of a connection\<close>

text \<open>
  The reference: of a list of (bucket, book) readings, each bucket but the last with the first book
  that was read in it, unless that book has no bids.
\<close>

definition kept_books :: "(time \<times> depth \<times> depth) list \<Rightarrow> (time \<times> depth \<times> depth) list" where
  "kept_books rs = filter (\<lambda>(b, bids, asks). bids \<noteq> [])
     (map (\<lambda>b. (b, the (map_of rs b))) (butlast (sorted_list_of_set (fst ` set rs))))"

text \<open>The code, on the readings alone.\<close>

fun flushed_books :: "bucket_state \<Rightarrow> (time \<times> depth \<times> depth) list \<Rightarrow> (time \<times> depth \<times> depth) list" where
  "flushed_books s [] = []"
| "flushed_books s ((t, book) # rs) =
     (if fst s < t
      then (if \<not> is_zero (fst s) \<and> fst (snd s) \<noteq> [] then [s] else []) @ flushed_books (t, book) rs
      else flushed_books s rs)"

lemma sorted_list_insert_less:
  assumes "finite A" "A \<noteq> {}" "\<forall>y \<in> A. (x :: int) < y"
  shows "butlast (sorted_list_of_set (insert x A)) = x # butlast (sorted_list_of_set A)"
proof -
  have "x \<notin> A" using assms(3) by blast
  moreover have "\<forall>y \<in> set (sorted_list_of_set A). x \<le> y" using assms by fastforce
  moreover have "sorted_list_of_set A \<noteq> []" using assms by simp
  ultimately show ?thesis using assms(1) by (simp add: insort_is_Cons)
qed

lemma flushed_books_kept:
  assumes "sorted (b # map fst rs)" "zero_time < b"
  shows "flushed_books (b, book) rs = kept_books ((b, book) # rs)"
  using assms
proof (induction rs arbitrary: b book)
  case Nil
  then show ?case by (simp add: kept_books_def)
next
  case (Cons r rs)
  obtain t y where r: "r = (t, y)" by (cases r)
  show ?case
  proof (cases "b < t")
    case True
    let ?A = "insert t (fst ` set rs)"
    have *: "butlast (sorted_list_of_set (insert b ?A)) = b # butlast (sorted_list_of_set ?A)"
      by (rule sorted_list_insert_less) (use True Cons.prems r in auto)
    have "b \<noteq> c" if "c \<in> set (butlast (sorted_list_of_set ?A))" for c
    proof -
      have "c \<in> ?A" using in_set_butlastD [OF that] by (simp del: sorted_list_of_set_insert_remove)
      then show ?thesis using True Cons.prems r by auto
    qed
    then have m: "map (\<lambda>c. (c, the (map_of ((b, book) # r # rs) c))) (butlast (sorted_list_of_set ?A))
        = map (\<lambda>c. (c, the (map_of (r # rs) c))) (butlast (sorted_list_of_set ?A))"
      by (intro map_cong refl) (metis fst_conv fun_upd_other map_of.simps(2))
    have sets: "fst ` set ((b, book) # r # rs) = insert b ?A" "fst ` set (r # rs) = ?A" using r by simp_all
    have "the (map_of ((b, book) # r # rs) b) = book" by simp
    then have "kept_books ((b, book) # r # rs) = (if fst book \<noteq> [] then [(b, book)] else []) @ kept_books (r # rs)"
      by (simp only: kept_books_def sets * list.map m) (simp add: split_beta)
    moreover have "flushed_books (t, y) rs = kept_books (r # rs)"
      using Cons.IH [of t y] Cons.prems True r by simp
    ultimately show ?thesis using True Cons.prems r by (simp add: is_zero_def)
  next
    case False
    then have "t = b" using Cons.prems r by simp
    moreover have "flushed_books (b, book) rs = kept_books ((b, book) # rs)" using Cons r by auto
    ultimately show ?thesis using r by (simp add: kept_books_def insert_absorb2 cong: map_cong)
  qed
qed

lemma flushed_books_start:
  assumes "sorted (map fst rs)" "\<forall>r \<in> set rs. zero_time < fst r"
  shows "flushed_books no_bucket rs = kept_books rs"
proof (cases rs)
  case Nil
  then show ?thesis by (simp add: kept_books_def)
next
  case (Cons r rs')
  then show ?thesis
    using assms flushed_books_kept [of "fst r" rs' "snd r"]
    by (cases r) (auto simp: no_bucket_def is_zero_def)
qed

lemma time_truncate_mono: "s \<le> t \<Longrightarrow> 0 < d \<Longrightarrow> time_truncate s d \<le> time_truncate t d"
proof -
  assume "s \<le> t" "0 < d"
  have "time_truncate u d = zero_time + d * ((u - zero_time) div d)" for u
    using \<open>0 < d\<close> minus_mod_eq_mult_div [of "u - zero_time" d] by (simp add: time_truncate_def)
  then show ?thesis using \<open>s \<le> t\<close> \<open>0 < d\<close> by (simp add: zdiv_mono1)
qed

lemma time_truncate_after: "zero_time + d \<le> t \<Longrightarrow> 0 < d \<Longrightarrow> zero_time < time_truncate t d"
  using time_truncate_mono [of "zero_time + d" t d] by (simp add: time_truncate_def)

definition kept_order_book :: "'w book_env \<Rightarrow> book_scraper \<Rightarrow> time \<times> depth \<times> depth \<Rightarrow> order_book" where
  "kept_order_book env s r = order_book_of env s (bs_market s) (fst r) (fst (snd r)) (snd (snd r))"

text \<open>The books of messages with their times, each with the bucket of its time.\<close>

definition book_reading :: "'w book_env \<Rightarrow> 'w socket_env \<Rightarrow> string \<times> time \<Rightarrow> (time \<times> depth \<times> depth) list" where
  "book_reading env ws m = (case ws_unmarshal ws (fst m) of
     Inl _ \<Rightarrow> []
   | Inr raw \<Rightarrow> (case parse_depth (be_float env) raw of None \<Rightarrow> [] | Some book \<Rightarrow> [(time_truncate (snd m) book_interval, book)]))"

definition book_readings :: "'w book_env \<Rightarrow> 'w socket_env \<Rightarrow> (string \<times> time) list \<Rightarrow> (time \<times> depth \<times> depth) list" where
  "book_readings env ws ms = concat (map (book_reading env ws) ms)"

text \<open>
  A feed of messages: \<open>messages\<close> are those still to come with the time at which each is handled; after
  them reading fails. \<open>offered\<close> are the snapshots the store was given, in order.
\<close>

locale book_feed =
  fixes env :: "'w book_env" and ws :: "'w socket_env"
    and messages :: "'w \<Rightarrow> (string \<times> time) list" and clock :: "'w \<Rightarrow> time" and offered :: "'w \<Rightarrow> order_book list"
  assumes recv_next: "messages w = (m, t) # rest \<Longrightarrow>
      \<exists>w'. ws_recv ws w = (Inr m, w') \<and> messages w' = rest \<and> clock w' = t \<and> offered w' = offered w"
    and recv_end: "messages w = [] \<Longrightarrow> \<exists>e w'. ws_recv ws w = (Inl e, w') \<and> offered w' = offered w"
    and now: "be_now env w = (t, w') \<Longrightarrow> t = clock w \<and> messages w' = messages w \<and> offered w' = offered w"
    and insert: "be_insert env ob w = (e1, w') \<Longrightarrow> messages w' = messages w \<and> offered w' = offered w @ [ob]"
    and stopped: "ws_stopped ws w = (b, w') \<Longrightarrow> offered w' = offered w"
    and connect: "ws_connect ws url w = (e2, w') \<Longrightarrow> messages w' = messages w \<and> offered w' = offered w"
    and close: "offered (ws_close ws w) = offered w"
begin

lemma take_book_flushes:
  assumes "take_book env s now book (st, w) = (st', w')"
  shows "messages w' = messages w
    \<and> offered w' @ map (kept_order_book env s) (flushed_books st' rs)
      = offered w @ map (kept_order_book env s) (flushed_books st ((time_truncate now book_interval, book) # rs))"
proof (cases st)
  case (fields lb bids asks)
  obtain e1 w1 where i: "be_insert env (order_book_of env s (bs_market s) lb bids asks) w = (e1, w1)" by fastforce
  from insert [OF this] assms fields i show ?thesis
    by (auto simp: take_book_def Let_def kept_order_book_def split: if_splits)
qed

lemma read_loop_flushes:
  "length (messages w) < n \<Longrightarrow>
    \<exists>e w'. book_read_loop n env ws s (st, w) = Some (e, w')
      \<and> offered w' = offered w @ map (kept_order_book env s) (flushed_books st (book_readings env ws (messages w)))"
proof (induction n arbitrary: st w)
  case (Suc n)
  show ?case
  proof (cases "messages w")
    case Nil
    from recv_end [OF this] obtain e w1 where r: "ws_recv ws w = (Inl e, w1)" "offered w1 = offered w" by blast
    obtain b w2 where b: "ws_stopped ws w1 = (b, w2)" by fastforce
    from stopped [OF this] r b Nil show ?thesis by (cases b) (simp_all add: book_readings_def)
  next
    case (Cons mt rest)
    obtain m t where mt: "mt = (m, t)" by (cases mt)
    from recv_next [of w m t rest] Cons mt obtain w1 where r: "ws_recv ws w = (Inr m, w1)" "messages w1 = rest"
      "clock w1 = t" "offered w1 = offered w" by blast
    have n: "length rest < n" using Suc.prems Cons by simp
    have split: "book_readings env ws (messages w) = book_reading env ws (m, t) @ book_readings env ws rest" using Cons mt by (simp add: book_readings_def)
    show ?thesis
    proof (cases "book_reading env ws (m, t) = []")
      case True
      from Suc.IH [of w1 st] n r obtain e w' where ih: "book_read_loop n env ws s (st, w1) = Some (e, w')"
        "offered w' = offered w @ map (kept_order_book env s) (flushed_books st (book_readings env ws rest))" by auto
      have "book_read_loop (Suc n) env ws s (st, w) = book_read_loop n env ws s (st, w1)"
        using True r(1) by (simp add: book_reading_def split: sum.splits option.splits)
      with ih split True show ?thesis by simp
    next
      case False
      then obtain raw book where p: "ws_unmarshal ws m = Inr raw" "parse_depth (be_float env) raw = Some book"
        "book_reading env ws (m, t) = [(time_truncate t book_interval, book)]"
        by (auto simp: book_reading_def split: sum.splits option.splits)
      obtain w2 where w2: "be_now env w1 = (t, w2)" using r(3) now [of w1] by (cases "be_now env w1") auto
      note n2 = now [OF w2]
      obtain st3 w3 where w3: "take_book env s t book (st, w2) = (st3, w3)" by fastforce
      note keep = take_book_flushes [OF w3, of "book_readings env ws rest"]
      from Suc.IH [of w3 st3] n r(2) n2 keep obtain e w' where ih: "book_read_loop n env ws s (st3, w3) = Some (e, w')"
        "offered w' = offered w3 @ map (kept_order_book env s) (flushed_books st3 (book_readings env ws rest))" by auto
      have "book_read_loop (Suc n) env ws s (st, w) = book_read_loop n env ws s (st3, w3)"
        using r(1) p w2 w3 by simp
      with ih keep split p(3) n2 r(4) show ?thesis by simp
    qed
  qed
qed simp

lemma book_reading_time: "r \<in> set (book_reading env ws m) \<Longrightarrow> fst r = time_truncate (snd m) book_interval"
  by (auto simp: book_reading_def split: sum.splits option.splits)

lemma book_readings_sorted: "sorted (map snd ms) \<Longrightarrow> sorted (map fst (book_readings env ws ms))"
proof (induction ms)
  case (Cons m ms)
  have "sorted (map fst (book_reading env ws m))" by (auto simp: book_reading_def split: sum.splits option.splits)
  moreover have "fst r \<le> fst q" if "r \<in> set (book_reading env ws m)" "q \<in> set (book_readings env ws ms)" for r q
  proof -
    from that(2) obtain k where "k \<in> set ms" "q \<in> set (book_reading env ws k)" by (auto simp: book_readings_def)
    with that(1) Cons.prems show ?thesis
      by (auto dest!: book_reading_time intro!: time_truncate_mono simp: book_interval_def millisecond_def)
  qed
  ultimately have "\<forall>r \<in> set (book_reading env ws m). \<forall>q \<in> set (book_readings env ws ms). fst r \<le> fst q" "sorted (map fst (book_reading env ws m))"
    by blast+
  with Cons show ?case by (simp add: book_readings_def sorted_append)
qed (simp add: book_readings_def)

lemma connection_keeps_first_books:
  assumes "length (messages w) < n" "sorted (map snd (messages w))"
    and "\<forall>m \<in> set (messages w). zero_time + book_interval \<le> snd m"
    and "ws_connect ws url w = (None, w1)"
  shows "\<exists>e w'. book_dial_and_read n env ws s url w = Some (e, w')
    \<and> offered w' = offered w @ map (kept_order_book env s) (kept_books (book_readings env ws (messages w)))"
proof -
  note c = connect [OF assms(4)]
  have "zero_time < fst r" if "r \<in> set (book_readings env ws (messages w))" for r
  proof -
    from that obtain m where "m \<in> set (messages w)" "r \<in> set (book_reading env ws m)" by (auto simp: book_readings_def)
    with assms(3) book_reading_time [of r m] time_truncate_after [of book_interval "snd m"] show ?thesis
      by (simp add: book_interval_def millisecond_def)
  qed
  then have "flushed_books no_bucket (book_readings env ws (messages w)) = kept_books (book_readings env ws (messages w))"
    using book_readings_sorted [OF assms(2)] by (intro flushed_books_start) blast+
  with read_loop_flushes [of w1 n s no_bucket] assms(1,4) c show ?thesis
    by (auto simp: book_dial_and_read_def close)
qed

end

subsection \<open>A reference feed\<close>

text \<open>
  Messages carry one price, the store is the model's \<open>InsertOrderBook\<close> on the reference database.
\<close>

record book_world =
  bw_messages :: "(string \<times> time) list"
  bw_clock :: time
  bw_offered :: "order_book list"
  bw_db :: pg_db

definition ref_book_env :: "book_world book_env" where
  "ref_book_env = \<lparr>be_http = (\<lambda>u q w. (Answer 200 ''200 OK'' (''[]'', None), w)),
     be_decode = (\<lambda>body. Inr ([[J_Str ''1'', J_Str ''2'']], [])),
     be_float = (\<lambda>s. (of_nat (length s), None)), be_marshal = (\<lambda>d. Inr (if d = [] then ''[]'' else ''[..]'')),
     be_now = (\<lambda>w. (bw_clock w, w)), be_sleep = (\<lambda>d w. w), be_ended = (\<lambda>w. (False, w)), be_wait = (\<lambda>d w. (True, w)),
     be_insert = (\<lambda>ob w. (case insert_order_book pg_exec (ob_exchange ob) ob (bw_db w) of
        (e, db) \<Rightarrow> (e, w\<lparr>bw_db := db, bw_offered := bw_offered w @ [ob]\<rparr>)))\<rparr>"

definition ref_book_socket :: "book_world socket_env" where
  "ref_book_socket = \<lparr>ws_connect = (\<lambda>u w. (None, w)),
     ws_recv = (\<lambda>w. case bw_messages w of
        [] \<Rightarrow> (Inl (Ws_Close 1006), w)
      | (m, t) # rest \<Rightarrow> (Inr m, w\<lparr>bw_messages := rest, bw_clock := t\<rparr>)),
     ws_close = (\<lambda>w. w),
     ws_unmarshal = (\<lambda>m. if m = [] then Inl (Err ''unexpected end of JSON input'')
        else Inr [(''bids'', J_Arr [J_Arr [J_Str m, J_Str ''1'']]), (''asks'', J_Arr [])]),
     ws_stopped = (\<lambda>w. (False, w))\<rparr>"

interpretation book_ref: book_feed ref_book_env ref_book_socket bw_messages bw_clock bw_offered
  by unfold_locales (auto simp: ref_book_env_def ref_book_socket_def split: prod.splits)

subsection \<open>Properties\<close>

text \<open>
  C28. The order book snapshots of a spot connection are exactly these, in this order: for each bucket
  of 500 ms in which a message with a book was read, except the last one, the first book of the bucket
  under the start of the bucket, if it has bids. The connection ends after its messages; so the books
  of the last bucket are lost when it breaks, and a later book of a bucket never replaces the first.
\<close>

theorem spot_book_snapshots:
  assumes "book_feed env ws messages clock offered"
    and "length (messages w) < n" "sorted (map snd (messages w))"
    and "\<forall>m \<in> set (messages w). zero_time + book_interval \<le> snd m"
    and "ws_connect ws url w = (None, w1)"
  shows "\<exists>e w'. book_dial_and_read n env ws s url w = Some (e, w')
    \<and> offered w' = offered w @ map (kept_order_book env s) (kept_books (book_readings env ws (messages w)))"
  by (rule book_feed.connection_keeps_first_books [OF assms])

definition sample_books :: book_scraper where
  "sample_books = \<lparr>bs_symbol = ''btcusdt'', bs_market = ''spot'', bs_exchange = ''binance''\<rparr>"

text \<open>Four messages in two buckets: the one-digit price is kept, the second bucket is lost.\<close>

definition sample_feed :: book_world where
  "sample_feed = \<lparr>bw_messages = [(''7'', 1000000000), (''77'', 1200000000), (''777'', 1499999999), (''7777'', 1500000000)],
     bw_clock = 0, bw_offered = [], bw_db = \<lparr>pg_tables = [], pg_rows = []\<rparr>\<rparr>"

theorem spot_book_snapshots_witness:
  "\<exists>e w'. book_dial_and_read 5 ref_book_env ref_book_socket sample_books ''wss://x'' sample_feed = Some (e, w')
    \<and> map ob_time (bw_offered w') = [1000000000]"
proof -
  have feed: "length (bw_messages sample_feed) < 5" "sorted (map snd (bw_messages sample_feed))"
    "\<forall>m \<in> set (bw_messages sample_feed). zero_time + book_interval \<le> snd m" by code_simp+
  have dial: "ws_connect ref_book_socket ''wss://x'' sample_feed = (None, sample_feed)"
    by (simp add: ref_book_socket_def)
  have "map (\<lambda>r. ob_time (kept_order_book ref_book_env sample_books r))
      (kept_books (book_readings ref_book_env ref_book_socket (bw_messages sample_feed))) = [1000000000]" by code_simp
  moreover have "bw_offered sample_feed = []" by (simp add: sample_feed_def)
  ultimately show ?thesis
    using spot_book_snapshots [OF book_ref.book_feed_axioms feed dial, of sample_books] by (auto simp: o_def)
qed

text \<open>A row that starts with two strings, and its two numbers.\<close>

fun price_row :: "json list \<Rightarrow> bool" where
  "price_row (J_Str p # J_Str q # _) \<longleftrightarrow> True"
| "price_row _ \<longleftrightarrow> False"

definition row_prices :: "float_parser \<Rightarrow> json list \<Rightarrow> float64 list" where
  "row_prices pf r = map (\<lambda>v. case v of J_Str p \<Rightarrow> fst (pf p) | _ \<Rightarrow> 0) (take 2 r)"

lemma price_pair: "price_pair pf r = (if price_row r then Some (row_prices pf r) else None)"
  by (cases r rule: price_row.cases) (auto simp: row_prices_def numeral_2_eq_2)

lemma price_pairs: "price_pairs pf rs = (if \<forall>r \<in> set rs. price_row r then Some (map (row_prices pf) rs) else None)"
  by (induction rs) (auto simp: price_pair)

lemma book_attempts_panics:
  assumes "\<And>body bs as r. be_decode env body = Inr (bs, as) \<Longrightarrow> r \<in> set (bs @ as) \<Longrightarrow> price_row r"
  shows "book_attempts env s left e w \<noteq> (Fetch_Panics, w')"
proof (induction left arbitrary: e w)
  case (Suc left)
  have ok: "\<exists>x. price_pairs (be_float env) bs = Some x" "\<exists>x. price_pairs (be_float env) as = Some x"
    if "be_decode env body = Inr (bs, as)" for body bs as
    using assms [OF that] by (auto simp: price_pairs)
  show ?case
    using Suc ok by (auto split: prod.splits rest_answer.splits sum.splits option.splits) (metis option.distinct(1))+
qed simp

lemma futures_book_never_panics:
  assumes "\<And>body bs as r. be_decode env body = Inr (bs, as) \<Longrightarrow> r \<in> set (bs @ as) \<Longrightarrow> price_row r"
  shows "futures_book_run n env s w \<noteq> Some (False, w')"
proof (induction n arbitrary: w)
  case (Suc n)
  then show ?case using book_attempts_panics [of env s book_retries None, OF assms]
    by (auto simp: futures_book_fetch_def split: prod.splits bool.splits book_fetch.splits)
qed simp

text \<open>
  C29. A tick of the futures order book collector whose answer has status 200 and decodes: when every
  row of both sides starts with two strings, the numbers of all rows are stored under the current time
  and the collector goes on; any other row is an unchecked type assertion or index that fails, and it
  ends the process, with nothing stored.
\<close>

theorem futures_book_tick:
  assumes "be_wait env second w = (False, w1)"
    and "be_http env futures_book_url [(''symbol'', bs_symbol s), (''limit'', ''20'')] w1 = (Answer 200 status body, w2)"
    and "be_decode env body = Inr (bs, as)"
  shows "futures_book_run (Suc n) env s w =
    (if list_all price_row (bs @ as)
     then (let (now, w3) = be_now env w2;
               ob = order_book_of env s ''futures'' now (map (row_prices (be_float env)) bs) (map (row_prices (be_float env)) as)
           in futures_book_run n env s (snd (be_insert env ob w3)))
     else Some (False, w2))"
  using assms
  by (auto simp: futures_book_fetch_def book_retries_def numeral_3_eq_3 list_all_iff price_pairs Let_def split: prod.splits)

text \<open>One well-formed snapshot is stored; one with a number where the price should be ends the process.\<close>

definition one_tick :: "json list \<Rightarrow> book_world book_env" where
  "one_tick row = ref_book_env\<lparr>be_wait := \<lambda>d w. (bw_offered w \<noteq> [], w), be_decode := \<lambda>body. Inr ([row], [])\<rparr>"

theorem futures_book_tick_witness:
  "(\<exists>w'. futures_book_run 2 (one_tick [J_Str ''1'', J_Str ''2'']) sample_books sample_feed = Some (True, w')
      \<and> length (bw_offered w') = 1)
   \<and> futures_book_run 2 (one_tick [J_Num 1, J_Str ''2'']) sample_books sample_feed = Some (False, sample_feed)"
proof -
  have tick: "be_wait (one_tick r) second sample_feed = (False, sample_feed)"
    "be_http (one_tick r) futures_book_url q sample_feed = (Answer 200 ''200 OK'' (''[]'', None), sample_feed)"
    "be_decode (one_tick r) b = Inr ([r], [])" for r q b
    by (simp_all add: one_tick_def ref_book_env_def sample_feed_def)
  have two: "2 = Suc 1" by simp
  show ?thesis
    unfolding two futures_book_tick [OF tick]
    by (auto simp: one_tick_def ref_book_env_def Let_def sample_feed_def split: prod.splits)
qed

end
