(* ===== verification/Service_Run.thy ===== *)
theory Service_Run
  imports Exchange_Build Kline_Feed Open_Interest Order_Books
begin

text \<open>
  What a collector that was built does when it runs: the adapters of
  \<open>internal/exchange/binance/scraper\<close> choose the collector of the market and hand the calls on to it.
  With the choice of collectors this connects the configuration with the bars in the store.
\<close>

record 'w service_env =
  sv_kline :: "'w collector_env"
  sv_kline_socket :: "'w socket_env"
  sv_book :: "'w book_env"
  sv_book_socket :: "'w socket_env"
  sv_funding :: "'w funding_env"
  sv_oi :: "'w oi_env"

definition market_name :: "market \<Rightarrow> string" where
  "market_name m = (case m of Spot \<Rightarrow> ''spot'' | Futures \<Rightarrow> ''futures'')"

text \<open>\<open>NewKlineScraperWithInterval\<close> and \<open>SetReverse\<close>, which are the same for both markets.\<close>

definition kline_collector :: "string \<Rightarrow> string \<Rightarrow> string \<Rightarrow> range \<Rightarrow> collector" where
  "kline_collector x ex i r =
     (case r of None \<Rightarrow> new_scraper x ex i | Some (a, b) \<Rightarrow> set_reverse a b (new_scraper x ex i))"

definition run_kline_scraper :: "nat \<Rightarrow> 'w service_env \<Rightarrow> string \<Rightarrow> market \<Rightarrow> string \<Rightarrow> string \<Rightarrow> range \<Rightarrow> 'w \<Rightarrow> 'w option" where
  "run_kline_scraper n env x m ex i r w =
     (if m = Futures then futures_run n (sv_kline env) (kline_collector x ex i r) w
      else spot_run n (sv_kline env) (sv_kline_socket env) (kline_collector x ex i r) w)"

text \<open>A futures order book collector that panics does not return: the process is gone.\<close>

definition run_book_scraper :: "nat \<Rightarrow> 'w service_env \<Rightarrow> string \<Rightarrow> market \<Rightarrow> string \<Rightarrow> 'w \<Rightarrow> 'w option" where
  "run_book_scraper n env x m ex w =
     (let s = \<lparr>bs_symbol = x, bs_market = market_name m, bs_exchange = ex\<rparr>
      in if m = Futures
         then (case futures_book_run n (sv_book env) s w of Some (True, w1) \<Rightarrow> Some w1 | _ \<Rightarrow> None)
         else spot_book_run n (sv_book env) (sv_book_socket env) s w)"

definition run_funding_scraper :: "nat \<Rightarrow> 'w service_env \<Rightarrow> string list \<Rightarrow> string \<Rightarrow> range \<Rightarrow> 'w \<Rightarrow> 'w option" where
  "run_funding_scraper n env xs ex r w =
     funding_run n (sv_funding env)
       (case r of None \<Rightarrow> new_funding_scraper xs ex | Some (a, b) \<Rightarrow> funding_set_reverse a b (new_funding_scraper xs ex)) w"

definition run_oi_scraper :: "nat \<Rightarrow> 'w service_env \<Rightarrow> string list \<Rightarrow> string \<Rightarrow> range \<Rightarrow> 'w \<Rightarrow> 'w option" where
  "run_oi_scraper n env xs ex r w =
     map_option snd (oi_run n (sv_oi env)
       (case r of None \<Rightarrow> new_oi_scraper xs ex | Some (a, b) \<Rightarrow> oi_set_reverse a b (new_oi_scraper xs ex)) ({}, w))"

fun run_scraper :: "nat \<Rightarrow> 'w service_env \<Rightarrow> scraper \<Rightarrow> 'w \<Rightarrow> 'w option" where
  "run_scraper n env (Kline_Scraper x m ex i r) w = run_kline_scraper n env x m ex i r w"
| "run_scraper n env (Order_Book_Scraper x m ex) w = run_book_scraper n env x m ex w"
| "run_scraper n env (Funding_Scraper xs ex r) w = run_funding_scraper n env xs ex r w"
| "run_scraper n env (Open_Interest_Scraper xs ex r) w = run_oi_scraper n env xs ex r w"

text \<open>\<open>KlineScraper.Stop\<close>.\<close>

definition stop_kline_scraper :: "'w stop_env \<Rightarrow> market \<Rightarrow> 'w \<Rightarrow> 'w" where
  "stop_kline_scraper env m w = (if m = Futures then futures_stop env w else spot_stop env w)"

subsection \<open>Lemmas: what a reverse run builds\<close>

lemma with_range_reverse:
  assumes "ck_parse env (rv_start_time rc) = Inr a" "ck_parse env (rv_end_time rc) = Inr b"
  shows "\<exists>v'. with_range env True rc mk v = (mk (Some (a, b)), v')"
  using assms by (simp add: with_range_def parse_reverse_range_def split: prod.split)

lemma build_intervals_reverse:
  assumes "ck_parse env (rv_start_time (rc_reverse cfg)) = Inr a" "ck_parse env (rv_end_time (rc_reverse cfg)) = Inr b"
  shows "fst (build_intervals env True cfg m x ivs v) = map (\<lambda>i. Kline_Scraper x m (rc_exchange_name cfg) i (Some (a, b))) ivs"
proof (induction ivs arbitrary: v)
  case (Cons i ivs)
  obtain v' where "with_range env True (rc_reverse cfg) (Kline_Scraper x m (rc_exchange_name cfg) i) v
      = (Kline_Scraper x m (rc_exchange_name cfg) i (Some (a, b)), v')" using with_range_reverse [OF assms] by blast
  with Cons [of v'] show ?case by (simp add: split_beta)
qed simp

lemma build_symbols_reverse:
  assumes "ck_parse env (rv_start_time (rc_reverse cfg)) = Inr a" "ck_parse env (rv_end_time (rc_reverse cfg)) = Inr b"
    and "x \<in> set xs" "i \<in> set ivs"
  shows "Kline_Scraper x m (rc_exchange_name cfg) i (Some (a, b)) \<in> set (fst (build_symbols env True cfg m True books ivs xs v))"
  using assms(3)
proof (induction xs arbitrary: v)
  case (Cons y ys)
  obtain ks v1 where k: "build_intervals env True cfg m y ivs v = (ks, v1)" by fastforce
  then have ks: "ks = map (\<lambda>i. Kline_Scraper y m (rc_exchange_name cfg) i (Some (a, b))) ivs"
    using build_intervals_reverse [OF assms(1,2), of m y ivs v] by simp
  obtain rest v2 where r: "build_symbols env True cfg m True books ivs ys v1 = (rest, v2)" by fastforce
  show ?case
  proof (cases "x = y")
    case True
    with ks assms(4) k r show ?thesis by simp
  next
    case False
    then have "Kline_Scraper x m (rc_exchange_name cfg) i (Some (a, b)) \<in> set rest"
      using Cons r by (metis fst_conv set_ConsD)
    with k r show ?thesis by simp
  qed
qed simp

subsection \<open>Properties\<close>

text \<open>
  C8. A reverse run of the service stores the history it is configured for: with spot bars switched on, the
  Binance adapter builds for each spot symbol and each interval a collector whose run ends, and by then
  every bar of the exchange that opens from the configured start up to, and not including, the
  configured end is stored, given an exchange and a store that answer.
\<close>

theorem reverse_service_stores_history:
  assumes "norm_lower (rc_mode cfg) = ''reverse''" and "rv_spot_kline (rc_reverse cfg)"
    and "ck_parse ck (rv_start_time (rc_reverse cfg)) = Inr a" and "ck_parse ck (rv_end_time (rc_reverse cfg)) = Inr b"
    and "x \<in> set (rc_spot_symbols cfg)" and "i \<in> set (intervals_of cfg)" and "i \<noteq> []"
    and "kline_exchange_up (sv_kline env) has_bar spot_rest_url x i grid clock"
    and "unix_milli b \<noteq> 0" and "unix_milli b \<le> clock w"
  shows "\<exists>s \<in> set (fst (binance_build ck cfg v)). \<exists>w'. run_scraper (length grid + 1) env s w = Some w'
    \<and> list_all (\<lambda>p. fst p < unix_milli a \<or> unix_milli b \<le> fst p
        \<or> bar_open_at has_bar (kline_collector x (rc_exchange_name cfg) i (Some (a, b))) ''spot'' w' (fst p)) grid"
proof -
  let ?c = "kline_collector x (rc_exchange_name cfg) i (Some (a, b))"
  let ?s = "Kline_Scraper x Spot (rc_exchange_name cfg) i (Some (a, b))"
  have c: "kc_symbol ?c = x" "kc_interval ?c = i" "kc_reverse ?c" "kc_start ?c = a" "kc_end ?c = b"
    using assms(7) by (simp_all add: kline_collector_def new_scraper_def set_reverse_def)
  have up: "kline_exchange_up (sv_kline env) has_bar spot_rest_url (kc_symbol ?c) (kc_interval ?c) grid clock"
    unfolding c by (rule assms(8))
  have "?s \<in> set (fst (build_symbols ck True cfg Spot True books (intervals_of cfg) (rc_spot_symbols cfg) v))" for books
    by (rule build_symbols_reverse [OF assms(3-6)])
  then have built: "?s \<in> set (fst (binance_build ck cfg v))"
    using assms(1,2) unfolding binance_build_def Let_def intervals_of_def
    by (fastforce simp: split_beta)
  obtain w' where run: "spot_reverse (length grid + 1) (sv_kline env) ?c w = Some (True, w')"
  proof -
    have "length (filter (\<lambda>p. unix_milli (kc_start ?c) \<le> fst p) grid) < length grid + 1"
      using length_filter_le [of _ grid] by (simp add: less_Suc_eq_le)
    from kline_exchange_up.reverse_loop_ends [OF up refl refl refl c(3) this, of "unix_milli b" w] assms(9,10) that show ?thesis
      by (auto simp: spot_reverse_def reverse_end_def c)
  qed
  have base: "kline_exchange (sv_kline env) has_bar spot_rest_url (kc_symbol ?c) (kc_interval ?c) grid clock"
    by (rule kline_exchange_up.axioms(1) [OF up])
  have "bar_open_at has_bar ?c ''spot'' w' (fst p)"
    if "p \<in> set grid" "unix_milli a \<le> fst p" "fst p < unix_milli b" for p
    using kline_exchange.spot_reverse_stores [OF base refl refl refl run] assms(9,10) that
    unfolding c kline_exchange.stored_upto_def [OF base] bar_open_at_has_open [OF base] by (simp add: c)
  then have "list_all (\<lambda>p. fst p < unix_milli a \<or> unix_milli b \<le> fst p \<or> bar_open_at has_bar ?c ''spot'' w' (fst p)) grid"
    unfolding list_all_iff by (metis not_le)
  moreover have "run_scraper (length grid + 1) env ?s w = Some w'"
    using run c(3) by (simp add: run_kline_scraper_def spot_run_def)
  ultimately show ?thesis using built by blast
qed

text \<open>The reference exchange of bars behind a service that collects \<open>btcusdt\<close> in reverse.\<close>

definition feed_service :: "feed service_env" where
  "feed_service = \<lparr>sv_kline = feed_env, sv_kline_socket = undefined, sv_book = undefined, sv_book_socket = undefined,
     sv_funding = undefined, sv_oi = undefined\<rparr>"

definition range_clock :: "unit clock_env" where
  "range_clock = \<lparr>ck_now = (\<lambda>w. (0, w)), ck_parse = (\<lambda>t. if t = ''from'' then Inr (of_unix_milli 1767225600000)
     else if t = ''to'' then Inr (of_unix_milli 1767225700000) else Inl (Err ''bad'')), ck_format = (\<lambda>t. [])\<rparr>"

definition reverse_runtime :: runtime_config where
  "reverse_runtime = \<lparr>rc_mode = ''reverse'', rc_exchange_name = ''binance'', rc_spot_symbols = [''ethusdt'', ''btcusdt''],
     rc_futures_symbols = [], rc_kline_intervals = [], rc_forward = ec_forward sample_exchange,
     rc_reverse = (ec_reverse sample_exchange)\<lparr>rv_spot_kline := True, rv_start_time := ''from'', rv_end_time := ''to''\<rparr>\<rparr>"

theorem reverse_service_stores_history_witness:
  "\<exists>s \<in> set (fst (binance_build range_clock reverse_runtime ())). \<exists>w'. run_scraper (length feed_grid + 1) feed_service s feed_start = Some w'
    \<and> bar_open_at (bar_stored feed_has_row) (kline_collector ''btcusdt'' ''binance'' ''1m''
        (Some (of_unix_milli 1767225600000, of_unix_milli 1767225700000))) ''spot'' w' 1767225660000"
proof -
  let ?a = "of_unix_milli 1767225600000" and ?b = "of_unix_milli 1767225700000"
  have cfg: "norm_lower (rc_mode reverse_runtime) = ''reverse''" "rv_spot_kline (rc_reverse reverse_runtime)"
    "ck_parse range_clock (rv_start_time (rc_reverse reverse_runtime)) = Inr ?a"
    "ck_parse range_clock (rv_end_time (rc_reverse reverse_runtime)) = Inr ?b"
    "''btcusdt'' \<in> set (rc_spot_symbols reverse_runtime)" "''1m'' \<in> set (intervals_of reverse_runtime)" "''1m'' \<noteq> []" by code_simp+
  have up: "kline_exchange_up (sv_kline feed_service) (bar_stored feed_has_row) spot_rest_url ''btcusdt'' ''1m'' feed_grid feed_clock"
    using feed.kline_exchange_up_axioms by (simp add: feed_service_def)
  have late: "unix_milli ?b \<noteq> 0" "unix_milli ?b \<le> feed_clock feed_start" by code_simp+
  have bar: "(1767225660000, 1767225719999) \<in> set feed_grid" "\<not> 1767225660000 < unix_milli ?a" "\<not> unix_milli ?b \<le> 1767225660000"
    by code_simp+
  have name: "rc_exchange_name reverse_runtime = ''binance''" by code_simp
  obtain s w' where s: "s \<in> set (fst (binance_build range_clock reverse_runtime ()))"
    "run_scraper (length feed_grid + 1) feed_service s feed_start = Some w'"
    "list_all (\<lambda>p. fst p < unix_milli ?a \<or> unix_milli ?b \<le> fst p
        \<or> bar_open_at (bar_stored feed_has_row) (kline_collector ''btcusdt'' ''binance'' ''1m'' (Some (?a, ?b))) ''spot'' w' (fst p)) feed_grid"
    using reverse_service_stores_history [OF cfg up late, of "()"] unfolding name by blast
  have "bar_open_at (bar_stored feed_has_row) (kline_collector ''btcusdt'' ''binance'' ''1m'' (Some (?a, ?b))) ''spot'' w' 1767225660000"
    using s(3) bar unfolding list_all_iff by (metis fst_conv)
  with s show ?thesis by blast
qed

end
