(* ===== verification/Http_Helpers.thy ===== *)
theory Http_Helpers
  imports Kline_Collectors
begin

text \<open>
  The shared helpers of \<open>internal/scraper/common/helpers.go\<close>: retrying a call, spacing calls in time, and
  the HTTP client that does the latter. The context, the clock and the waits are the fields of
  \<open>helper_env\<close>: \<open>hp_ended\<close> is the context's error if it is over, \<open>hp_wait\<close> waits for a duration unless
  the context ends before.
\<close>

record 'w helper_env =
  hp_ended :: "'w \<Rightarrow> go_error option \<times> 'w"
  hp_wait :: "duration \<Rightarrow> 'w \<Rightarrow> go_error option \<times> 'w"
  hp_now :: "'w \<Rightarrow> time \<times> 'w"

subsection \<open>Retrying\<close>

record retry_config =
  rt_max :: int
  rt_interval :: duration

definition default_retry_config :: retry_config where
  "default_retry_config = \<lparr>rt_max = 3, rt_interval = 1 * second\<rparr>"

fun retry_attempts ::
  "'w helper_env \<Rightarrow> duration \<Rightarrow> ('w \<Rightarrow> go_error option \<times> 'w) \<Rightarrow> nat \<Rightarrow> int \<Rightarrow> go_error option \<Rightarrow> 'w \<Rightarrow> go_error option \<times> 'w" where
  "retry_attempts env d fn 0 attempt last_err w = (last_err, w)"
| "retry_attempts env d fn (Suc left) attempt last_err w =
     (case hp_ended env w of
        (Some e, w1) \<Rightarrow> (Some e, w1)
      | (None, w1) \<Rightarrow>
        (case fn w1 of
           (None, w2) \<Rightarrow> (None, w2)
         | (Some e, w2) \<Rightarrow>
           if left = 0 then (Some e, w2)
           else (case hp_wait env (dur_mul (attempt + 1) d) w2 of
               (Some c, w3) \<Rightarrow> (Some c, w3)
             | (None, w3) \<Rightarrow> retry_attempts env d fn left (attempt + 1) (Some e) w3)))"

definition do_with_retry :: "'w helper_env \<Rightarrow> retry_config \<Rightarrow> ('w \<Rightarrow> go_error option \<times> 'w) \<Rightarrow> 'w \<Rightarrow> go_error option \<times> 'w" where
  "do_with_retry env cfg fn w = retry_attempts env (rt_interval cfg) fn (nat (rt_max cfg)) 0 None w"

subsection \<open>Spacing calls\<close>

record rate_limiter =
  rl_interval :: duration
  rl_last_call :: time

definition new_rate_limiter :: "duration \<Rightarrow> rate_limiter" where
  "new_rate_limiter d = \<lparr>rl_interval = d, rl_last_call = zero_time\<rparr>"

definition limiter_wait :: "'w helper_env \<Rightarrow> rate_limiter \<Rightarrow> 'w \<Rightarrow> go_error option \<times> rate_limiter \<times> 'w" where
  "limiter_wait env r w =
     (if is_zero (rl_last_call r)
      then (case hp_now env w of (t, w1) \<Rightarrow> (None, r\<lparr>rl_last_call := t\<rparr>, w1))
      else (case hp_now env w of
          (t, w1) \<Rightarrow>
            (let elapsed = time_sub t (rl_last_call r)
             in case (if elapsed < rl_interval r then hp_wait env (wrap64 (rl_interval r - elapsed)) w1 else (None, w1)) of
                  (Some e, w2) \<Rightarrow> (Some e, r, w2)
                | (None, w2) \<Rightarrow> (case hp_now env w2 of (t2, w3) \<Rightarrow> (None, r\<lparr>rl_last_call := t2\<rparr>, w3)))))"

record 'w http_client =
  hc_send :: "string \<Rightarrow> 'w \<Rightarrow> rest_answer \<times> 'w"
  hc_limiter :: "rate_limiter option"

definition new_http_client :: "(duration \<Rightarrow> string \<Rightarrow> 'w \<Rightarrow> rest_answer \<times> 'w) \<Rightarrow> duration \<Rightarrow> duration \<Rightarrow> 'w http_client" where
  "new_http_client send timeout d = \<lparr>hc_send = send timeout, hc_limiter = Some (new_rate_limiter d)\<rparr>"

definition http_do :: "'w helper_env \<Rightarrow> 'w http_client \<Rightarrow> string \<Rightarrow> 'w \<Rightarrow> rest_answer \<times> 'w http_client \<times> 'w" where
  "http_do env c req w =
     (case hc_limiter c of
        None \<Rightarrow> (case hc_send c req w of (a, w1) \<Rightarrow> (a, c, w1))
      | Some r \<Rightarrow>
        (case limiter_wait env r w of
           (Some e, r1, w1) \<Rightarrow> (No_Answer e, c\<lparr>hc_limiter := Some r1\<rparr>, w1)
         | (None, r1, w1) \<Rightarrow> (case hc_send c req w1 of (a, w2) \<Rightarrow> (a, c\<lparr>hc_limiter := Some r1\<rparr>, w2))))"

fun is_rate_limited :: "rest_answer \<Rightarrow> bool" where
  "is_rate_limited (Answer code status body) \<longleftrightarrow> code = 429"
| "is_rate_limited (No_Answer e) \<longleftrightarrow> False"

subsection \<open>Lemmas: retrying\<close>

text \<open>A function whose outcome depends on how often it was called, under a context that stays alive.\<close>

locale retry_world =
  fixes env :: "'w helper_env" and fn :: "'w \<Rightarrow> go_error option \<times> 'w" and calls :: "'w \<Rightarrow> nat"
    and outcome :: "nat \<Rightarrow> go_error option"
  assumes call: "\<exists>w'. fn w = (outcome (calls w), w') \<and> calls w' = Suc (calls w)"
    and alive: "\<exists>w'. hp_ended env w = (None, w') \<and> calls w' = calls w"
    and waits: "\<exists>w'. hp_wait env d w = (None, w') \<and> calls w' = calls w"
begin

lemma retry_attempts_outcome:
  assumes "0 < left"
  shows "\<exists>k w'. retry_attempts env d fn left attempt e w = (outcome (calls w + k), w') \<and> calls w' = calls w + k + 1
    \<and> k < left \<and> (\<forall>i < k. outcome (calls w + i) \<noteq> None) \<and> (outcome (calls w + k) = None \<or> k = left - 1)"
  using assms
proof (induction left arbitrary: attempt e w)
  case (Suc left)
  obtain w1 where w1: "hp_ended env w = (None, w1)" "calls w1 = calls w" using alive by blast
  obtain w2 where w2: "fn w1 = (outcome (calls w), w2)" "calls w2 = Suc (calls w)" using call [of w1] w1(2) by auto
  show ?case
  proof (cases "outcome (calls w) = None \<or> left = 0")
    case True
    then have "retry_attempts env d fn (Suc left) attempt e w = (outcome (calls w), w2)"
      using w1(1) w2(1) by (auto split: option.split)
    with w2(2) True show ?thesis by (intro exI [of _ 0] exI [of _ w2]) auto
  next
    case False
    then obtain x where x: "outcome (calls w) = Some x" by auto
    obtain w3 where w3: "hp_wait env (dur_mul (attempt + 1) d) w2 = (None, w3)" "calls w3 = Suc (calls w)"
      using waits [of "dur_mul (attempt + 1) d" w2] w2(2) by auto
    from Suc.IH [of "attempt + 1" "Some x" w3] False obtain k w' where
      ih: "retry_attempts env d fn left (attempt + 1) (Some x) w3 = (outcome (calls w3 + k), w')" "calls w' = calls w3 + k + 1"
        "k < left" "\<forall>i < k. outcome (calls w3 + i) \<noteq> None" "outcome (calls w3 + k) = None \<or> k = left - 1" by blast
    have "retry_attempts env d fn (Suc left) attempt e w = (outcome (calls w + Suc k), w')"
      using False w1(1) w2(1) w3 x ih(1) by simp
    moreover have "outcome (calls w + i) \<noteq> None" if "i < Suc k" for i
      using that ih(4) w3(2) x by (cases i) auto
    ultimately show ?thesis using ih w3(2) by (intro exI [of _ "Suc k"] exI [of _ w']) auto
  qed
qed simp

end

subsection \<open>Lemmas: spacing\<close>

locale steady_clock =
  fixes env :: "'w helper_env" and clock :: "'w \<Rightarrow> time"
  assumes now: "hp_now env w = (t, w') \<Longrightarrow> t = clock w \<and> clock w \<le> clock w'"
    and after_zero: "zero_time < clock w"
    and wait_full: "hp_wait env d w = (None, w') \<Longrightarrow> clock w + d \<le> clock w'"
    and wait_ends: "hp_wait env d w = (Some e, w') \<Longrightarrow> clock w \<le> clock w'"
begin

lemma limiter_wait_spaces:
  assumes "limiter_wait env r w = (None, r', w')" and "\<not> is_zero (rl_last_call r)"
    and "rl_last_call r \<le> clock w" and "rl_interval r \<le> max_int64"
  shows "rl_last_call r + rl_interval r \<le> rl_last_call r' \<and> clock w \<le> rl_last_call r'
    \<and> rl_last_call r' \<le> clock w' \<and> rl_interval r' = rl_interval r"
proof -
  obtain w1 where n1: "hp_now env w = (clock w, w1)" "clock w \<le> clock w1" using now [of w] by (cases "hp_now env w") auto
  let ?gap = "clock w - rl_last_call r"
  show ?thesis
  proof (cases "?gap < rl_interval r")
    case True
    have sub: "time_sub (clock w) (rl_last_call r) = ?gap" "wrap64 (rl_interval r - ?gap) = rl_interval r - ?gap"
      using True assms(3,4) by (auto simp: time_sub_def min_int64_def max_int64_def intro!: wrap64_id)
    with assms(1,2) n1(1) True obtain w2 where w2: "hp_wait env (rl_interval r - ?gap) w1 = (None, w2)"
      "(case hp_now env w2 of (t2, w3) \<Rightarrow> (None, r\<lparr>rl_last_call := t2\<rparr>, w3)) = (None :: go_error option, r', w')"
      by (auto simp: limiter_wait_def Let_def split: prod.splits option.splits)
    have "rl_last_call r + rl_interval r \<le> clock w2" "clock w \<le> clock w2"
      using wait_full [OF w2(1)] n1(2) True by simp_all
    with w2(2) now [of w2] show ?thesis by (auto split: prod.splits)
  next
    case False
    then have "\<not> time_sub (clock w) (rl_last_call r) < rl_interval r" using assms(3,4) by (simp add: time_sub_def min_int64_def)
    with assms(1,2) n1 have "(case hp_now env w1 of (t2, w3) \<Rightarrow> (None, r\<lparr>rl_last_call := t2\<rparr>, w3)) = (None :: go_error option, r', w')"
      by (auto simp: limiter_wait_def Let_def split: prod.splits option.splits)
    with now [of w1] n1(2) False show ?thesis by (auto split: prod.splits)
  qed
qed

lemma limiter_wait_first:
  "limiter_wait env r w = (None, r', w') \<Longrightarrow> is_zero (rl_last_call r) \<Longrightarrow>
    rl_last_call r' = clock w \<and> clock w \<le> clock w' \<and> rl_interval r' = rl_interval r"
  using now [of w] by (auto simp: limiter_wait_def split: prod.splits)

end

text \<open>The times at which successive calls are let through, each followed by some work; a wait that the
  context ends is the last.\<close>

fun let_through :: "'w helper_env \<Rightarrow> rate_limiter \<Rightarrow> ('w \<Rightarrow> 'w) list \<Rightarrow> 'w \<Rightarrow> time list" where
  "let_through env r [] w = []"
| "let_through env r (f # fs) w =
     (case limiter_wait env r w of
        (Some e, r1, w1) \<Rightarrow> []
      | (None, r1, w1) \<Rightarrow> rl_last_call r1 # let_through env r1 fs (f w1))"

context steady_clock
begin

lemma let_through_spaced:
  assumes "rl_interval r \<le> max_int64" "\<forall>f \<in> set fs. \<forall>w. clock w \<le> clock (f w)"
    and "is_zero (rl_last_call r) \<or> rl_last_call r \<le> clock w"
  shows "sorted_wrt (\<lambda>s t. s + rl_interval r \<le> t) (let_through env r fs w)
    \<and> (\<forall>t \<in> set (let_through env r fs w). clock w \<le> t \<and> (is_zero (rl_last_call r) \<or> rl_last_call r + rl_interval r \<le> t))"
  using assms
proof (induction fs arbitrary: r w)
  case (Cons f fs)
  show ?case
  proof (cases "\<exists>r1 w1. limiter_wait env r w = (None, r1, w1)")
    case True
    then obtain r1 w1 where l: "limiter_wait env r w = (None, r1, w1)" by blast
    have r1: "clock w \<le> rl_last_call r1" "rl_last_call r1 \<le> clock w1" "rl_interval r1 = rl_interval r"
      "is_zero (rl_last_call r) \<or> rl_last_call r + rl_interval r \<le> rl_last_call r1"
      using limiter_wait_spaces [OF l] limiter_wait_first [OF l] Cons.prems
      by (cases "is_zero (rl_last_call r)"; simp)+
    have nz: "\<not> is_zero (rl_last_call r1)" using r1(1) after_zero [of w] by (simp add: is_zero_def)
    have w1: "clock w1 \<le> clock (f w1)" using Cons.prems(2) by simp
    note ih = Cons.IH [of r1 "f w1"]
    have ih': "sorted_wrt (\<lambda>s t. s + rl_interval r \<le> t) (let_through env r1 fs (f w1))"
      "\<forall>t \<in> set (let_through env r1 fs (f w1)). clock (f w1) \<le> t \<and> rl_last_call r1 + rl_interval r \<le> t"
      using ih Cons.prems r1 nz w1 by auto
    have "clock w \<le> t" "is_zero (rl_last_call r) \<or> rl_last_call r + rl_interval r \<le> t"
      if "t \<in> set (let_through env r1 fs (f w1))" for t
    proof -
      have "rl_last_call r1 \<le> t" using ih'(2) that r1(2) w1 by (meson order_trans)
      then show "clock w \<le> t" "is_zero (rl_last_call r) \<or> rl_last_call r + rl_interval r \<le> t" using r1(1,4) by linarith+
    qed
    with ih' r1 l show ?thesis by simp
  next
    case False
    then show ?thesis by (auto split: prod.splits option.splits)
  qed
qed simp

end

subsection \<open>A reference clock\<close>

record helper_world =
  hw_clock :: time
  hw_calls :: nat

definition ref_helpers :: "helper_world helper_env" where
  "ref_helpers = \<lparr>hp_ended = (\<lambda>w. (None, w)),
     hp_wait = (\<lambda>d w. (None, w\<lparr>hw_clock := max 0 (hw_clock w) + max 0 d\<rparr>)),
     hp_now = (\<lambda>w. (max 0 (hw_clock w), w))\<rparr>"

definition fails_until :: "nat \<Rightarrow> nat \<Rightarrow> go_error option" where
  "fails_until n i = (if i < n then Some (Err ''busy'') else None)"

definition counted :: "(nat \<Rightarrow> go_error option) \<Rightarrow> helper_world \<Rightarrow> go_error option \<times> helper_world" where
  "counted outcome w = (outcome (hw_calls w), w\<lparr>hw_calls := hw_calls w + 1\<rparr>)"

interpretation ref_retry: retry_world ref_helpers "counted outcome" hw_calls outcome for outcome
  by unfold_locales (auto simp: counted_def ref_helpers_def)

interpretation ref_clock: steady_clock ref_helpers "\<lambda>w. max 0 (hw_clock w)"
  by unfold_locales (auto simp: ref_helpers_def zero_time_def max_def split: if_splits)

subsection \<open>Properties\<close>

text \<open>
  \<open>DoWithRetry\<close> under a context that stays alive: with at least one retry allowed it calls the function
  until the first success, at most \<open>MaxRetries\<close> times, and its result is the outcome of the last call;
  with none it reports success without ever calling it.
\<close>

theorem do_with_retry_outcome:
  assumes "retry_world env fn calls outcome"
  shows "\<exists>k w'. do_with_retry env cfg fn w = (if rt_max cfg \<le> 0 then None else outcome (calls w + k), w')
    \<and> calls w' = (if rt_max cfg \<le> 0 then calls w else calls w + k + 1)
    \<and> list_all (\<lambda>i. outcome (calls w + i) \<noteq> None) [0..<k]
    \<and> (rt_max cfg \<le> 0 \<or> int k < rt_max cfg \<and> (outcome (calls w + k) = None \<or> int k = rt_max cfg - 1))"
proof (cases "rt_max cfg \<le> 0")
  case True
  then show ?thesis by (intro exI [of _ 0] exI [of _ w]) (simp add: do_with_retry_def)
next
  case False
  then have "0 < nat (rt_max cfg)" by simp
  from retry_world.retry_attempts_outcome [OF assms this, of "rt_interval cfg" 0 None w] obtain k w' where
    "retry_attempts env (rt_interval cfg) fn (nat (rt_max cfg)) 0 None w = (outcome (calls w + k), w')" "calls w' = calls w + k + 1"
    "k < nat (rt_max cfg)" "\<forall>i < k. outcome (calls w + i) \<noteq> None" "outcome (calls w + k) = None \<or> k = nat (rt_max cfg) - 1" by blast
  with False show ?thesis
    by (intro exI [of _ k] exI [of _ w']) (auto simp: do_with_retry_def list_all_iff)
qed

theorem do_with_retry_outcome_witness:
  "\<exists>w'. do_with_retry ref_helpers default_retry_config (counted (fails_until 2)) \<lparr>hw_clock = 0, hw_calls = 0\<rparr> = (None, w') \<and> hw_calls w' = 3"
proof -
  let ?w = "\<lparr>hw_clock = 0, hw_calls = 0\<rparr>"
  obtain k w' where k: "do_with_retry ref_helpers default_retry_config (counted (fails_until 2)) ?w = (fails_until 2 (0 + k), w')"
    "hw_calls w' = 0 + k + 1" "list_all (\<lambda>i. fails_until 2 (0 + i) \<noteq> None) [0..<k]"
    "int k < 3 \<and> (fails_until 2 (0 + k) = None \<or> int k = 3 - 1)"
    using do_with_retry_outcome [OF ref_retry.retry_world_axioms, where outcome = "fails_until 2" and cfg = default_retry_config and w = ?w]
    by (auto simp: default_retry_config_def)
  have "k = 2" using k(4) by (auto simp: fails_until_def split: if_splits)
  with k show ?thesis by (simp add: fails_until_def)
qed

text \<open>
  C40. The rate limiter keeps its distance: however long the work between them takes, any two calls it
  lets through are at least the interval apart, on a clock that does not go back and whose waits last
  as long as they were asked to.
\<close>

theorem rate_limiter_spaces_calls:
  assumes "steady_clock env clock" and "d \<le> max_int64" and "\<forall>f \<in> set fs. \<forall>w. clock w \<le> clock (f w)"
  shows "sorted_wrt (\<lambda>s t. s + d \<le> t) (let_through env (new_rate_limiter d) fs w)"
  using steady_clock.let_through_spaced [OF assms(1), of "new_rate_limiter d" fs w] assms(2,3)
  by (simp add: new_rate_limiter_def is_zero_def)

text \<open>A second between calls; the work between the second and the third takes three.\<close>

definition work :: "duration \<Rightarrow> helper_world \<Rightarrow> helper_world" where
  "work d w = w\<lparr>hw_clock := max 0 (hw_clock w) + max 0 d\<rparr>"

theorem rate_limiter_spaces_calls_witness:
  "let_through ref_helpers (new_rate_limiter second) [work 0, work (3 * second), work 0] \<lparr>hw_clock = 0, hw_calls = 0\<rparr>
     = [0, second, 4 * second]
   \<and> sorted_wrt (\<lambda>s t. s + second \<le> t)
      (let_through ref_helpers (new_rate_limiter second) [work 0, work (3 * second), work 0] \<lparr>hw_clock = 0, hw_calls = 0\<rparr>)"
proof -
  let ?fs = "[work 0, work (3 * second), work 0]"
  have "second \<le> max_int64" by (simp add: second_def max_int64_def)
  moreover have "\<forall>f \<in> set ?fs. \<forall>w. max 0 (hw_clock w) \<le> max 0 (hw_clock (f w))" by (auto simp: work_def second_def max_def)
  ultimately have "sorted_wrt (\<lambda>s t. s + second \<le> t) (let_through ref_helpers (new_rate_limiter second) ?fs \<lparr>hw_clock = 0, hw_calls = 0\<rparr>)"
    by (rule rate_limiter_spaces_calls [OF ref_clock.steady_clock_axioms])
  moreover have "let_through ref_helpers (new_rate_limiter second) ?fs \<lparr>hw_clock = 0, hw_calls = 0\<rparr> = [0, second, 4 * second]"
    by code_simp
  ultimately show ?thesis by simp
qed

end
