(* ===== verification/Backfill_Command.thy ===== *)
theory Backfill_Command
  imports Service_Config Backfill_Sound
begin

text \<open>
  The back-fill command (\<open>cmd/backfill/main.go\<close>) and \<open>LoadConfig\<close> (\<open>internal/config/config.go\<close>): the flags,
  the configuration, the range, one request. The file system, YAML, the clock, \<open>time.Parse\<close> with the
  RFC 3339 layout and the back-fill itself are the fields of \<open>command_env\<close>. \<open>log.Fatalf\<close> exits with 1.
\<close>

record backfill_flags =
  bf_config :: string
  bf_symbol :: string
  bf_market :: string
  bf_interval :: string
  bf_start :: string
  bf_end :: string

record 'w command_env =
  cm_read_file :: "string \<Rightarrow> 'w \<Rightarrow> string res \<times> 'w"
  cm_yaml :: "string \<Rightarrow> config res"
  cm_now :: "'w \<Rightarrow> time \<times> 'w"
  cm_rfc3339 :: "string \<Rightarrow> time res"
  cm_backfill :: "database_config \<Rightarrow> kline_request \<Rightarrow> 'w \<Rightarrow> coverage_segment list res \<times> 'w"

datatype exit_status = Exit_Usage | Exit_Fatal go_error | Exit_Done

definition load_config :: "'w command_env \<Rightarrow> string \<Rightarrow> 'w \<Rightarrow> config res \<times> 'w" where
  "load_config env path w =
     (case cm_read_file env path w of
        (Inl e, w1) \<Rightarrow> (Inl (Wrapped ''failed to read config file'' e), w1)
      | (Inr text, w1) \<Rightarrow>
        (case cm_yaml env text of
           Inl e \<Rightarrow> (Inl (Wrapped ''failed to parse config file'' e), w1)
         | Inr c \<Rightarrow>
           (case validate_config c of
              Inl e \<Rightarrow> (Inl (Wrapped ''config validation failed'' e), w1)
            | Inr v \<Rightarrow> (Inr v, w1))))"

definition parse_millis :: "string \<Rightarrow> int res" where
  "parse_millis raw = as_res (parse_int64 (trim_space raw))"

definition parse_command_time :: "'w command_env \<Rightarrow> string \<Rightarrow> time res" where
  "parse_command_time env raw =
     (case parse_millis raw of Inr ms \<Rightarrow> Inr (of_unix_milli ms) | Inl _ \<Rightarrow> cm_rfc3339 env raw)"

definition command_request :: "backfill_flags \<Rightarrow> time \<Rightarrow> time \<Rightarrow> kline_request" where
  "command_request f a b = \<lparr>rq_exchange = ''binance'', rq_market = bf_market f, rq_symbol = to_upper (trim_space (bf_symbol f)),
     rq_interval = bf_interval f, rq_start = a, rq_end = b\<rparr>"

definition backfill_command :: "'w command_env \<Rightarrow> backfill_flags \<Rightarrow> 'w \<Rightarrow> exit_status \<times> 'w" where
  "backfill_command env f w =
     (if bf_symbol f = [] \<or> bf_market f = [] \<or> bf_start f = [] then (Exit_Usage, w)
      else (case load_config env (bf_config f) w of
          (Inl e, w1) \<Rightarrow> (Exit_Fatal (Wrapped ''load config'' e), w1)
        | (Inr c, w1) \<Rightarrow>
          if \<not> ec_enabled (cf_binance c) then (Exit_Fatal (Err ''exchanges.binance.enabled must be true in config''), w1)
          else (case parse_command_time env (bf_start f) of
              Inl e \<Rightarrow> (Exit_Fatal (Wrapped ''parse -start'' e), w1)
            | Inr a \<Rightarrow>
              (case cm_now env w1 of
                 (now, w2) \<Rightarrow>
                   (case (if trim_space (bf_end f) \<noteq> [] then parse_command_time env (bf_end f) else Inr now) of
                      Inl e \<Rightarrow> (Exit_Fatal (Wrapped ''parse -end'' e), w2)
                    | Inr b \<Rightarrow>
                      (case cm_backfill env (ec_database (cf_binance c)) (command_request f a b) w2 of
                         (Inl e, w3) \<Rightarrow> (Exit_Fatal (Wrapped ''backfill'' e), w3)
                       | (Inr segs, w3) \<Rightarrow> (Exit_Done, w3)))))))"

text \<open>The back-fill of this library behind the command.\<close>

definition command_backfill ::
  "'w rest_env \<Rightarrow> float_parser \<Rightarrow> ('st, 'w) admin_env \<Rightarrow> database_config \<Rightarrow> kline_request \<Rightarrow> 'w \<Rightarrow> coverage_segment list res \<times> 'w" where
  "command_backfill env pf adm db = run_kline_request env pf adm (dc_dbname db)"

subsection \<open>Lemmas\<close>

lemma load_config_valid: "load_config env path w = (Inr c, w') \<Longrightarrow> \<exists>c0. validate_config c0 = Inr c"
  by (auto simp: load_config_def split: prod.splits sum.splits)

text \<open>
  A command that ends without an error has run one request, with a valid configuration that has Binance
  enabled, on the configured database template, from the parsed start to the parsed end.
\<close>

lemma backfill_command_done:
  assumes "backfill_command env f w = (Exit_Done, w')"
  obtains c0 c a b w1 w2 segs where "validate_config c0 = Inr c" "ec_enabled (cf_binance c)"
    "parse_command_time env (bf_start f) = Inr a"
    "if trim_space (bf_end f) \<noteq> [] then parse_command_time env (bf_end f) = Inr b else b = fst (cm_now env w1)"
    "cm_backfill env (ec_database (cf_binance c)) (command_request f a b) w2 = (Inr segs, w')"
proof -
  obtain l w1 where l: "load_config env (bf_config f) w = (l, w1)" by fastforce
  obtain now w2 where n: "cm_now env w1 = (now, w2)" by fastforce
  obtain c where c: "l = Inr c" "ec_enabled (cf_binance c)" using assms l by (auto simp: backfill_command_def split: if_splits sum.splits)
  obtain c0 where c0: "validate_config c0 = Inr c" using load_config_valid l c(1) by metis
  obtain a where a: "parse_command_time env (bf_start f) = Inr a"
    using assms l c by (auto simp: backfill_command_def split: if_splits sum.splits)
  obtain b where b: "(if trim_space (bf_end f) \<noteq> [] then parse_command_time env (bf_end f) else Inr now) = Inr b"
    using assms l c a n by (cases "if trim_space (bf_end f) \<noteq> [] then parse_command_time env (bf_end f) else Inr now")
      (auto simp: backfill_command_def split: if_splits)
  obtain segs where "cm_backfill env (ec_database (cf_binance c)) (command_request f a b) w2 = (Inr segs, w')"
    using assms l c a n b by (auto simp: backfill_command_def split: if_splits sum.splits prod.splits)
  moreover have "if trim_space (bf_end f) \<noteq> [] then parse_command_time env (bf_end f) = Inr b else b = fst (cm_now env w1)"
    using b n by (simp split: if_splits)
  ultimately show thesis using that c0 c a by blast
qed

text \<open>With the back-fill of this library: only a request that validates gets through.\<close>

lemma backfill_command_valid:
  assumes "backfill_command env f w = (Exit_Done, w')" and "cm_backfill env = command_backfill renv pf adm"
  shows "\<exists>a b. parse_command_time env (bf_start f) = Inr a
    \<and> validate_kline_request (normalize_kline_request (command_request f a b)) = None"
proof -
  obtain c :: config and a b w2 segs where "parse_command_time env (bf_start f) = Inr a"
    "cm_backfill env (ec_database (cf_binance c)) (command_request f a b) w2 = (Inr segs, w')"
    by (rule backfill_command_done [OF assms(1)])
  then show ?thesis
    by (auto simp: assms(2) command_backfill_def run_kline_request_def Let_def split: option.splits if_splits)
qed

end
