(* ===== verification/Log_Lines.thy ===== *)
theory Log_Lines
  imports Go_Strings Prelude "HOL-Library.List_Lexorder" "HOL-Library.Char_ord" "HOL-Library.Multiset"
begin

text \<open>
  The log lines of the service (\<open>internal/logger\<close>): the text of an event with its fields, the level it is
  written at, and the entry handed to the log library, which is outside the repository. The session id is
  the package variable that \<open>Init\<close> sets. A field's value is the text that \<open>%v\<close> makes of it.
\<close>

type_synonym fields = "(string \<times> string) list" \<comment> \<open>a Go map in the order in which it is ranged over\<close>

definition log_pair :: "string \<Rightarrow> string \<Rightarrow> string" where
  "log_pair k v = k @ ''='' @ v"

definition format_event :: "string \<Rightarrow> fields \<Rightarrow> string" where
  "format_event event fs =
     (if fs = [] then log_pair ''event'' event
      else join '' '' (log_pair ''event'' event # map (\<lambda>k. log_pair k (the (map_of fs k))) (sort (map fst fs))))"

datatype log_level = Log_Error | Log_Warn | Log_Info

record log_entry =
  le_session :: "string option" \<comment> \<open>the session id in the context, if there is one\<close>
  le_type :: string
  le_level :: log_level
  le_message :: string

definition with_session_id :: "string \<Rightarrow> string option" where
  "with_session_id sid = (if sid = [] then None else Some sid)"

definition log_line :: "string \<Rightarrow> string \<Rightarrow> log_level \<Rightarrow> string \<Rightarrow> log_entry" where
  "log_line sid logger level msg =
     \<lparr>le_session = with_session_id sid, le_type = logger, le_level = level, le_message = msg\<rparr>"

definition event_level :: "string \<Rightarrow> log_level" where
  "event_level level =
     (if to_upper level = ''ERROR'' then Log_Error else if to_upper level = ''WARN'' then Log_Warn else Log_Info)"

definition websocket_event :: "string \<Rightarrow> string \<Rightarrow> string \<Rightarrow> fields \<Rightarrow> log_entry" where
  "websocket_event sid level event fs = log_line sid ''websocket'' (event_level level) (format_event event fs)"

definition ext_api_event :: "string \<Rightarrow> string \<Rightarrow> string \<Rightarrow> fields \<Rightarrow> log_entry" where
  "ext_api_event sid level event fs = log_line sid ''ext_api'' (event_level level) (format_event event fs)"

definition lifecycle_event :: "string \<Rightarrow> string \<Rightarrow> string \<Rightarrow> fields \<Rightarrow> log_entry" where
  "lifecycle_event sid level event fs = log_line sid ''root'' (event_level level) (format_event event fs)"

definition system_lifecycle :: "string \<Rightarrow> string \<Rightarrow> fields \<Rightarrow> log_entry" where
  "system_lifecycle sid event fs = log_line sid ''system'' Log_Info (format_event event fs)"

definition system_warning :: "string \<Rightarrow> string \<Rightarrow> fields \<Rightarrow> log_entry" where
  "system_warning sid event fs = log_line sid ''system'' Log_Warn (format_event event fs)"

definition system_error :: "string \<Rightarrow> string \<Rightarrow> fields \<Rightarrow> log_entry" where
  "system_error sid event fs = log_line sid ''system'' Log_Error (format_event event fs)"

definition plugin_fields :: "string \<Rightarrow> string \<Rightarrow> string \<Rightarrow> string \<Rightarrow> fields" where
  "plugin_fields knd market symbol direction =
     [(''kind'', knd), (''market'', market), (''symbol'', symbol), (''direction'', direction)]"

definition plugin_started :: "string \<Rightarrow> string \<Rightarrow> string \<Rightarrow> string \<Rightarrow> string \<Rightarrow> log_entry" where
  "plugin_started sid knd market symbol direction =
     log_line sid ''root'' Log_Info (format_event ''plugin_started'' (plugin_fields knd market symbol direction))"

definition plugin_stopped :: "string \<Rightarrow> string \<Rightarrow> string \<Rightarrow> string \<Rightarrow> string \<Rightarrow> log_entry" where
  "plugin_stopped sid knd market symbol direction =
     log_line sid ''root'' Log_Info (format_event ''plugin_stopped'' (plugin_fields knd market symbol direction))"

text \<open>
  \<open>Init\<close> hands the configuration to the library through a temporary file, whose name and content are
  arguments here; the session id is set only when the library accepted it.
\<close>

record 'w log_setup =
  lu_create :: "'w \<Rightarrow> string res \<times> 'w" \<comment> \<open>\<open>os.CreateTemp\<close>\<close>
  lu_write :: "string \<Rightarrow> string \<Rightarrow> 'w \<Rightarrow> go_error option \<times> 'w"
  lu_init :: "string \<Rightarrow> 'w \<Rightarrow> go_error option \<times> 'w"
  lu_remove :: "string \<Rightarrow> 'w \<Rightarrow> 'w"

definition logger_init :: "'w log_setup \<Rightarrow> string res \<Rightarrow> string \<Rightarrow> string \<times> 'w \<Rightarrow> go_error option \<times> string \<times> 'w" where
  "logger_init lu marshalled sid st =
     (case marshalled of
        Inl e \<Rightarrow> (Some e, st)
      | Inr text \<Rightarrow>
        (case lu_create lu (snd st) of
           (Inl e, w1) \<Rightarrow> (Some e, fst st, w1)
         | (Inr file, w1) \<Rightarrow>
           (case lu_write lu file text w1 of
              (Some e, w2) \<Rightarrow> (Some e, fst st, lu_remove lu file w2)
            | (None, w2) \<Rightarrow>
              (case lu_init lu file w2 of
                 (Some e, w3) \<Rightarrow> (Some e, fst st, lu_remove lu file w3)
               | (None, w3) \<Rightarrow> (None, sid, lu_remove lu file w3)))))"

subsection \<open>Lemmas\<close>

text \<open>The text of an event does not depend on the order in which Go ranges over its fields.\<close>

lemma format_event_order:
  assumes "distinct (map fst fs)" "mset fs = mset gs"
  shows "format_event event fs = format_event event gs"
proof -
  have keys: "mset (map fst fs) = mset (map fst gs)" using assms(2) by (metis mset_map)
  then have "distinct (map fst gs)" using assms(1) by (metis mset_eq_imp_distinct_iff)
  moreover have "set fs = set gs" using assms(2) by (metis set_mset_mset)
  ultimately have "map_of fs = map_of gs" using assms(1) by (metis map_of_inject_set)
  moreover have "sort (map fst fs) = sort (map fst gs)"
    by (rule properties_for_sort) (simp_all add: assms(2) [symmetric])
  moreover have "fs = [] \<longleftrightarrow> gs = []" using assms(2) by auto
  ultimately show ?thesis by (simp add: format_event_def)
qed

text \<open>A logger that could not be initialised keeps the session id it had.\<close>

lemma failed_init_keeps_session:
  "logger_init lu m sid (old, w) = (Some e, sid', w') \<Longrightarrow> sid' = old"
  by (auto simp: logger_init_def split: sum.splits prod.splits option.splits)

lemma plugin_started_text:
  "le_message (plugin_started sid ''kline'' ''spot'' ''BTCUSDT'' ''forward'')
     = ''event=plugin_started direction=forward kind=kline market=spot symbol=BTCUSDT''"
  by code_simp

end
