(* ===== verification/Spec2Isabelle.thy ===== *)
theory Spec2Isabelle
  imports Service_Main Service_Run Storage_Read Http_Helpers Backfill_Command Log_Lines
begin

text \<open>
  \<^bold>\<open>The market-data scraper.\<close> The program collects market data of crypto exchanges (bars, order books,
  funding rates, open interest) over REST and web sockets, stores them in one TimescaleDB database for each
  exchange and year, and publishes live bars on Kafka. Three commands share the code:
  \<open>cmd/scraper\<close> runs the service, forward (live) or reverse (a range of the past), by its configuration
  alone or under a control plane that lists the wanted streams and historical requests over gRPC;
  \<open>cmd/backfill\<close> back-fills one range of bars; \<open>cmd/ensure-scraper-db\<close> creates and migrates the databases.

  \<^bold>\<open>How the parts interact.\<close> A collector fetches, parses and hands rows to the store, and forward
  bars to the publisher. The service's store is the write router: it splits a batch by the lease domain of each
  row (exchange, market, kind, symbol, interval, year), obtains a lease from the control plane, opens the store
  of the year and writes. The live runtime keeps one collector for each stream that is wanted and reports its
  state; the history runtime gives each historical request a worker that checks the coverage, back-fills,
  reports the segments and checks again.

  \<^bold>\<open>What the theories model\<close> (files under \<open>src/\<close>; a definition has the name of the Go function in snake case,
  with the package's prefix where two packages use one name; the records are the Go structs):

  \<^item> \<open>Prelude\<close>, \<open>Go_Strings\<close>, \<open>Go_Time\<close>: Go errors and results, the functions of \<open>strings\<close>, \<open>strconv\<close>, \<open>fmt\<close> and
    \<open>time\<close> that the program uses. An instant is a number of nanoseconds, a duration wraps at 64 bits, the calendar
    is the proleptic Gregorian one; the locale \<open>calendar\<close> states what the components need of it. Letters are
    those of ASCII, also in symbols, where the code keeps every letter of Unicode.
  \<^item> \<open>Models\<close>: \<open>internal/models/models.go\<close> and the conversions of JSON values.
  \<^item> \<open>Storage_Names\<close>, \<open>Storage_Timescale\<close>, \<open>Storage_Read\<close>, \<open>Schema_Migrations\<close>:
    \<open>internal/storage/timescale.go\<close>: names of tables and databases; the inserts, which create a missing table
    and try again; opening, closing and the range query of funding rates (\<open>None\<close> when a routed store
    dereferences its nil connection); the migrations of the service and of
    \<open>cmd/ensure-scraper-db/main.go\<close>. The last three talk to a database that is an argument.
  \<^item> \<open>Storage_Router\<close>: \<open>internal/storage/write_router.go\<close>. The state is the map of opened stores; \<open>store_for\<close>
    releases its mutex to open a store, and what other goroutines insert meanwhile is an argument.
  \<^item> \<open>Backfill_Windows\<close>, \<open>Backfill_Coverage\<close>, \<open>Backfill_Run\<close>, \<open>Backfill_Sound\<close>, \<open>Backfill_Verify\<close>: \<open>internal/backfill\<close>:
    normalisation and validation of a request, its year windows, coverage segments, paging with retries,
    back-filling a request, and the coverage check. \<open>Backfill_Command\<close>: \<open>cmd/backfill/main.go\<close> and the
    loading of the configuration.
  \<^item> \<open>Marketdata\<close>, \<open>Kline_Collectors\<close>, \<open>Kline_Sound\<close>, \<open>Kline_Feed\<close>: \<open>internal/marketdata\<close>,
    \<open>internal/scraper/spotkline\<close>, \<open>internal/scraper/futureskline\<close>: the publisher and its gate, the bar collectors,
    their lemmas over an abstract exchange, and the reference feed that meets it with the properties.
  \<^item> \<open>Order_Books\<close>: \<open>internal/scraper/spotorderbook\<close> and \<open>futuresorderbook\<close>. \<open>Funding_Rates\<close>:
    \<open>internal/scraper/fundingrate\<close>. \<open>Open_Interest\<close>: \<open>internal/exchange/binance/scraper/openinterest.go\<close>.
  \<^item> \<open>Http_Helpers\<close>: \<open>internal/scraper/common/helpers.go\<close> (retry, rate limiter, HTTP client).
  \<^item> \<open>Service_Config\<close>: \<open>internal/config/config.go\<close> and the database targets of \<open>cmd/ensure-scraper-db/main.go\<close>.
    \<open>Exchange_Build\<close>: which collectors the service builds (\<open>internal/scraper/common/plan.go\<close>, \<open>planner.go\<close>,
    \<open>internal/exchange\<close>, \<open>cmd/scraper/main.go\<close>). \<open>Service_Run\<close>: what a built collector does when it runs (the
    adapters of \<open>internal/exchange/binance/scraper\<close>).
  \<^item> \<open>Control_Types\<close>, \<open>Control_Client\<close>, \<open>Control_Live\<close>, \<open>Control_History\<close>, \<open>Control_Run\<close>:
    \<open>internal/controlplane\<close>: messages and the lease manager; the gRPC client; the handles, observers and
    collector goroutines of the live runtime; the workers of the history runtime; construction, \<open>Run\<close>,
    \<open>Stop\<close> and shutdown of both with the wiring by \<open>cmd/scraper/main.go\<close>.
  \<^item> \<open>Service_Main\<close>: the process: what \<open>cmd/scraper/main.go\<close> sets up, how it starts its parts, takes the signal and
    shuts down, and the runner of \<open>internal/scraper/common/runner.go\<close>. \<open>Log_Lines\<close>: the log lines of \<open>internal/logger\<close>.

  \<^bold>\<open>What lies outside.\<close> HTTP, web sockets, gRPC stubs, the Kafka producer, the SQL driver, the file system, JSON
  and YAML decoding, \<open>strconv.ParseFloat\<close>, RFC 3339 parsing, clocks and waits are not in the repository: they
  are fields of environment records (\<open>rest_env\<close>, \<open>admin_env\<close>, \<open>collector_env\<close>, \<open>socket_env\<close>, \<open>router_env\<close>,
  \<open>runtime_env\<close> and so on), functions on a world \<open>'w\<close> that is threaded through every call, so that an
  answer may depend on all calls before it. What a proof needs of them is the \<open>assumes\<close> of a locale, an
  interface with one reference implementation on which it is interpreted: \<open>sql_store\<close> and \<open>sql_store_up\<close> (rows
  persist, an accepted insert is stored), \<open>kline_sink\<close>, \<open>year_stores\<close>, \<open>rest_backfill\<close>, \<open>coverage_reader\<close>,
  \<open>year_router\<close>, \<open>kline_exchange\<close> and \<open>kline_exchange_up\<close> (a page is the part of a grid of bars that was asked
  for), \<open>rate_source\<close> and \<open>rate_source_up\<close>, \<open>oi_world\<close> and \<open>oi_clock\<close>, \<open>book_feed\<close>, \<open>funding_reader\<close>, \<open>migration_db\<close>
  (transactions are atomic), \<open>wire_log\<close>, \<open>retry_world\<close>, \<open>steady_clock\<close>. The interfaces of stores are interpreted on
  the model's own inserts, queries and migration runners.

  \<^bold>\<open>What the theorems show.\<close>

  \<^item> Storage: bars share a table exactly when market, letters and digits of the symbol, and interval agree up to
    case; the writer's and the back-fill's database names agree; a batch without an error leaves each bar in
    the database of its exchange and year; a failing batch leaves a prefix of its groups and nothing after it;
    while the router has a lease manager no write happens without a live lease; when two goroutines open a
    store at once one is kept and the other closed; on a store with a connection of its own a stored funding rate
    is read back; migrating runs exactly the scripts of the new files or nothing, and the ledger stays true.
  \<^item> Back-fill: the year windows partition a range, the segments stand for exactly the stored open times, what
    a back-fill reports is stored. \<open>Ready\<close> means complete when the interval divides the window and the stored
    bars lie on its grid, and not otherwise.
  \<^item> Collectors: a reverse collection of spot bars that ends has stored every bar of its range, one of funding
    rates too when no query, rate or insert fails; a catch-up or a
    poll leaves no gap, only stored and fresh bars are published, an open-interest item is offered once, exactly
    the first book of a bucket is stored, calls of the rate limiter keep their distance.
  \<^item> Configuration: an accepted configuration is well-formed and stable, the databases that are prepared have
    safe names, forward the plan and the adapter build the same collectors (bars of one minute, and something
    switched on), no bar collector is built twice.
  \<^item> Control plane: as long as no listing drops a stream or request that runs, no collector runs unmanaged,
    there is one worker for each request, and stopping leaves nothing running. One reconciliation brings every
    listed stream to what is wanted and stops the others; the
    grace period is kept; each worker makes one terminal report; over the client the control plane is sent exactly the
    worker's calls; a round whose listing fails changes nothing; the options of the
    configuration reach both runtimes and the client.
  \<^item> Process: a managed service is set up as a whole, each of its stores with the lease manager; stores are closed only after the collectors or when the
    shutdown time is up, and after the signal the process ends whatever its collectors do.
  \<^item> Composition: \<open>reverse_service_stores_history\<close> goes from the configuration through the adapter to the rows in the
    database, \<open>ready_report_means_complete\<close> from a historical request to the rows.

  \<^bold>\<open>Concurrency.\<close> A locked section of the Go code is one state transformer. \<open>live_step\<close>, \<open>history_step\<close> and
  \<open>life_step\<close> are the interleavings of these sections by all goroutines; the invariants are proved by rule
  induction over every reachable state. \<open>main_events\<close> runs a sequence of steps of \<open>main\<close> and of the collectors that
  return; its theorems hold for every such sequence.

  \<^bold>\<open>Rounds.\<close> A loop whose end depends on the world takes a number of rounds and is \<open>None\<close> when they do not
  suffice; every such result of an endless loop (forward collection, \<open>Run\<close>) is stated for whatever number of rounds
  suffices. Where the loop has to end, the theorem gives the number: one more than the bars of the grid for a
  reverse collection (\<open>spot_reverse_terminates\<close>), one more than the rates (\<open>funding_backfill_complete\<close>), more than
  the messages of a connection (\<open>spot_book_snapshots\<close>). Retries are bounded by the code's own constants, and
  \<open>split_loop\<close> and \<open>backfill_loop\<close> are total by a measure on what is left of the range.

  \<^bold>\<open>Where the code does not do what it means to.\<close> The theorems state what the code does; among what they show are
  an interval whose duration wraps to zero and panics (\<open>interval_overflow_panics\<close>), minute and month bars in one
  table (\<open>month_and_minute_share_a_table\<close>), a coverage check that is ready with a bar missing
  (\<open>ready_with_a_bar_missing\<close>) or never ready (\<open>empty_window_never_ready\<close>), a collector that is orphaned when its
  stream is listed again (\<open>relisted_stream_orphans_collector\<close>), a request that runs twice
  (\<open>relisted_request_runs_twice\<close>), a reverse collection of futures bars that skips the bar at its start
  (\<open>futures_reverse_skips_start\<close>), a routed store that cannot be read (\<open>routed_store_cannot_be_read\<close>) and an
  order book row that ends the process (\<open>futures_book_tick\<close>).

  \<^bold>\<open>Not modelled.\<close> The interfaces of \<open>internal/scraper/scraper.go\<close> and \<open>internal/exchange/types.go\<close>, which have no
  code; where a component writes a log line (the lines themselves are in \<open>Log_Lines\<close>), which nothing reads; the
  log adapters and tracing, which hand on to libraries; flags and signals of \<open>cmd/scraper\<close> beyond what they
  decide; pool sizes, read deadlines, HTTP time-outs that only bound a call; the texts of the migrations and of
  the inline schema beyond the order of their statements; the list of REST endpoints kept for information; the
  search for the module root. Struct fields that no operation reads are left out of the records.
\<close>

end
